(* ===== verification/Prelude.thy ===== *)
theory Prelude
  imports Complex_Main "HOL-Library.AList"
begin

section \<open>Python's strings and dictionaries, and the lemmas every component shares\<close>

text \<open>
  The operations of Python's \<open>str\<close> and \<open>dict\<close> that the services use.

  Text is modelled by its UTF-8 bytes: a Python string is an Isabelle \<open>string\<close> whose
  characters are bytes. For ASCII text (header names, methods, error codes, URLs, metric
  lines) bytes and code points agree; the Chinese messages of the source are written with
  \<open>utf8\<close>, from their code points. Case mapping and white space are the ASCII ones.

  A \<open>dict\<close> keeps its insertion order, so it is an association list with distinct keys:
  reading is \<open>map_of\<close>, storing is \<open>AList.update\<close> (in place for a known key, at the end
  for a new one, as Python does), \<open>pop\<close> is \<open>AList.delete\<close>.
\<close>

named_theorems py_simps "equations of the Python string and dictionary operations"
named_theorems dict_intros "well-formedness of dictionaries"

type_synonym ('k, 'v) pydict = "('k \<times> 'v) list"

subsection \<open>Strings\<close>

definition starts_with :: "'a list \<Rightarrow> 'a list \<Rightarrow> bool" where
  "starts_with p s \<longleftrightarrow> take (length p) s = p"

definition removeprefix :: "'a list \<Rightarrow> 'a list \<Rightarrow> 'a list" where
  "removeprefix p s = (if starts_with p s then drop (length p) s else s)"

fun contains :: "'a list \<Rightarrow> 'a list \<Rightarrow> bool" where
  "contains n [] = (n = [])"
| "contains n (c # cs) = (starts_with n (c # cs) \<or> contains n cs)"

text \<open>\<open>s.split(d)\<close> for a one-character separator, and \<open>d.join(ws)\<close>.\<close>

fun split_on :: "'a \<Rightarrow> 'a list \<Rightarrow> 'a list list" where
  "split_on d [] = [[]]"
| "split_on d (c # cs) =
     (if c = d then [] # split_on d cs
      else (case split_on d cs of [] \<Rightarrow> [[c]] | w # ws \<Rightarrow> (c # w) # ws))"

fun join_with :: "'a list \<Rightarrow> 'a list list \<Rightarrow> 'a list" where
  "join_with sep [] = []"
| "join_with sep [w] = w"
| "join_with sep (w # v # ws) = w @ sep @ join_with sep (v # ws)"

definition py_space :: "char \<Rightarrow> bool" where
  "py_space c \<longleftrightarrow> (let n = (of_char c :: nat) in 9 \<le> n \<and> n \<le> 13 \<or> 28 \<le> n \<and> n \<le> 32)"

definition lstrip :: "string \<Rightarrow> string" where
  "lstrip s = dropWhile py_space s"

definition rstrip :: "string \<Rightarrow> string" where
  "rstrip s = rev (dropWhile py_space (rev s))"

definition strip :: "string \<Rightarrow> string" where
  "strip s = rstrip (lstrip s)"

text \<open>\<open>s.rstrip(c)\<close> and \<open>s.lstrip(c)\<close> for one given character.\<close>

definition rstrip_char :: "'a \<Rightarrow> 'a list \<Rightarrow> 'a list" where
  "rstrip_char c s = rev (dropWhile (\<lambda>x. x = c) (rev s))"

definition lstrip_char :: "'a \<Rightarrow> 'a list \<Rightarrow> 'a list" where
  "lstrip_char c s = dropWhile (\<lambda>x. x = c) s"

definition lower_char :: "char \<Rightarrow> char" where
  "lower_char c =
     (let n = (of_char c :: nat) in if 65 \<le> n \<and> n \<le> 90 then char_of (n + 32) else c)"

definition py_lower :: "string \<Rightarrow> string" where
  "py_lower s = map lower_char s"

text \<open>Decimal and hexadecimal renderings of a number (\<open>str(n)\<close>, \<open>format(n, "032x")\<close>).\<close>

fun show_nat :: "nat \<Rightarrow> string" where
  "show_nat n = (if n < 10 then [char_of (48 + n)] else show_nat (n div 10) @ [char_of (48 + n mod 10)])"

declare show_nat.simps [simp del]

definition show_int :: "int \<Rightarrow> string" where
  "show_int i = (if i < 0 then ''-'' @ show_nat (nat (- i)) else show_nat (nat i))"

definition hex_digit :: "nat \<Rightarrow> char" where
  "hex_digit n = (if n < 10 then char_of (48 + n) else char_of (87 + n))"

fun hex_pad :: "nat \<Rightarrow> nat \<Rightarrow> string" where
  "hex_pad 0 n = []"
| "hex_pad (Suc w) n = hex_pad w (n div 16) @ [hex_digit (n mod 16)]"

text \<open>UTF-8 encoding of code points, for the literals of the source outside ASCII.\<close>

fun utf8_point :: "nat \<Rightarrow> string" where
  "utf8_point n =
     (if n < 128 then [char_of n]
      else if n < 2048 then [char_of (192 + n div 64), char_of (128 + n mod 64)]
      else if n < 65536 then
        [char_of (224 + n div 4096), char_of (128 + n div 64 mod 64), char_of (128 + n mod 64)]
      else
        [char_of (240 + n div 262144), char_of (128 + n div 4096 mod 64),
         char_of (128 + n div 64 mod 64), char_of (128 + n mod 64)])"

definition utf8 :: "nat list \<Rightarrow> string" where
  "utf8 ns = concat (map utf8_point ns)"

text \<open>\<open>len(s)\<close> of a text counts its code points: the bytes that continue none.\<close>

definition code_points :: "string \<Rightarrow> nat" where
  "code_points s = length (filter (\<lambda>c. \<not> (128 \<le> (of_char c :: nat) \<and> (of_char c :: nat) < 192)) s)"

text \<open>Truth value of an optional string: neither \<open>None\<close> nor empty.\<close>

fun truthy :: "string option \<Rightarrow> bool" where
  "truthy None = False"
| "truthy (Some s) = (s \<noteq> [])"

text \<open>\<open>x or d\<close> on an optional string.\<close>

definition or_else :: "string option \<Rightarrow> string \<Rightarrow> string" where
  "or_else x d = (case x of Some s \<Rightarrow> if s \<noteq> [] then s else d | None \<Rightarrow> d)"

text \<open>
  The configuration idiom \<open>[u.strip() for u in text.split(",") if u.strip()]\<close>, used by the
  gateway, the autoscaler and the service for their URL lists.
\<close>

definition comma_list :: "string \<Rightarrow> string list" where
  "comma_list text = [strip u. u \<leftarrow> split_on CHR '','' text, strip u \<noteq> []]"

subsection \<open>Lemmas on strings\<close>

lemma starts_with_append [simp, py_simps]: "starts_with p (p @ s)"
  by (simp add: starts_with_def)

lemma starts_with_Nil [simp, py_simps]: "starts_with [] s"
  by (simp add: starts_with_def)

lemma starts_with_Cons [simp, py_simps]:
  "starts_with (a # p) (b # s) \<longleftrightarrow> a = b \<and> starts_with p s"
  by (auto simp: starts_with_def)

lemma starts_with_Cons_Nil [simp, py_simps]: "\<not> starts_with (a # p) []"
  by (simp add: starts_with_def)

lemma starts_withE: "starts_with p s \<Longrightarrow> \<exists>r. s = p @ r"
  by (metis append_take_drop_id starts_with_def)

lemma removeprefix_append [simp, py_simps]: "removeprefix p (p @ s) = s"
  by (simp add: removeprefix_def)

lemma contains_append_left: "contains n s \<Longrightarrow> contains n (r @ s)"
  by (induction r) auto

lemma contains_starts: "starts_with n s \<Longrightarrow> contains n s"
  by (cases s) (auto simp: starts_with_def)

lemma contains_iff: "contains n s \<longleftrightarrow> (\<exists>a b. s = a @ n @ b)"
proof
  show "contains n s \<Longrightarrow> \<exists>a b. s = a @ n @ b"
  proof (induction s)
    case Nil
    then show ?case by simp
  next
    case (Cons c cs)
    show ?case
    proof (cases "starts_with n (c # cs)")
      case True
      then obtain r where "c # cs = n @ r" by (auto dest: starts_withE)
      then show ?thesis by (metis append_Nil)
    next
      case False
      with Cons obtain a b where "cs = a @ n @ b" by auto
      then show ?thesis by (metis append_Cons)
    qed
  qed
next
  assume "\<exists>a b. s = a @ n @ b"
  then obtain a b where s: "s = a @ n @ b" by blast
  have "contains n (n @ b)" by (rule contains_starts) simp
  then have "contains n (a @ n @ b)" by (rule contains_append_left)
  then show "contains n s" by (simp add: s)
qed

lemma split_on_not_Nil [simp]: "split_on d s \<noteq> []"
  by (induction s) (auto split: list.splits)

lemma split_on_no_sep: "w \<in> set (split_on d s) \<Longrightarrow> d \<notin> set w"
  by (induction s arbitrary: w) (auto split: if_splits list.splits)

lemma split_on_free: "d \<notin> set w \<Longrightarrow> split_on d w = [w]"
  by (induction w) auto

lemma split_on_append: "d \<notin> set w \<Longrightarrow> split_on d (w @ d # s) = w # split_on d s"
  by (induction w) auto

lemma split_join:
  "ws \<noteq> [] \<Longrightarrow> \<forall>w \<in> set ws. d \<notin> set w \<Longrightarrow> split_on d (join_with [d] ws) = ws"
  by (induction "[d]" ws rule: join_with.induct) (auto simp: split_on_free split_on_append)

lemma join_split: "join_with [d] (split_on d s) = s"
proof (induction s)
  case (Cons c cs)
  obtain w ws where sp: "split_on d cs = w # ws" by (cases "split_on d cs") auto
  show ?case
  proof (cases "c = d")
    case True
    with Cons sp show ?thesis by simp
  next
    case False
    with Cons sp show ?thesis by (cases ws) auto
  qed
qed simp

lemma dropWhile_idem_iff: "xs = [] \<or> \<not> P (hd xs) \<Longrightarrow> dropWhile P xs = xs"
  by (cases xs) auto

lemma hd_dropWhile_not: "dropWhile P xs \<noteq> [] \<Longrightarrow> \<not> P (hd (dropWhile P xs))"
  by (rule hd_dropWhile)

lemma rstrip_char_last: "rstrip_char c s \<noteq> [] \<Longrightarrow> last (rstrip_char c s) \<noteq> c"
proof -
  assume "rstrip_char c s \<noteq> []"
  then have "dropWhile (\<lambda>x. x = c) (rev s) \<noteq> []" by (simp add: rstrip_char_def)
  then have "hd (dropWhile (\<lambda>x. x = c) (rev s)) \<noteq> c" by (rule hd_dropWhile)
  then show ?thesis by (simp add: rstrip_char_def last_rev)
qed

lemma set_rstrip: "set (rstrip s) \<subseteq> set s"
  by (auto simp: rstrip_def dest: set_dropWhileD)

lemma set_strip: "set (strip s) \<subseteq> set s"
  using set_rstrip by (fastforce simp: strip_def lstrip_def dest: set_dropWhileD)

lemma rstrip_last: "rstrip s \<noteq> [] \<Longrightarrow> \<not> py_space (last (rstrip s))"
proof -
  assume "rstrip s \<noteq> []"
  then have "dropWhile py_space (rev s) \<noteq> []" by (simp add: rstrip_def)
  then have "\<not> py_space (hd (dropWhile py_space (rev s)))" by (rule hd_dropWhile)
  then show ?thesis by (simp add: rstrip_def last_rev)
qed

lemma rstrip_id: "s = [] \<or> \<not> py_space (last s) \<Longrightarrow> rstrip s = s"
  by (auto simp: rstrip_def dropWhile_idem_iff hd_rev)

lemma lstrip_id: "s = [] \<or> \<not> py_space (hd s) \<Longrightarrow> lstrip s = s"
  by (auto simp: lstrip_def dropWhile_idem_iff)

lemma strip_id: "s = [] \<or> \<not> py_space (hd s) \<and> \<not> py_space (last s) \<Longrightarrow> strip s = s"
  by (auto simp: strip_def lstrip_id rstrip_id)

lemma rstrip_prefix: "\<exists>t. s = rstrip s @ t"
proof -
  have "rev s = takeWhile py_space (rev s) @ dropWhile py_space (rev s)" by simp
  then have "s = rev (dropWhile py_space (rev s)) @ rev (takeWhile py_space (rev s))"
    by (metis rev_append rev_rev_ident)
  then show ?thesis by (auto simp: rstrip_def)
qed

lemma strip_hd: "strip s \<noteq> [] \<Longrightarrow> \<not> py_space (hd (strip s))"
proof -
  assume ne: "strip s \<noteq> []"
  obtain t where t: "lstrip s = strip s @ t"
    using rstrip_prefix [of "lstrip s"] by (auto simp: strip_def)
  then have "dropWhile py_space s \<noteq> []" using ne by (auto simp: lstrip_def)
  then have "\<not> py_space (hd (lstrip s))" unfolding lstrip_def by (rule hd_dropWhile)
  moreover have "hd (lstrip s) = hd (strip s)" using ne t by simp
  ultimately show ?thesis by simp
qed

lemma strip_last: "strip s \<noteq> [] \<Longrightarrow> \<not> py_space (last (strip s))"
  by (simp add: strip_def rstrip_last)

lemma strip_strip [simp]: "strip (strip s) = strip s"
  by (cases "strip s = []") (auto intro!: strip_id simp: strip_hd strip_last)

lemma comma_list_stripped: "u \<in> set (comma_list t) \<Longrightarrow> u \<noteq> [] \<and> strip u = u"
  by (auto simp: comma_list_def)

lemma comma_list_no_comma: "u \<in> set (comma_list t) \<Longrightarrow> CHR '','' \<notin> set u"
  using set_strip by (fastforce simp: comma_list_def dest: split_on_no_sep)

lemma comma_list_join:
  assumes "us \<noteq> []" and "\<forall>u \<in> set us. u \<noteq> [] \<and> strip u = u \<and> CHR '','' \<notin> set u"
  shows "comma_list (join_with '','' us) = us"
proof -
  have "split_on CHR '','' (join_with '','' us) = us"
    using assms by (intro split_join) auto
  moreover have "\<forall>u \<in> set us. u \<noteq> [] \<and> strip u = u \<Longrightarrow> [strip u. u \<leftarrow> us, strip u \<noteq> []] = us"
    by (induction us) auto
  ultimately show ?thesis using assms by (simp add: comma_list_def)
qed

lemma length_hex_pad [simp]: "length (hex_pad w n) = w"
  by (induction w arbitrary: n) auto

subsection \<open>Dictionaries\<close>

definition dict_ok :: "('k, 'v) pydict \<Rightarrow> bool" where
  "dict_ok d \<longleftrightarrow> distinct (map fst d)"

definition dict_get :: "'v \<Rightarrow> 'k \<Rightarrow> ('k, 'v) pydict \<Rightarrow> 'v" where
  "dict_get dflt k d = (case map_of d k of None \<Rightarrow> dflt | Some v \<Rightarrow> v)"

definition dict_setdefault :: "'k \<Rightarrow> 'v \<Rightarrow> ('k, 'v) pydict \<Rightarrow> ('k, 'v) pydict" where
  "dict_setdefault k v d = (case map_of d k of None \<Rightarrow> d @ [(k, v)] | Some _ \<Rightarrow> d)"

lemma dict_ok_Nil [simp, dict_intros]: "dict_ok []"
  by (simp add: dict_ok_def)

lemma dict_ok_update [dict_intros]: "dict_ok d \<Longrightarrow> dict_ok (AList.update k v d)"
  by (simp add: dict_ok_def distinct_update)

lemma dict_ok_delete [dict_intros]: "dict_ok d \<Longrightarrow> dict_ok (AList.delete k d)"
  by (simp add: dict_ok_def distinct_delete)

lemma dict_ok_setdefault [dict_intros]: "dict_ok d \<Longrightarrow> dict_ok (dict_setdefault k v d)"
  by (auto simp: dict_ok_def dict_setdefault_def map_of_eq_None_iff split: option.splits)

lemma dict_ok_filter [dict_intros]: "dict_ok d \<Longrightarrow> dict_ok (filter P d)"
  by (simp add: dict_ok_def distinct_map_filter)

lemma map_of_update [simp, py_simps]:
  "map_of (AList.update k v d) x = (if x = k then Some v else map_of d x)"
  by (simp add: update_conv')

lemma map_of_delete [simp, py_simps]:
  "map_of (AList.delete k d) x = (if x = k then None else map_of d x)"
  by (simp add: delete_conv')

lemma map_of_setdefault [simp, py_simps]:
  "map_of (dict_setdefault k v d) x =
     (case map_of d x of Some y \<Rightarrow> Some y | None \<Rightarrow> if x = k then Some v else None)"
  by (auto simp: dict_setdefault_def map_add_def split: option.splits)

lemma dict_get_update [simp, py_simps]:
  "dict_get z k (AList.update k' v d) = (if k = k' then v else dict_get z k d)"
  by (simp add: dict_get_def)

lemma map_of_None_fst: "map_of d k = None \<longleftrightarrow> k \<notin> fst ` set d"
  by (simp add: map_of_eq_None_iff)

lemma dict_map_of_in: "dict_ok d \<Longrightarrow> (k, v) \<in> set d \<longleftrightarrow> map_of d k = Some v"
  by (auto simp: dict_ok_def)

lemma keys_update: "fst ` set (AList.update k v d) = insert k (fst ` set d)"
  by (simp add: dom_update)

text \<open>A loop that stores pairs one after the other: the last store of a key wins.\<close>

definition dict_of_pairs :: "('k \<times> 'v) list \<Rightarrow> ('k, 'v) pydict" where
  "dict_of_pairs ps = fold (\<lambda>(k, v) d. AList.update k v d) ps []"

lemma dict_ok_fold_update:
  "dict_ok d \<Longrightarrow> dict_ok (fold (\<lambda>(k, v) d. AList.update k v d) ps d)"
  by (induction ps arbitrary: d) (auto intro: dict_intros)

lemma dict_ok_of_pairs [simp, dict_intros]: "dict_ok (dict_of_pairs ps)"
  by (simp add: dict_of_pairs_def dict_ok_fold_update)

lemma map_of_fold_update:
  "map_of (fold (\<lambda>(k, v) d. AList.update k v d) ps d) x =
     (case map_of (rev ps) x of Some v \<Rightarrow> Some v | None \<Rightarrow> map_of d x)"
proof (induction ps arbitrary: d)
  case (Cons p ps)
  then show ?case by (cases p) (auto simp: map_add_def split: option.splits)
qed simp

lemma map_of_dict_of_pairs [simp, py_simps]: "map_of (dict_of_pairs ps) x = map_of (rev ps) x"
  by (simp add: dict_of_pairs_def map_of_fold_update split: option.splits)

lemma update_new: "k \<notin> fst ` set d \<Longrightarrow> AList.update k v d = d @ [(k, v)]"
  by (induction d) auto

lemma fold_update_distinct:
  "distinct (map fst (d @ ps)) \<Longrightarrow> fold (\<lambda>(k, v) d. AList.update k v d) ps d = d @ ps"
proof (induction ps arbitrary: d)
  case (Cons p ps)
  obtain k v where p: "p = (k, v)" by (cases p)
  with Cons.prems have "k \<notin> fst ` set d" by auto
  then have "AList.update k v d = d @ [(k, v)]" by (rule update_new)
  moreover from Cons.prems p have "distinct (map fst ((d @ [(k, v)]) @ ps))" by simp
  ultimately show ?case using Cons.IH [of "d @ [(k, v)]"] p by simp
qed simp

lemma dict_of_pairs_distinct [simp]: "distinct (map fst ps) \<Longrightarrow> dict_of_pairs ps = ps"
  using fold_update_distinct [of "[]" ps] by (simp add: dict_of_pairs_def)

text \<open>\<open>list(dict.fromkeys(xs))\<close>: without repetitions, in order of first occurrence.\<close>

definition from_keys :: "'a list \<Rightarrow> 'a list" where
  "from_keys xs = map fst (dict_of_pairs (map (\<lambda>x. (x, ())) xs))"

lemma keys_fold_update:
  "fst ` set (fold (\<lambda>(k, v) d. AList.update k v d) ps d) = fst ` set d \<union> fst ` set ps"
proof (induction ps arbitrary: d)
  case (Cons p ps)
  then show ?case by (cases p) (simp add: keys_update)
qed simp

lemma keys_dict_of_pairs: "fst ` set (dict_of_pairs ps) = fst ` set ps"
  by (simp add: dict_of_pairs_def keys_fold_update)

lemma set_from_keys [simp]: "set (from_keys xs) = set xs"
  using keys_dict_of_pairs [of "map (\<lambda>x. (x, ())) xs"] by (simp add: from_keys_def image_image)

lemma distinct_from_keys [simp]: "distinct (from_keys xs)"
  using dict_ok_of_pairs [of "map (\<lambda>x. (x, ())) xs"] by (simp add: from_keys_def dict_ok_def)

lemma from_keys_id: "distinct xs \<Longrightarrow> from_keys xs = xs"
  by (simp add: from_keys_def comp_def)

lemma from_keys_eq_Nil [simp]: "from_keys xs = [] \<longleftrightarrow> xs = []"
  by (metis set_empty set_from_keys)

subsection \<open>Round robin: \<open>itertools.cycle(range(n))\<close>\<close>

text \<open>
  A cycle over \<open>range(n)\<close> is the index it yields next; \<open>next\<close> on an empty cycle raises
  \<open>StopIteration\<close>, here \<open>None\<close>.
\<close>

definition cycle_next :: "nat \<Rightarrow> nat \<Rightarrow> (nat \<times> nat) option" where
  "cycle_next n i = (if n = 0 then None else Some (i mod n, Suc i mod n))"

fun cycle_take :: "nat \<Rightarrow> nat \<Rightarrow> nat \<Rightarrow> nat list" where
  "cycle_take n i 0 = []"
| "cycle_take n i (Suc k) =
     (case cycle_next n i of None \<Rightarrow> [] | Some (j, i') \<Rightarrow> j # cycle_take n i' k)"

lemma cycle_next_Some [simp]: "0 < n \<Longrightarrow> cycle_next n i = Some (i mod n, Suc i mod n)"
  by (simp add: cycle_next_def)

lemma cycle_take_eq: "0 < n \<Longrightarrow> cycle_take n i k = map (\<lambda>j. (i + j) mod n) [0..<k]"
proof (induction k arbitrary: i)
  case (Suc k)
  have "map (\<lambda>j. (Suc i mod n + j) mod n) [0..<k] = map (\<lambda>j. (i + j) mod n) [Suc 0..<Suc k]"
    by (simp add: map_Suc_upt [symmetric] mod_add_left_eq del: upt_Suc)
  then show ?case using Suc by (simp add: upt_conv_Cons del: upt_Suc)
qed simp

lemma mod_window_inj:
  assumes "a < n" "b < n" and eq: "(i + a) mod n = (i + b) mod (n::nat)"
  shows "a = b"
proof -
  have "n dvd (i + b) - (i + a)" if "a \<le> b"
    using mod_eq_dvd_iff_nat [of "i + a" "i + b" n] eq that by simp
  moreover have "n dvd (i + a) - (i + b)" if "b \<le> a"
    using mod_eq_dvd_iff_nat [of "i + b" "i + a" n] eq that by simp
  ultimately show ?thesis using assms(1,2)
    by (cases "a \<le> b") (auto dest!: dvd_imp_le)
qed

lemma mod_window: "0 < (n::nat) \<Longrightarrow> (\<lambda>j. (i + j) mod n) ` {0..<n} = {0..<n}"
proof (rule card_subset_eq)
  assume n: "0 < n"
  show "(\<lambda>j. (i + j) mod n) ` {0..<n} \<subseteq> {0..<n}" using n by auto
  have "inj_on (\<lambda>j. (i + j) mod n) {0..<n}"
    using mod_window_inj by (auto intro!: inj_onI)
  then show "card ((\<lambda>j. (i + j) mod n) ` {0..<n}) = card {0..<n}" by (rule card_image)
qed simp

text \<open>Keys that are joined by colons.\<close>

lemma append_colon_inj:
  "CHR '':'' \<notin> set a \<Longrightarrow> CHR '':'' \<notin> set b \<Longrightarrow> a @ '':'' @ x = b @ '':'' @ y \<longleftrightarrow> a = b \<and> x = y"
proof (induction a arbitrary: b)
  case Nil
  then show ?case by (cases b) auto
next
  case (Cons c cs)
  then show ?case by (cases b) auto
qed

end
