(* ===== verification/Json.thy ===== *)
theory Json
  imports Prelude
begin

section \<open>JSON documents: Python's \<open>json.dumps\<close> and \<open>json.loads\<close>\<close>

text \<open>
  The services exchange JSON texts: HTTP bodies, the records of the idempotency store, the
  envelopes on the message bus. A document is a \<open>json\<close> value; \<open>render\<close> writes it as
  \<open>json.dumps\<close> does, \<open>json_loads\<close> reads it back. The two renderings in use are the
  default one (separators \<open>", "\<close> and \<open>": "\<close>) and the compact one of
  Starlette's \<open>JSONResponse\<close>. A float is kept as its literal. Text is UTF-8 and is written as
  it is, where the default \<open>json.dumps\<close> writes non-ASCII characters as \<open>u\<close>-escapes; read back, both
  are the same text. The literals \<open>NaN\<close> and \<open>Infinity\<close> and escaped surrogate pairs are left out.
  The main result is the round trip \<open>json_loads_render\<close>.
\<close>

datatype json =
    JNull
  | JBool bool
  | JInt int
  | JFloat string
  | JStr string
  | JArr "json list"
  | JObj "(string \<times> json) list"

abbreviation quote_char :: char where "quote_char \<equiv> CHR 0x22"
abbreviation backslash_char :: char where "backslash_char \<equiv> CHR 0x5C"

subsection \<open>Rendering\<close>

definition esc_char :: "char \<Rightarrow> string" where
  "esc_char c =
     (let n = (of_char c :: nat) in
      if c = quote_char then [backslash_char, quote_char]
      else if c = backslash_char then [backslash_char, backslash_char]
      else if n = 10 then [backslash_char, CHR ''n'']
      else if n = 13 then [backslash_char, CHR ''r'']
      else if n = 9 then [backslash_char, CHR ''t'']
      else if n = 12 then [backslash_char, CHR ''f'']
      else if n = 8 then [backslash_char, CHR ''b'']
      else if n < 32 then [backslash_char, CHR ''u''] @ hex_pad 4 n
      else [c])"

definition render_string :: "string \<Rightarrow> string" where
  "render_string s = [quote_char] @ concat (map esc_char s) @ [quote_char]"

text \<open>The separators: between items, and between a key and its value.\<close>

record json_style =
  item_sep :: string
  key_sep :: string

definition style_default :: json_style where
  "style_default = \<lparr>item_sep = '', '', key_sep = '': ''\<rparr>"

definition style_compact :: json_style where
  "style_compact = \<lparr>item_sep = '','', key_sep = '':''\<rparr>"

fun render :: "json_style \<Rightarrow> json \<Rightarrow> string"
  and render_items :: "json_style \<Rightarrow> json list \<Rightarrow> string"
  and render_members :: "json_style \<Rightarrow> (string \<times> json) list \<Rightarrow> string"
where
  "render st JNull = ''null''"
| "render st (JBool b) = (if b then ''true'' else ''false'')"
| "render st (JInt i) = show_int i"
| "render st (JFloat l) = l"
| "render st (JStr s) = render_string s"
| "render st (JArr xs) = ''['' @ render_items st xs @ '']''"
| "render st (JObj ps) = ''{'' @ render_members st ps @ ''}''"
| "render_items st [] = []"
| "render_items st [x] = render st x"
| "render_items st (x # y # zs) = render st x @ item_sep st @ render_items st (y # zs)"
| "render_members st [] = []"
| "render_members st [(k, v)] = render_string k @ key_sep st @ render st v"
| "render_members st ((k, v) # p # ps) =
     render_string k @ key_sep st @ render st v @ item_sep st @ render_members st (p # ps)"

definition json_dumps :: "json \<Rightarrow> string" where
  "json_dumps v = render style_default v"

definition json_compact :: "json \<Rightarrow> string" where
  "json_compact v = render style_compact v"

subsection \<open>Reading\<close>

definition json_ws :: "char \<Rightarrow> bool" where
  "json_ws c \<longleftrightarrow> c = CHR '' '' \<or> c = CHR 0x09 \<or> c = CHR 0x0A \<or> c = CHR 0x0D"

definition skip_ws :: "string \<Rightarrow> string" where
  "skip_ws s = dropWhile json_ws s"

definition is_digit :: "char \<Rightarrow> bool" where
  "is_digit c \<longleftrightarrow> (let n = (of_char c :: nat) in 48 \<le> n \<and> n \<le> 57)"

definition digit_val :: "char \<Rightarrow> nat" where
  "digit_val c = of_char c - 48"

definition hex_val :: "char \<Rightarrow> nat option" where
  "hex_val c =
     (let n = (of_char c :: nat) in
      if 48 \<le> n \<and> n \<le> 57 then Some (n - 48)
      else if 97 \<le> n \<and> n \<le> 102 then Some (n - 87)
      else if 65 \<le> n \<and> n \<le> 70 then Some (n - 55)
      else None)"

definition hex4 :: "char \<Rightarrow> char \<Rightarrow> char \<Rightarrow> char \<Rightarrow> nat option" where
  "hex4 a b c d =
     (case (hex_val a, hex_val b, hex_val c, hex_val d) of
        (Some p, Some q, Some r, Some s) \<Rightarrow> Some (((p * 16 + q) * 16 + r) * 16 + s)
      | _ \<Rightarrow> None)"

definition cons_fst :: "string \<Rightarrow> (string \<times> string) option \<Rightarrow> (string \<times> string) option" where
  "cons_fst p x = map_option (\<lambda>(s, r). (p @ s, r)) x"

definition simple_escape :: "char \<Rightarrow> string option" where
  "simple_escape e =
     map_of [(quote_char, [quote_char]), (backslash_char, [backslash_char]), (CHR ''/'', ''/''),
             (CHR ''n'', [CHR 0x0A]), (CHR ''r'', [CHR 0x0D]), (CHR ''t'', [CHR 0x09]),
             (CHR ''f'', [CHR 0x0C]), (CHR ''b'', [CHR 0x08])] e"

text \<open>The text after the opening quote: the string read and what follows the closing quote.\<close>

function read_string :: "string \<Rightarrow> (string \<times> string) option" where
  "read_string [] = None"
| "read_string (c # cs) =
     (if c = quote_char then Some ([], cs)
      else if c = backslash_char then
        (case cs of
           [] \<Rightarrow> None
         | e # r \<Rightarrow>
             (case simple_escape e of
                Some t \<Rightarrow> cons_fst t (read_string r)
              | None \<Rightarrow>
                  if e = CHR ''u'' then
                    (case r of
                       a # b # c' # d # r' \<Rightarrow>
                         (case hex4 a b c' d of
                            None \<Rightarrow> None
                          | Some n \<Rightarrow>
                              if 55296 \<le> n \<and> n < 57344 then None
                              else cons_fst (utf8_point n) (read_string r'))
                     | _ \<Rightarrow> None)
                  else None))
      else if (of_char c :: nat) < 32 then None
      else cons_fst [c] (read_string cs))"
  by pat_completeness auto
termination
  by (relation "measure length") auto

fun digits_val :: "nat \<Rightarrow> string \<Rightarrow> nat" where
  "digits_val acc [] = acc"
| "digits_val acc (c # cs) = digits_val (acc * 10 + digit_val c) cs"

text \<open>The number pattern \<open>-?(0|[1-9]\\d*)(\\.\\d+)?([eE][-+]?\\d+)?\<close>.\<close>

definition read_nat :: "string \<Rightarrow> (string \<times> string) option" where
  "read_nat s =
     (let ds = takeWhile is_digit s; r = dropWhile is_digit s in
      if ds = [] \<or> (hd ds = CHR ''0'' \<and> length ds \<noteq> 1) then None else Some (ds, r))"

definition read_frac :: "string \<Rightarrow> string \<times> string" where
  "read_frac s =
     (case s of
        d # cs \<Rightarrow>
          if d = CHR ''.'' \<and> takeWhile is_digit cs \<noteq> [] then (d # takeWhile is_digit cs, dropWhile is_digit cs)
          else ([], s)
      | [] \<Rightarrow> ([], []))"

definition read_exp :: "string \<Rightarrow> string \<times> string" where
  "read_exp s =
     (case s of
        e # cs \<Rightarrow>
          (let sg = takeWhile (\<lambda>c. c = CHR ''+'' \<or> c = CHR ''-'') (take 1 cs); ds = drop (length sg) cs
           in if e \<in> {CHR ''e'', CHR ''E''} \<and> takeWhile is_digit ds \<noteq> []
              then (e # sg @ takeWhile is_digit ds, dropWhile is_digit ds) else ([], s))
      | [] \<Rightarrow> ([], []))"

definition read_number :: "string \<Rightarrow> (json \<times> string) option" where
  "read_number s =
     (let sg = (if starts_with ''-'' s then ''-'' else []) in
      case read_nat (drop (length sg) s) of
        None \<Rightarrow> None
      | Some (ds, r) \<Rightarrow>
          (let (f, r1) = read_frac r; (x, r2) = read_exp r1 in
           if f = [] \<and> x = [] then Some (JInt (if sg = [] then int (digits_val 0 ds) else - int (digits_val 0 ds)), r2)
           else Some (JFloat (sg @ ds @ f @ x), r2)))"

definition read_keyword :: "string \<Rightarrow> json \<Rightarrow> string \<Rightarrow> (json \<times> string) option" where
  "read_keyword kw v s = (if starts_with kw s then Some (v, drop (length kw) s) else None)"

fun read_scalar :: "string \<Rightarrow> (json \<times> string) option" where
  "read_scalar [] = None"
| "read_scalar (c # cs) =
     (if c = quote_char then map_option (\<lambda>(t, r). (JStr t, r)) (read_string cs)
      else if c = CHR ''n'' then read_keyword ''null'' JNull (c # cs)
      else if c = CHR ''t'' then read_keyword ''true'' (JBool True) (c # cs)
      else if c = CHR ''f'' then read_keyword ''false'' (JBool False) (c # cs)
      else read_number (c # cs))"

text \<open>The recursive reader; the fuel bounds the nesting and is enough at the text's length.\<close>

fun read_value :: "nat \<Rightarrow> string \<Rightarrow> (json \<times> string) option"
  and read_items :: "nat \<Rightarrow> string \<Rightarrow> (json list \<times> string) option"
  and read_members :: "nat \<Rightarrow> string \<Rightarrow> ((string \<times> json) list \<times> string) option"
where
  "read_value 0 s = None"
| "read_value (Suc f) s =
     (case s of
        [] \<Rightarrow> None
      | c # cs \<Rightarrow>
          if c = CHR ''['' then
            (case skip_ws cs of
               [] \<Rightarrow> None
             | d # ds \<Rightarrow>
                 if d = CHR '']'' then Some (JArr [], ds)
                 else map_option (\<lambda>(xs, r). (JArr xs, r)) (read_items f (d # ds)))
          else if c = CHR ''{'' then
            (case skip_ws cs of
               [] \<Rightarrow> None
             | d # ds \<Rightarrow>
                 if d = CHR ''}'' then Some (JObj [], ds)
                 else map_option (\<lambda>(ps, r). (JObj (dict_of_pairs ps), r)) (read_members f (d # ds)))
          else read_scalar s)"
| "read_items 0 s = None"
| "read_items (Suc f) s =
     (case read_value f s of
        None \<Rightarrow> None
      | Some (v, r) \<Rightarrow>
          (case skip_ws r of
             [] \<Rightarrow> None
           | d # ds \<Rightarrow>
               if d = CHR '']'' then Some ([v], ds)
               else if d = CHR '','' then
                 map_option (\<lambda>(vs, r'). (v # vs, r')) (read_items f (skip_ws ds))
               else None))"
| "read_members 0 s = None"
| "read_members (Suc f) s =
     (case s of
        [] \<Rightarrow> None
      | q # qs \<Rightarrow>
          if q \<noteq> quote_char then None
          else
            (case read_string qs of
               None \<Rightarrow> None
             | Some (k, r0) \<Rightarrow>
                 (case skip_ws r0 of
                    [] \<Rightarrow> None
                  | e # es \<Rightarrow>
                      if e \<noteq> CHR '':'' then None
                      else
                        (case read_value f (skip_ws es) of
                           None \<Rightarrow> None
                         | Some (v, r) \<Rightarrow>
                             (case skip_ws r of
                                [] \<Rightarrow> None
                              | d # ds \<Rightarrow>
                                  if d = CHR ''}'' then Some ([(k, v)], ds)
                                  else if d = CHR '','' then
                                    map_option (\<lambda>(ps, r'). ((k, v) # ps, r'))
                                      (read_members f (skip_ws ds))
                                  else None)))))"

definition json_loads :: "string \<Rightarrow> json option" where
  "json_loads s =
     (case read_value (length s + 1) (skip_ws s) of
        Some (v, r) \<Rightarrow> if skip_ws r = [] then Some v else None
      | None \<Rightarrow> None)"

subsection \<open>Reading back a string\<close>

lemma char_eqI: "(of_char c :: nat) = of_char d \<Longrightarrow> c = d"
  by (metis char_of_char)

lemma control_chars:
  "(of_char c :: nat) = 8 \<Longrightarrow> c = CHR 0x08" "(of_char c :: nat) = 9 \<Longrightarrow> c = CHR 0x09"
  "(of_char c :: nat) = 10 \<Longrightarrow> c = CHR 0x0A" "(of_char c :: nat) = 12 \<Longrightarrow> c = CHR 0x0C"
  "(of_char c :: nat) = 13 \<Longrightarrow> c = CHR 0x0D"
  by (simp_all add: char_eqI)

lemma of_char_less [simp]: "(of_char c :: nat) < 256"
  by (metis of_char_mod_256 mod_less_divisor zero_less_numeral)

lemma hex_val_digit [simp]: "n < 16 \<Longrightarrow> hex_val (hex_digit n) = Some n"
  by (auto simp: hex_val_def hex_digit_def Let_def)

lemma cons_fst_Some [simp]: "cons_fst p (Some (s, r)) = Some (p @ s, r)"
  by (simp add: cons_fst_def)

lemma read_string_hex:
  assumes "n < 128"
  shows "read_string ([backslash_char, CHR ''u''] @ hex_pad 4 n @ r) =
           cons_fst [char_of n] (read_string r)"
proof -
  have n: "n div 16 div 16 = 0" using assms by simp
  have four: "4 = Suc (Suc (Suc (Suc 0)))" by simp
  have "n div 16 < 16" using assms by simp
  then have "hex_pad 4 n = [hex_digit 0, hex_digit 0, hex_digit (n div 16), hex_digit (n mod 16)]"
    unfolding four using n by simp
  moreover have "n div 16 < 16" using assms by simp
  then have "hex4 (hex_digit 0) (hex_digit 0) (hex_digit (n div 16)) (hex_digit (n mod 16)) = Some n"
    by (simp add: hex4_def)
  ultimately show ?thesis using assms by (simp add: simple_escape_def)
qed

lemma read_string_esc: "read_string (esc_char c @ r) = cons_fst [c] (read_string r)"
proof (cases "of_char c < (32::nat) \<and> of_char c \<notin> {8, 9, 10, 12, 13::nat}")
  case True
  then have "c \<noteq> quote_char" "c \<noteq> backslash_char" by auto
  with True have "esc_char c = [backslash_char, CHR ''u''] @ hex_pad 4 (of_char c)"
    by (auto simp: esc_char_def Let_def)
  then show ?thesis using read_string_hex [of "of_char c" r] True by simp
next
  case False
  then show ?thesis
    by (auto simp: esc_char_def Let_def simple_escape_def dest: control_chars)
qed

lemma read_string_rendered:
  "read_string (concat (map esc_char s) @ quote_char # r) = Some (s, r)"
proof (induction s)
  case (Cons c s)
  then show ?case using read_string_esc [of c "concat (map esc_char s) @ quote_char # r"] by simp
qed simp

subsection \<open>Reading back a number\<close>

lemma is_digit_char_of [simp]: "(n::nat) < 10 \<Longrightarrow> is_digit (char_of (48 + n))"
  by (simp add: is_digit_def)

lemma digit_val_char_of [simp]: "(n::nat) < 10 \<Longrightarrow> digit_val (char_of (48 + n)) = n"
  by (simp add: digit_val_def)

lemma digits_val_snoc: "digits_val acc (xs @ [d]) = digits_val acc xs * 10 + digit_val d"
  by (induction xs arbitrary: acc) auto

lemma show_nat_digits: "c \<in> set (show_nat n) \<Longrightarrow> is_digit c"
proof (induction n arbitrary: c rule: show_nat.induct)
  case (1 n)
  then show ?case by (subst (asm) show_nat.simps) (auto split: if_splits)
qed

lemma show_nat_not_Nil [simp]: "show_nat n \<noteq> []"
  by (subst show_nat.simps) simp

lemma digits_val_show: "digits_val 0 (show_nat n) = n"
proof (induction n rule: show_nat.induct)
  case (1 n)
  then show ?case by (subst show_nat.simps) (auto simp: digits_val_snoc)
qed

lemma hd_show_nat: "hd (show_nat n) = CHR ''0'' \<Longrightarrow> n = 0"
proof (induction n rule: show_nat.induct)
  case (1 n)
  show ?case
  proof (cases "n < 10")
    case True
    with "1.prems" have "char_of (48 + n) = CHR ''0''" by (simp add: show_nat.simps [of n])
    then have "(of_char (char_of (48 + n)) :: nat) = of_char (CHR ''0'')" by simp
    with True show ?thesis by simp
  next
    case False
    with 1 show ?thesis by (auto simp: show_nat.simps [of n])
  qed
qed

definition number_end :: "string \<Rightarrow> bool" where
  "number_end r \<longleftrightarrow> r = [] \<or> \<not> is_digit (hd r) \<and> hd r \<notin> set ''.eE''"

lemma span_append:
  "r = [] \<or> \<not> P (hd r) \<Longrightarrow> takeWhile P (s @ r) = takeWhile P s \<and> dropWhile P (s @ r) = dropWhile P s @ r"
  by (induction s) (cases r; auto)+

lemma span_digits:
  "number_end r \<Longrightarrow> takeWhile is_digit (s @ r) = takeWhile is_digit s"
  "number_end r \<Longrightarrow> dropWhile is_digit (s @ r) = dropWhile is_digit s @ r"
  using span_append [of r is_digit s] by (auto simp: number_end_def)

lemma read_nat_append:
  assumes "number_end r" shows "read_nat (s @ r) = map_option (\<lambda>(d, q). (d, q @ r)) (read_nat s)"
  using span_digits [OF assms] by (simp add: read_nat_def Let_def)

lemma read_nat_show: "read_nat (show_nat n) = Some (show_nat n, [])"
proof -
  have t: "takeWhile is_digit (show_nat n) = show_nat n" "dropWhile is_digit (show_nat n) = []"
    using show_nat_digits by (simp_all add: takeWhile_eq_all_conv dropWhile_eq_Nil_conv)
  moreover have "show_nat n \<noteq> []" by (simp add: show_nat.simps)
  moreover have "length (show_nat n) = 1" if "hd (show_nat n) = CHR ''0''"
    using hd_show_nat [OF that] by (simp add: show_nat.simps)
  ultimately show ?thesis unfolding read_nat_def Let_def by presburger
qed

lemma read_frac_end: "number_end r \<Longrightarrow> read_frac r = ([], r)"
  by (cases r) (auto simp: read_frac_def number_end_def)

lemma read_exp_end: "number_end r \<Longrightarrow> read_exp r = ([], r)"
  by (cases r) (auto simp: read_exp_def number_end_def)

lemma read_frac_append:
  "number_end r \<Longrightarrow> read_frac (s @ r) = (fst (read_frac s), snd (read_frac s) @ r)"
  by (cases s) (simp add: read_frac_end read_frac_def [of "[]"], auto simp: read_frac_def span_digits)

lemma read_exp_append:
  assumes "number_end r" "snd (read_exp s) = []"
  shows "read_exp (s @ r) = (fst (read_exp s), r)"
proof (cases s)
  case Nil
  with assms show ?thesis by (simp add: read_exp_end) (simp add: read_exp_def)
next
  case (Cons e cs)
  show ?thesis
  proof (cases cs)
    case Nil
    with Cons assms show ?thesis by (simp add: read_exp_def)
  next
    case (Cons a as)
    with \<open>s = e # cs\<close> assms show ?thesis
      by (auto simp: read_exp_def Let_def span_digits span_digits [of r "_ # _", simplified] split: if_splits)
  qed
qed

lemma read_nat_drop: "read_nat s = Some (d, q) \<Longrightarrow> d \<noteq> [] \<and> s \<noteq> []"
  by (auto simp: read_nat_def Let_def split: if_splits)

lemma read_number_float:
  assumes "read_number l = Some (JFloat l, [])" "number_end r"
  shows "read_number (l @ r) = Some (JFloat l, r)"
proof -
  let ?sg = "if starts_with ''-'' l then ''-'' else []"
  obtain ds q where nat: "read_nat (drop (length ?sg) l) = Some (ds, q)"
    using assms(1) by (auto simp: read_number_def Let_def split: option.splits)
  obtain f q1 x q2 where fx: "read_frac q = (f, q1)" "read_exp q1 = (x, q2)" by fastforce
  have l: "q2 = []" "l = ?sg @ ds @ f @ x" "\<not> (f = [] \<and> x = [])"
    using assms(1) nat fx by (auto simp: read_number_def Let_def split: if_splits)
  have "l \<noteq> []" using read_nat_drop [OF nat] by auto
  then have sg: "(if starts_with ''-'' (l @ r) then ''-'' else []) = ?sg" "length ?sg \<le> length l"
    by (cases l; simp)+
  then have "read_nat (drop (length ?sg) (l @ r)) = Some (ds, q @ r)"
    using read_nat_append [OF assms(2), of "drop (length ?sg) l"] nat by simp
  moreover have "read_frac (q @ r) = (f, q1 @ r)" using read_frac_append [OF assms(2), of q] fx by simp
  moreover have "read_exp (q1 @ r) = (x, r)" using read_exp_append [OF assms(2), of q1] fx l(1) by simp
  ultimately show ?thesis using l(2,3) unfolding read_number_def Let_def sg(1) by simp
qed

subsection \<open>The round trip\<close>

text \<open>
  Documents with distinct keys (what a Python dictionary is) and well-formed float literals, and separators that are a comma
  or a colon followed by white space.
\<close>

fun json_ok :: "json \<Rightarrow> bool" where
  "json_ok (JArr xs) = list_all json_ok xs"
| "json_ok (JObj ps) = (distinct (map fst ps) \<and> list_all (\<lambda>p. json_ok (snd p)) ps)"
| "json_ok (JFloat l) = (read_number l = Some (JFloat l, []))"
| "json_ok _ = True"

definition style_ok :: "json_style \<Rightarrow> bool" where
  "style_ok st \<longleftrightarrow>
     (\<exists>w. item_sep st = CHR '','' # w \<and> list_all json_ws w) \<and>
     (\<exists>w. key_sep st = CHR '':'' # w \<and> list_all json_ws w)"

lemma style_default_ok [simp]: "style_ok style_default"
  by (auto simp: style_ok_def style_default_def json_ws_def)

lemma style_compact_ok [simp]: "style_ok style_compact"
  by (auto simp: style_ok_def style_compact_def)

lemma style_item_sep: "style_ok st \<Longrightarrow> \<exists>w. item_sep st = CHR '','' # w \<and> list_all json_ws w"
  by (simp add: style_ok_def)

lemma style_key_sep: "style_ok st \<Longrightarrow> \<exists>w. key_sep st = CHR '':'' # w \<and> list_all json_ws w"
  by (simp add: style_ok_def)

text \<open>Every rendered value begins with a character that starts a value.\<close>

definition value_head :: "char \<Rightarrow> bool" where
  "value_head c \<longleftrightarrow> c \<in> {quote_char, CHR ''n'', CHR ''t'', CHR ''f'', CHR ''-'', CHR ''['', CHR ''{''} \<or> is_digit c"

lemma value_head_not: "value_head c \<Longrightarrow> \<not> json_ws c \<and> c \<noteq> CHR '']'' \<and> c \<noteq> CHR ''}''"
  by (auto simp: value_head_def json_ws_def is_digit_def)

lemma show_nat_head: "\<exists>c cs. show_nat n = c # cs \<and> is_digit c"
  using show_nat_digits [of _ n] by (cases "show_nat n") auto

lemma number_head:
  "read_number s = Some (v, r) \<Longrightarrow> \<exists>c cs. s = c # cs \<and> (c = CHR ''-'' \<or> is_digit c)"
  by (cases s) (auto simp: read_number_def read_nat_def Let_def split: if_splits)

lemma render_head: "json_ok v \<Longrightarrow> \<exists>c cs. render st v = c # cs \<and> value_head c"
proof (cases v)
  case (JInt i)
  then show ?thesis
    using show_nat_head [of "nat i"] by (auto simp: show_int_def value_head_def)
next
  case (JFloat l)
  assume "json_ok v"
  with JFloat show ?thesis using number_head [of l] by (auto simp: value_head_def)
qed (auto simp: value_head_def render_string_def)

lemma render_items_head: "xs \<noteq> [] \<Longrightarrow> list_all json_ok xs \<Longrightarrow> \<exists>c cs. render_items st xs = c # cs \<and> value_head c"
  using render_head [of "hd xs" st] by (induction xs rule: induct_list012) auto

lemma render_members_head: "ps \<noteq> [] \<Longrightarrow> \<exists>cs. render_members st ps = quote_char # cs"
  by (cases ps; cases "tl ps") (auto simp: render_string_def)

lemma skip_ws_id: "\<not> json_ws c \<Longrightarrow> skip_ws (c # cs) = c # cs"
  by (simp add: skip_ws_def)

lemma skip_ws_append: "list_all json_ws w \<Longrightarrow> skip_ws (w @ r) = skip_ws r"
  by (induction w) (auto simp: skip_ws_def)

lemma skip_ws_render: "json_ok v \<Longrightarrow> skip_ws (render st v @ r) = render st v @ r"
  using render_head [of v st] by (auto simp: skip_ws_id dest: value_head_not)

lemma skip_ws_items: "xs \<noteq> [] \<Longrightarrow> list_all json_ok xs \<Longrightarrow> skip_ws (render_items st xs @ r) = render_items st xs @ r"
  using render_items_head [of xs st] by (auto simp: skip_ws_id dest: value_head_not)

lemma skip_ws_members: "ps \<noteq> [] \<Longrightarrow> skip_ws (render_members st ps @ r) = render_members st ps @ r"
  using render_members_head [of ps st] by (auto simp: skip_ws_id json_ws_def)

lemma number_end_Cons: "c \<in> set '',:]}'' \<Longrightarrow> number_end (c # r)"
  by (auto simp: number_end_def is_digit_def)

lemma show_int_head: "\<exists>c cs. show_int i = c # cs \<and> (c = CHR ''-'' \<or> is_digit c)"
  using show_nat_head [of "nat i"] by (auto simp: show_int_def)

lemma read_number_int:
  assumes "number_end r" shows "read_number (show_int i @ r) = Some (JInt i, r)"
proof -
  have n: "read_nat (show_nat n @ r) = Some (show_nat n, r)" for n
    using read_nat_append [OF assms, of "show_nat n"] by (simp add: read_nat_show)
  obtain c cs where "show_nat (nat i) = c # cs" "is_digit c" using show_nat_head by blast
  then have "\<not> starts_with ''-'' (show_nat (nat i) @ r)" by (auto simp: is_digit_def)
  then show ?thesis
    by (cases "i < 0")
      (simp_all add: read_number_def show_int_def n read_frac_end read_exp_end assms digits_val_show)
qed

lemma read_value_number:
  assumes "read_number s = Some x" shows "read_value (Suc f) s = Some x"
proof -
  obtain c cs where c: "s = c # cs" "c = CHR ''-'' \<or> is_digit c"
    using number_head [of s] assms by (cases x) auto
  then have "c \<notin> {quote_char, CHR ''n'', CHR ''t'', CHR ''f'', CHR ''['', CHR ''{''}"
    by (auto simp: is_digit_def)
  then show ?thesis using assms c by auto
qed

lemma read_value_int:
  "number_end r \<Longrightarrow> read_value (Suc f) (show_int i @ r) = Some (JInt i, r)"
  by (intro read_value_number read_number_int)

lemma read_value_keyword:
  assumes "(kw, v) \<in> {(''null'', JNull), (''true'', JBool True), (''false'', JBool False)}"
  shows "read_value (Suc f) (kw @ r) = Some (v, r)"
  using assms by (auto simp: read_keyword_def)

lemma read_value_string: "read_value (Suc f) (render_string s @ r) = Some (JStr s, r)"
  by (simp add: render_string_def read_string_rendered del: read_string.simps)

lemma read_rendered:
  assumes st: "style_ok st"
  shows "json_ok v \<Longrightarrow> number_end r \<Longrightarrow> length (render st v) < f \<Longrightarrow>
           read_value f (render st v @ r) = Some (v, r)"
    and "xs \<noteq> [] \<Longrightarrow> list_all json_ok xs \<Longrightarrow> length (render_items st xs) + 1 < f \<Longrightarrow>
           read_items f (render_items st xs @ CHR '']'' # r) = Some (xs, r)"
    and "ps \<noteq> [] \<Longrightarrow> list_all (\<lambda>p. json_ok (snd p)) ps \<Longrightarrow>
           length (render_members st ps) + 1 < f \<Longrightarrow>
           read_members f (render_members st ps @ CHR ''}'' # r) = Some (ps, r)"
  using st
proof (induction st v and st xs and st ps arbitrary: f r and f r and f r
    rule: render_render_items_render_members.induct)
  case (1 st)
  then show ?case by (cases f) (use read_value_keyword [of "''null''" JNull] in auto)
next
  case (2 st b)
  then show ?case
    by (cases f; cases b) (use read_value_keyword [of "''true''"] read_value_keyword [of "''false''"] in auto)
next
  case (3 st i)
  then show ?case by (cases f) (auto simp: read_value_int simp del: read_value.simps)
next
  case (4 st l)
  then show ?case
    by (cases f) (auto intro: read_value_number read_number_float simp del: read_value.simps)
next
  case (5 st s)
  then show ?case by (cases f) (auto simp: read_value_string simp del: read_value.simps)
next
  case (6 st xs)
  then obtain f' where f: "f = Suc f'" by (cases f) auto
  show ?case
  proof (cases "xs = []")
    case True
    then show ?thesis using f by (simp add: skip_ws_def json_ws_def)
  next
    case False
    have "read_items f' (render_items st xs @ CHR '']'' # r) = Some (xs, r)"
      using 6 f False by (simp del: read_items.simps)
    moreover obtain c cs where "render_items st xs = c # cs" "value_head c"
      using render_items_head [OF False, of st] 6(2) by auto
    ultimately show ?thesis using f by (auto simp: skip_ws_id dest: value_head_not)
  qed
next
  case (7 st ps)
  then obtain f' where f: "f = Suc f'" by (cases f) auto
  show ?case
  proof (cases "ps = []")
    case True
    then show ?thesis using f by (simp add: skip_ws_def json_ws_def)
  next
    case False
    have "read_members f' (render_members st ps @ CHR ''}'' # r) = Some (ps, r)"
      using 7 f False by (simp del: read_members.simps)
    moreover obtain cs where "render_members st ps = quote_char # cs"
      using render_members_head [OF False] by blast
    ultimately show ?thesis using 7 f by (simp add: skip_ws_id json_ws_def)
  qed
next
  case (8 st)
  then show ?case by simp
next
  case (9 st x)
  then obtain f' where f: "f = Suc f'" by (cases f) auto
  have "read_value f' (render st x @ CHR '']'' # r) = Some (x, CHR '']'' # r)"
    using 9 f by (simp add: number_end_Cons del: read_value.simps)
  then show ?case using f by (simp add: skip_ws_id json_ws_def)
next
  case (10 st x y zs)
  then obtain f' where f: "f = Suc f'" by (cases f) auto
  obtain w where w: "item_sep st = CHR '','' # w" "list_all json_ws w"
    using style_item_sep 10(6) by blast
  let ?rest = "w @ render_items st (y # zs) @ CHR '']'' # r"
  have "read_value f' (render st x @ CHR '','' # ?rest) = Some (x, CHR '','' # ?rest)"
    using 10 f by (simp add: number_end_Cons del: read_value.simps)
  moreover have "read_items f' (render_items st (y # zs) @ CHR '']'' # r) = Some (y # zs, r)"
    using 10 f w by (simp del: read_items.simps render_items.simps(3) add: render_items.simps(3) [of st x])
  moreover have "list_all json_ok (y # zs)" using 10 by simp
  ultimately show ?case using f w
    by (simp add: skip_ws_id json_ws_def skip_ws_append skip_ws_items del: render_items.simps(3) list.pred_inject
        add: render_items.simps(3) [of st x])
next
  case (11 st)
  then show ?case by simp
next
  case (12 st k v)
  then obtain f' where f: "f = Suc f'" by (cases f) auto
  obtain w where w: "key_sep st = CHR '':'' # w" "list_all json_ws w"
    using style_key_sep 12(5) by blast
  have "read_value f' (render st v @ CHR ''}'' # r) = Some (v, CHR ''}'' # r)"
    using 12 f by (simp add: number_end_Cons del: read_value.simps)
  moreover have "json_ok v" using 12 by simp
  ultimately show ?case using f w
    by (simp add: render_string_def read_string_rendered skip_ws_id json_ws_def skip_ws_append
        skip_ws_render del: read_string.simps)
next
  case (13 st k v p ps)
  then obtain f' where f: "f = Suc f'" by (cases f) auto
  obtain w where w: "key_sep st = CHR '':'' # w" "list_all json_ws w"
    using style_key_sep 13(6) by blast
  obtain u where u: "item_sep st = CHR '','' # u" "list_all json_ws u"
    using style_item_sep 13(6) by blast
  let ?rest = "u @ render_members st (p # ps) @ CHR ''}'' # r"
  have "read_value f' (render st v @ CHR '','' # ?rest) = Some (v, CHR '','' # ?rest)"
    using 13 f by (simp add: number_end_Cons del: read_value.simps)
  moreover have "read_members f' (render_members st (p # ps) @ CHR ''}'' # r) = Some (p # ps, r)"
    using 13 f w u
    by (simp del: read_members.simps render_members.simps(3) add: render_members.simps(3) [of st k v])
  moreover have "json_ok v" using 13 by simp
  ultimately show ?case using f w u
    by (simp add: render_string_def read_string_rendered skip_ws_id json_ws_def skip_ws_append
        skip_ws_render skip_ws_members del: read_string.simps render_members.simps(3)
        add: render_members.simps(3) [of st k v])
qed

lemma json_loads_render:
  assumes "style_ok st" "json_ok v"
  shows "json_loads (render st v) = Some v"
proof -
  have "read_value (length (render st v) + 1) (render st v @ []) = Some (v, [])"
    using assms by (intro read_rendered) (auto simp: number_end_def)
  moreover have "skip_ws (render st v) = render st v" using skip_ws_render [OF assms(2), of st "[]"] by simp
  ultimately show ?thesis by (simp add: json_loads_def skip_ws_def)
qed

lemma json_loads_dumps [simp]: "json_ok v \<Longrightarrow> json_loads (json_dumps v) = Some v"
  by (simp add: json_dumps_def json_loads_render)

lemma json_loads_compact [simp]: "json_ok v \<Longrightarrow> json_loads (json_compact v) = Some v"
  by (simp add: json_compact_def json_loads_render)

lemma json_compact_not_Nil [simp]: "json_ok v \<Longrightarrow> json_compact v \<noteq> []"
  using render_head [of v style_compact] by (auto simp: json_compact_def)

lemma json_dumps_not_Nil [simp]: "json_ok v \<Longrightarrow> json_dumps v \<noteq> []"
  using render_head [of v style_default] by (auto simp: json_dumps_def)

lemma json_loads_Nil [simp]: "json_loads [] = None"
  by (simp add: json_loads_def skip_ws_def)

end
