(* ===== verification/Context.thy ===== *)
theory Context
  imports Prelude
begin

section \<open>Request context: kernel/context.py and the trace context of contract_sdk/events.py\<close>

text \<open>
  The context variables that \<open>RequestContextMiddleware\<close> and \<open>IdentityMiddleware\<close> write and
  that logging, authorization and event staging read: one record, passed explicitly. The second
  part is the W3C trace context of the event envelope with its field patterns; the lemma
  \<open>trace_of_request\<close> shows that the identifier the middleware formats always fits them.
\<close>

record identity =
  user_id :: "string option"
  roles :: "string list"
  tenant_id :: "string option"
  is_service :: bool

definition default_identity :: identity where
  "default_identity = \<lparr>user_id = None, roles = [], tenant_id = None, is_service = False\<rparr>"

record ctxvars =
  request_id_var :: string
  trace_id_var :: string
  span_id_var :: string
  identity_var :: "identity option"

definition default_ctx :: ctxvars where
  "default_ctx = \<lparr>request_id_var = [], trace_id_var = [], span_id_var = [], identity_var = None\<rparr>"

definition set_request_context :: "string \<Rightarrow> string \<Rightarrow> string \<Rightarrow> ctxvars \<Rightarrow> ctxvars" where
  "set_request_context request_id trace_id span_id c =
     c\<lparr>request_id_var := request_id, trace_id_var := trace_id, span_id_var := span_id\<rparr>"

definition get_request_id :: "ctxvars \<Rightarrow> string" where
  "get_request_id c = request_id_var c"

definition get_trace_id :: "ctxvars \<Rightarrow> string" where
  "get_trace_id c = trace_id_var c"

definition get_span_id :: "ctxvars \<Rightarrow> string" where
  "get_span_id c = span_id_var c"

definition set_identity :: "identity option \<Rightarrow> ctxvars \<Rightarrow> ctxvars" where
  "set_identity i c = c\<lparr>identity_var := i\<rparr>"

definition get_identity :: "ctxvars \<Rightarrow> identity option" where
  "get_identity c = identity_var c"

definition logging_context :: "ctxvars \<Rightarrow> (string, string) pydict" where
  "logging_context c = [(''request_id'', get_request_id c), (''trace_id'', get_trace_id c)]"

lemmas context_defs = set_request_context_def get_request_id_def get_trace_id_def get_span_id_def
  set_identity_def get_identity_def

lemma get_set_request_context [simp]:
  "get_request_id (set_request_context r t s c) = r"
  "get_trace_id (set_request_context r t s c) = t"
  "get_span_id (set_request_context r t s c) = s"
  "get_identity (set_request_context r t s c) = get_identity c"
  by (simp_all add: context_defs)

lemma get_set_identity [simp]:
  "get_identity (set_identity i c) = i"
  "get_request_id (set_identity i c) = get_request_id c"
  "get_trace_id (set_identity i c) = get_trace_id c"
  "get_span_id (set_identity i c) = get_span_id c"
  by (simp_all add: context_defs)

subsection \<open>The trace context of an event\<close>

record trace_context =
  trace_id :: string
  span_id :: string
  trace_flags :: string

definition lower_hex :: "char \<Rightarrow> bool" where
  "lower_hex c \<longleftrightarrow> (let n = (of_char c :: nat) in 48 \<le> n \<and> n \<le> 57 \<or> 97 \<le> n \<and> n \<le> 102)"

text \<open>The field patterns \<open>^[0-9a-f]{n}$\<close>.\<close>

definition hex_field :: "nat \<Rightarrow> string \<Rightarrow> bool" where
  "hex_field n s \<longleftrightarrow> length s = n \<and> list_all lower_hex s"

text \<open>Construction validates the three fields; \<open>None\<close> is pydantic's \<open>ValidationError\<close>.\<close>

definition make_trace_context :: "string \<Rightarrow> string \<Rightarrow> string \<Rightarrow> trace_context option" where
  "make_trace_context tid sid flags =
     (if hex_field 32 tid \<and> hex_field 16 sid \<and> hex_field 2 flags
      then Some \<lparr>trace_id = tid, span_id = sid, trace_flags = flags\<rparr> else None)"

definition traceparent :: "trace_context \<Rightarrow> string" where
  "traceparent t = ''00-'' @ trace_id t @ ''-'' @ span_id t @ ''-'' @ trace_flags t"

definition trace_ok :: "trace_context \<Rightarrow> bool" where
  "trace_ok t \<longleftrightarrow> hex_field 32 (trace_id t) \<and> hex_field 16 (span_id t) \<and> hex_field 2 (trace_flags t)"

lemma make_trace_context_ok: "make_trace_context a b c = Some t \<Longrightarrow> trace_ok t"
  by (auto simp: make_trace_context_def trace_ok_def split: if_splits)

lemma make_trace_context_id:
  "trace_ok t \<Longrightarrow> make_trace_context (trace_id t) (span_id t) (trace_flags t) = Some t"
  by (simp add: make_trace_context_def trace_ok_def)

lemma lower_hex_digit: "n < 16 \<Longrightarrow> lower_hex (hex_digit n)"
  by (auto simp: lower_hex_def hex_digit_def Let_def)

lemma hex_pad_lower: "list_all lower_hex (hex_pad w n)"
  by (induction w arbitrary: n) (auto simp: lower_hex_digit)

lemma hex_field_hex_pad: "hex_field w (hex_pad w n)"
  by (simp add: hex_field_def hex_pad_lower)

lemma hex_field_zeros: "hex_field w (replicate w CHR ''0'')"
  by (simp add: hex_field_def lower_hex_def list_all_length)

lemma length_traceparent: "trace_ok t \<Longrightarrow> length (traceparent t) = 55"
  by (simp add: traceparent_def trace_ok_def hex_field_def)

text \<open>
  \<open>format(ctx.trace_id, "032x")\<close> of the 128-bit identifier: \<open>hex_pad 32\<close>. The event built
  from it passes the envelope's patterns.
\<close>

lemma trace_of_request:
  "make_trace_context (hex_pad 32 n) (replicate 16 CHR ''0'') ''01'' \<noteq> None"
  by (simp add: make_trace_context_def hex_field_hex_pad hex_field_zeros)
    (simp add: hex_field_def lower_hex_def)

end
