(* ===== verification/Errors.thy ===== *)
theory Errors
  imports Json Context "HOL-Library.Product_Lexorder" "HOL-Library.List_Lexorder" "HOL-Library.Char_ord"
    "HOL-Library.Multiset"
begin

section \<open>Error codes and exceptions: kernel/error_codes.py and kernel/errors.py\<close>

text \<open>
  The registry of business error codes (a dictionary filled at import time), the built-in codes,
  the reverse lookup by HTTP status, and the exception classes that are driven by the registry.
  \<open>registry_ok\<close> is the registry's invariant; \<open>all_error_codes_sorted\<close> describes the listing
  behind \<open>GET /errors\<close>.
\<close>

record error_code =
  ec_code :: string
  ec_http_status :: int
  ec_title :: string
  ec_default_message :: string
  ec_log_level :: string
  ec_retryable :: bool

type_synonym registry = "(string, error_code) pydict"

definition register_error_code :: "error_code \<Rightarrow> registry \<Rightarrow> error_code \<times> registry" where
  "register_error_code ec reg = (ec, dict_setdefault (ec_code ec) ec reg)"

definition get_error_code :: "registry \<Rightarrow> string \<Rightarrow> error_code option" where
  "get_error_code reg code = map_of reg code"

definition all_error_codes :: "registry \<Rightarrow> error_code list" where
  "all_error_codes reg = sort_key (\<lambda>ec. (ec_http_status ec, ec_code ec)) (map snd reg)"

subsection \<open>The built-in codes\<close>

definition INTERNAL_ERROR :: error_code where
  "INTERNAL_ERROR = \<lparr>ec_code = ''INTERNAL_ERROR'', ec_http_status = 500, ec_title = ''Internal Server Error'',
     ec_default_message = utf8 [0x670D, 0x52A1, 0x5668, 0x5185, 0x90E8, 0x9519, 0x8BEF], ec_log_level = ''error'', ec_retryable = False\<rparr>"

definition BAD_REQUEST :: error_code where
  "BAD_REQUEST = \<lparr>ec_code = ''BAD_REQUEST'', ec_http_status = 400, ec_title = ''Bad Request'',
     ec_default_message = utf8 [0x8BF7, 0x6C42, 0x4E0D, 0x5408, 0x6CD5], ec_log_level = ''warning'', ec_retryable = False\<rparr>"

definition UNAUTHORIZED :: error_code where
  "UNAUTHORIZED = \<lparr>ec_code = ''UNAUTHORIZED'', ec_http_status = 401, ec_title = ''Unauthorized'',
     ec_default_message = utf8 [0x672A, 0x8BA4, 0x8BC1, 0xFF1A, 0x7F3A, 0x5C11, 0x53EF, 0x4FE1, 0x8EAB, 0x4EFD], ec_log_level = ''info'', ec_retryable = False\<rparr>"

definition FORBIDDEN :: error_code where
  "FORBIDDEN = \<lparr>ec_code = ''FORBIDDEN'', ec_http_status = 403, ec_title = ''Forbidden'',
     ec_default_message = utf8 [0x65E0, 0x6743, 0x8BBF, 0x95EE, 0x8BE5, 0x8D44, 0x6E90], ec_log_level = ''info'', ec_retryable = False\<rparr>"

definition NOT_FOUND :: error_code where
  "NOT_FOUND = \<lparr>ec_code = ''NOT_FOUND'', ec_http_status = 404, ec_title = ''Not Found'',
     ec_default_message = utf8 [0x8D44, 0x6E90, 0x4E0D, 0x5B58, 0x5728], ec_log_level = ''info'', ec_retryable = False\<rparr>"

definition METHOD_NOT_ALLOWED :: error_code where
  "METHOD_NOT_ALLOWED = \<lparr>ec_code = ''METHOD_NOT_ALLOWED'', ec_http_status = 405,
     ec_title = ''Method Not Allowed'', ec_default_message = utf8 [0x8BF7, 0x6C42, 0x65B9, 0x6CD5, 0x4E0D, 0x88AB, 0x5141, 0x8BB8],
     ec_log_level = ''info'', ec_retryable = False\<rparr>"

definition CONFLICT :: error_code where
  "CONFLICT = \<lparr>ec_code = ''CONFLICT'', ec_http_status = 409, ec_title = ''Conflict'',
     ec_default_message = utf8 [0x8D44, 0x6E90, 0x51B2, 0x7A81], ec_log_level = ''warning'', ec_retryable = False\<rparr>"

definition VALIDATION_ERROR :: error_code where
  "VALIDATION_ERROR = \<lparr>ec_code = ''VALIDATION_ERROR'', ec_http_status = 422, ec_title = ''Validation Error'',
     ec_default_message = utf8 [0x8BF7, 0x6C42, 0x53C2, 0x6570, 0x6821, 0x9A8C, 0x5931, 0x8D25], ec_log_level = ''warning'', ec_retryable = False\<rparr>"

definition RATE_LIMITED :: error_code where
  "RATE_LIMITED = \<lparr>ec_code = ''RATE_LIMITED'', ec_http_status = 429, ec_title = ''Too Many Requests'',
     ec_default_message = utf8 [0x8BF7, 0x6C42, 0x8FC7, 0x4E8E, 0x9891, 0x7E41, 0xFF0C, 0x8BF7, 0x7A0D, 0x540E, 0x518D, 0x8BD5], ec_log_level = ''warning'', ec_retryable = True\<rparr>"

definition BAD_GATEWAY :: error_code where
  "BAD_GATEWAY = \<lparr>ec_code = ''BAD_GATEWAY'', ec_http_status = 502, ec_title = ''Bad Gateway'',
     ec_default_message = utf8 [0x4E0B, 0x6E38, 0x670D, 0x52A1, 0x4E0D, 0x53EF, 0x7528], ec_log_level = ''warning'', ec_retryable = True\<rparr>"

definition SERVICE_UNAVAILABLE :: error_code where
  "SERVICE_UNAVAILABLE = \<lparr>ec_code = ''SERVICE_UNAVAILABLE'', ec_http_status = 503,
     ec_title = ''Service Unavailable'', ec_default_message = utf8 [0x670D, 0x52A1, 0x6682, 0x4E0D, 0x53EF, 0x7528, 0xFF0C, 0x8BF7, 0x7A0D, 0x540E, 0x518D, 0x8BD5],
     ec_log_level = ''warning'', ec_retryable = True\<rparr>"

definition GATEWAY_TIMEOUT :: error_code where
  "GATEWAY_TIMEOUT = \<lparr>ec_code = ''GATEWAY_TIMEOUT'', ec_http_status = 504, ec_title = ''Gateway Timeout'',
     ec_default_message = utf8 [0x4E0B, 0x6E38, 0x670D, 0x52A1, 0x54CD, 0x5E94, 0x8D85, 0x65F6], ec_log_level = ''warning'', ec_retryable = True\<rparr>"

definition HTTP_ERROR :: error_code where
  "HTTP_ERROR = \<lparr>ec_code = ''HTTP_ERROR'', ec_http_status = 500, ec_title = ''HTTP Error'',
     ec_default_message = ''HTTP '' @ utf8 [0x9519, 0x8BEF], ec_log_level = ''warning'', ec_retryable = False\<rparr>"

definition builtin_codes :: "error_code list" where
  "builtin_codes =
     [INTERNAL_ERROR, BAD_REQUEST, UNAUTHORIZED, FORBIDDEN, NOT_FOUND, METHOD_NOT_ALLOWED, CONFLICT,
      VALIDATION_ERROR, RATE_LIMITED, BAD_GATEWAY, SERVICE_UNAVAILABLE, GATEWAY_TIMEOUT, HTTP_ERROR]"

text \<open>The module body registers the built-in codes one after the other.\<close>

definition register_all :: "error_code list \<Rightarrow> registry \<Rightarrow> registry" where
  "register_all ecs reg = fold (\<lambda>ec r. snd (register_error_code ec r)) ecs reg"

definition builtin_registry :: registry where
  "builtin_registry = register_all builtin_codes []"

definition by_status :: "(int, error_code) pydict" where
  "by_status =
       [(400, BAD_REQUEST), (401, UNAUTHORIZED), (403, FORBIDDEN), (404, NOT_FOUND),
        (405, METHOD_NOT_ALLOWED), (409, CONFLICT), (422, VALIDATION_ERROR), (429, RATE_LIMITED),
        (500, INTERNAL_ERROR), (502, BAD_GATEWAY), (503, SERVICE_UNAVAILABLE), (504, GATEWAY_TIMEOUT)]"

definition lookup_http_error :: "int \<Rightarrow> error_code" where
  "lookup_http_error status = dict_get HTTP_ERROR status by_status"

lemmas builtin_code_defs = INTERNAL_ERROR_def BAD_REQUEST_def UNAUTHORIZED_def FORBIDDEN_def
  NOT_FOUND_def METHOD_NOT_ALLOWED_def CONFLICT_def VALIDATION_ERROR_def RATE_LIMITED_def
  BAD_GATEWAY_def SERVICE_UNAVAILABLE_def GATEWAY_TIMEOUT_def HTTP_ERROR_def

subsection \<open>Lemmas on the registry\<close>

lemma builtin_status [simp]:
  "ec_http_status INTERNAL_ERROR = 500" "ec_http_status BAD_REQUEST = 400"
  "ec_http_status UNAUTHORIZED = 401" "ec_http_status FORBIDDEN = 403"
  "ec_http_status NOT_FOUND = 404" "ec_http_status METHOD_NOT_ALLOWED = 405"
  "ec_http_status CONFLICT = 409" "ec_http_status VALIDATION_ERROR = 422"
  "ec_http_status RATE_LIMITED = 429" "ec_http_status BAD_GATEWAY = 502"
  "ec_http_status SERVICE_UNAVAILABLE = 503" "ec_http_status GATEWAY_TIMEOUT = 504"
  "ec_http_status HTTP_ERROR = 500"
  by (simp_all add: builtin_code_defs)

lemma builtin_code [simp]:
  "ec_code INTERNAL_ERROR = ''INTERNAL_ERROR''" "ec_code BAD_REQUEST = ''BAD_REQUEST''"
  "ec_code UNAUTHORIZED = ''UNAUTHORIZED''" "ec_code FORBIDDEN = ''FORBIDDEN''"
  "ec_code NOT_FOUND = ''NOT_FOUND''" "ec_code METHOD_NOT_ALLOWED = ''METHOD_NOT_ALLOWED''"
  "ec_code CONFLICT = ''CONFLICT''" "ec_code VALIDATION_ERROR = ''VALIDATION_ERROR''"
  "ec_code RATE_LIMITED = ''RATE_LIMITED''" "ec_code BAD_GATEWAY = ''BAD_GATEWAY''"
  "ec_code SERVICE_UNAVAILABLE = ''SERVICE_UNAVAILABLE''"
  "ec_code GATEWAY_TIMEOUT = ''GATEWAY_TIMEOUT''" "ec_code HTTP_ERROR = ''HTTP_ERROR''"
  by (simp_all add: builtin_code_defs)

definition registry_ok :: "registry \<Rightarrow> bool" where
  "registry_ok reg \<longleftrightarrow> dict_ok reg \<and> (\<forall>(k, ec) \<in> set reg. ec_code ec = k)"

lemma registry_ok_Nil [simp]: "registry_ok []"
  by (simp add: registry_ok_def)

lemma registry_ok_register: "registry_ok reg \<Longrightarrow> registry_ok (snd (register_error_code ec reg))"
  by (auto simp: registry_ok_def register_error_code_def dict_ok_setdefault)
    (auto simp: dict_setdefault_def split: option.splits)

lemma registry_ok_register_all: "registry_ok reg \<Longrightarrow> registry_ok (register_all ecs reg)"
  unfolding register_all_def
  by (induction ecs arbitrary: reg) (auto intro: registry_ok_register)

lemma builtin_registry_ok: "registry_ok builtin_registry"
  by (simp add: builtin_registry_def registry_ok_register_all)

lemma get_register_error_code:
  "get_error_code (snd (register_error_code ec reg)) code =
     (case get_error_code reg code of
        Some old \<Rightarrow> Some old
      | None \<Rightarrow> if code = ec_code ec then Some ec else None)"
  by (simp add: get_error_code_def register_error_code_def split: option.splits)

lemma get_error_code_code: "registry_ok reg \<Longrightarrow> get_error_code reg code = Some ec \<Longrightarrow> ec_code ec = code"
  by (auto simp: registry_ok_def get_error_code_def dest!: map_of_SomeD)

lemma register_all_keeps:
  "get_error_code reg code = Some ec \<Longrightarrow> get_error_code (register_all ecs reg) code = Some ec"
  unfolding register_all_def
  by (induction ecs arbitrary: reg) (auto simp: get_register_error_code)

lemma builtin_registry_eq: "builtin_registry = map (\<lambda>ec. (ec_code ec, ec)) builtin_codes"
  by (simp add: builtin_registry_def register_all_def builtin_codes_def register_error_code_def
      dict_setdefault_def)

lemma builtin_get: "ec \<in> set builtin_codes \<Longrightarrow> get_error_code builtin_registry (ec_code ec) = Some ec"
proof -
  assume "ec \<in> set builtin_codes"
  then have "(ec_code ec, ec) \<in> set builtin_registry" by (simp add: builtin_registry_eq)
  moreover have "dict_ok builtin_registry" using builtin_registry_ok by (simp add: registry_ok_def)
  ultimately show ?thesis by (simp add: get_error_code_def dict_map_of_in)
qed

lemma by_status_entry:
  "(s, ec) \<in> set by_status \<Longrightarrow> ec \<in> set builtin_codes \<and> ec_http_status ec = s"
  by (auto simp: by_status_def builtin_codes_def)

lemma lookup_http_error_known:
  "map_of by_status status = Some ec \<Longrightarrow>
     lookup_http_error status = ec \<and> ec \<in> set builtin_codes \<and> ec_http_status ec = status"
  using by_status_entry [OF map_of_SomeD] by (auto simp: lookup_http_error_def dict_get_def)

lemma lookup_http_error_unknown: "map_of by_status status = None \<Longrightarrow> lookup_http_error status = HTTP_ERROR"
  by (simp add: lookup_http_error_def dict_get_def)

lemma all_error_codes_mset: "mset (all_error_codes reg) = mset (map snd reg)"
  by (simp add: all_error_codes_def)

lemma all_error_codes_sorted:
  "sorted (map (\<lambda>ec. (ec_http_status ec, ec_code ec)) (all_error_codes reg))"
  by (simp add: all_error_codes_def)

subsection \<open>The exception classes: kernel/errors.py\<close>

text \<open>
  The subclasses of \<open>AppError\<close> differ in their class attribute \<open>error_code\<close>;
  \<open>DownstreamError\<close> is an alias of \<open>BadGatewayError\<close>.
\<close>

datatype error_class =
    AppError | InternalError | BadRequestError | UnauthorizedError | ForbiddenError | NotFoundError
  | ConflictError | ValidationError | RateLimitError | BadGatewayError | ServiceUnavailableError
  | GatewayTimeoutError

abbreviation DownstreamError :: error_class where "DownstreamError \<equiv> BadGatewayError"

fun class_error_code :: "error_class \<Rightarrow> string" where
  "class_error_code AppError = ''INTERNAL_ERROR''"
| "class_error_code InternalError = ''INTERNAL_ERROR''"
| "class_error_code BadRequestError = ''BAD_REQUEST''"
| "class_error_code UnauthorizedError = ''UNAUTHORIZED''"
| "class_error_code ForbiddenError = ''FORBIDDEN''"
| "class_error_code NotFoundError = ''NOT_FOUND''"
| "class_error_code ConflictError = ''CONFLICT''"
| "class_error_code ValidationError = ''VALIDATION_ERROR''"
| "class_error_code RateLimitError = ''RATE_LIMITED''"
| "class_error_code BadGatewayError = ''BAD_GATEWAY''"
| "class_error_code ServiceUnavailableError = ''SERVICE_UNAVAILABLE''"
| "class_error_code GatewayTimeoutError = ''GATEWAY_TIMEOUT''"

text \<open>The instance's attributes.\<close>

record app_error =
  ae_class :: error_class
  ae_error_code :: string
  ae_http_status :: int
  ae_title :: string
  ae_message :: string
  ae_detail :: "json option"
  ae_retry_after :: "int option"

text \<open>The keyword arguments of the constructor, with their defaults.\<close>

record error_args =
  arg_message :: "string option"
  arg_code :: "string option"
  arg_detail :: "json option"
  arg_http_status :: "int option"
  arg_retry_after :: "int option"

definition no_args :: error_args where
  "no_args = \<lparr>arg_message = None, arg_code = None, arg_detail = None, arg_http_status = None,
     arg_retry_after = None\<rparr>"

definition app_error_init :: "registry \<Rightarrow> error_class \<Rightarrow> error_args \<Rightarrow> app_error" where
  "app_error_init reg cls a =
     (let ec = (if truthy (arg_code a) then get_error_code reg (the (arg_code a))
                else get_error_code reg (class_error_code cls));
          code = (case ec of Some e \<Rightarrow> ec_code e | None \<Rightarrow> or_else (arg_code a) (class_error_code cls));
          dflt = (case ec of Some e \<Rightarrow> ec_http_status e | None \<Rightarrow> 500)
      in \<lparr>ae_class = cls,
          ae_error_code = code,
          ae_http_status = (case arg_http_status a of Some n \<Rightarrow> if n \<noteq> 0 then n else dflt | None \<Rightarrow> dflt),
          ae_title = (case ec of Some e \<Rightarrow> ec_title e | None \<Rightarrow> ''Error''),
          ae_message = or_else (arg_message a) (case ec of Some e \<Rightarrow> ec_default_message e | None \<Rightarrow> code),
          ae_detail = arg_detail a,
          ae_retry_after = arg_retry_after a\<rparr>)"

text \<open>\<open>RateLimitError\<close> sets \<open>retry_after\<close> to 60 unless the caller gives it.\<close>

definition rate_limit_init :: "registry \<Rightarrow> int option \<Rightarrow> error_args \<Rightarrow> app_error" where
  "rate_limit_init reg retry_after a =
     app_error_init reg RateLimitError
       (a\<lparr>arg_retry_after := Some (case retry_after of Some n \<Rightarrow> n | None \<Rightarrow> 60)\<rparr>)"

text \<open>An exception with a message only, as the services raise them.\<close>

definition raise_msg :: "registry \<Rightarrow> error_class \<Rightarrow> string \<Rightarrow> app_error" where
  "raise_msg reg cls msg = app_error_init reg cls (no_args\<lparr>arg_message := Some msg\<rparr>)"

definition raise_code :: "registry \<Rightarrow> error_class \<Rightarrow> string \<Rightarrow> string \<Rightarrow> app_error" where
  "raise_code reg cls code msg =
     app_error_init reg cls (no_args\<lparr>arg_message := Some msg, arg_code := Some code\<rparr>)"

text \<open>
  What an operation of the services can raise: an \<open>AppError\<close>, Starlette's \<open>HTTPException\<close> (status
  and detail), FastAPI's \<open>RequestValidationError\<close> (the list of field errors), the
  built-in exceptions the code can run into, by class and message, httpx's \<open>InvalidURL\<close> (which is no
  \<open>HTTPError\<close>), and the errors of the client of Redis.
\<close>

datatype exn =
    AppExc app_error
  | HTTPExc int string
  | ValidationExc json
  | KeyError string
  | ValueError string
  | JSONDecodeError
  | IntegrityError
  | StopIteration
  | RuntimeError string
  | InvalidURL string
  | ConnectionLost string

text \<open>The registry of a running service extends the built-in one.\<close>

definition extends_builtin :: "registry \<Rightarrow> bool" where
  "extends_builtin reg \<longleftrightarrow>
     registry_ok reg \<and> (\<forall>ec \<in> set builtin_codes. get_error_code reg (ec_code ec) = Some ec)"

lemma builtin_extends: "extends_builtin builtin_registry"
  by (simp add: extends_builtin_def builtin_registry_ok builtin_get)

lemma register_all_extends: "extends_builtin reg \<Longrightarrow> extends_builtin (register_all ecs reg)"
  by (auto simp: extends_builtin_def registry_ok_register_all register_all_keeps)

lemma class_code_builtin: "\<exists>ec \<in> set builtin_codes. ec_code ec = class_error_code cls"
  by (cases cls) (simp_all add: builtin_codes_def)

lemma class_code_registered:
  "extends_builtin reg \<Longrightarrow> \<exists>ec. get_error_code reg (class_error_code cls) = Some ec \<and>
     ec_code ec = class_error_code cls"
  using class_code_builtin [of cls] by (metis extends_builtin_def)

lemma raise_msg_code [simp]:
  "extends_builtin reg \<Longrightarrow> ae_error_code (raise_msg reg cls msg) = class_error_code cls"
  using class_code_registered [of reg cls]
  by (auto simp: raise_msg_def app_error_init_def no_args_def Let_def)

lemma raise_msg_message [simp]: "msg \<noteq> [] \<Longrightarrow> ae_message (raise_msg reg cls msg) = msg"
  by (simp add: raise_msg_def app_error_init_def no_args_def or_else_def Let_def)

lemma raise_code_code [simp]:
  "get_error_code reg code = Some ec \<Longrightarrow> registry_ok reg \<Longrightarrow> code \<noteq> [] \<Longrightarrow>
     ae_error_code (raise_code reg cls code msg) = code"
  by (simp add: raise_code_def app_error_init_def no_args_def Let_def get_error_code_code)

lemma builtin_lookup:
  "extends_builtin reg \<Longrightarrow> ec \<in> set builtin_codes \<Longrightarrow> get_error_code reg (ec_code ec) = Some ec"
  by (simp add: extends_builtin_def)

lemma raise_msg_class:
  "get_error_code reg (class_error_code cls) = Some ec \<Longrightarrow>
     ae_http_status (raise_msg reg cls msg) = ec_http_status ec \<and> ae_title (raise_msg reg cls msg) = ec_title ec"
  by (simp add: raise_msg_def app_error_init_def no_args_def Let_def)

lemma raise_msg_status [simp]:
  assumes "extends_builtin reg"
  shows "ae_http_status (raise_msg reg UnauthorizedError msg) = 401"
    and "ae_http_status (raise_msg reg ForbiddenError msg) = 403"
    and "ae_http_status (raise_msg reg NotFoundError msg) = 404"
    and "ae_http_status (raise_msg reg ConflictError msg) = 409"
    and "ae_http_status (raise_msg reg BadGatewayError msg) = 502"
  using builtin_lookup [OF assms, of UNAUTHORIZED] builtin_lookup [OF assms, of FORBIDDEN]
    builtin_lookup [OF assms, of NOT_FOUND] builtin_lookup [OF assms, of CONFLICT]
    builtin_lookup [OF assms, of BAD_GATEWAY]
  by (simp_all add: builtin_codes_def UNAUTHORIZED_def FORBIDDEN_def NOT_FOUND_def CONFLICT_def BAD_GATEWAY_def raise_msg_class)

end
