(* ===== verification/Problem.thy ===== *)
theory Problem
  imports Errors
begin

section \<open>Problem details and authorization: kernel/problem.py and kernel/auth.py\<close>

text \<open>
  The RFC 9457 document, the exception handlers that turn an exception of a route into a
  response (with the log call each makes), the listing of the registry, and the authorization
  helpers of the data level. Handlers return the response and the log calls; an authorization
  helper returns \<open>Inl\<close> of the exception it raises. \<open>response_of_app_error\<close> is the contract
  between exceptions and responses.
\<close>

record http_response =
  resp_status :: int
  resp_media_type :: string
  resp_headers :: "(string \<times> string) list"
  resp_content :: json

record log_call =
  lc_level :: int
  lc_message :: string
  lc_ctx :: "(string \<times> json) list"

definition problem_document ::
  "ctxvars \<Rightarrow> string \<Rightarrow> int \<Rightarrow> string \<Rightarrow> string \<Rightarrow> string \<Rightarrow> string option \<Rightarrow> json option \<Rightarrow> int option
    \<Rightarrow> (string, json) pydict" where
  "problem_document ctx title status detail code inst trace errors retry_after =
     (let doc = [(''type'', JStr (''/docs/errors#'' @ py_lower code)),
                 (''title'', JStr title),
                 (''status'', JInt status),
                 (''detail'', JStr detail),
                 (''code'', JStr code),
                 (''instance'', JStr inst),
                 (''trace_id'', JStr (or_else trace (get_trace_id ctx)))];
          doc = (case errors of Some e \<Rightarrow> AList.update ''errors'' e doc | None \<Rightarrow> doc)
      in (case retry_after of Some n \<Rightarrow> AList.update ''retry_after'' (JInt n) doc | None \<Rightarrow> doc))"

definition problem_response ::
  "ctxvars \<Rightarrow> string \<Rightarrow> error_code \<Rightarrow> string option \<Rightarrow> json option \<Rightarrow> int option \<Rightarrow> http_response" where
  "problem_response ctx path ec detail errors retry_after =
     \<lparr>resp_status = ec_http_status ec,
      resp_media_type = ''application/problem+json'',
      resp_headers = [(''X-Error-Code'', ec_code ec)],
      resp_content = JObj (problem_document ctx (ec_title ec) (ec_http_status ec)
         (or_else detail (ec_default_message ec)) (ec_code ec) path None errors retry_after)\<rparr>"

text \<open>\<open>GET /errors\<close>.\<close>

definition error_code_entry :: "error_code \<Rightarrow> json" where
  "error_code_entry ec =
     JObj [(''code'', JStr (ec_code ec)),
           (''http_status'', JInt (ec_http_status ec)),
           (''title'', JStr (ec_title ec)),
           (''default_message'', JStr (ec_default_message ec)),
           (''retryable'', JBool (ec_retryable ec)),
           (''log_level'', JStr (ec_log_level ec))]"

definition list_error_codes :: "registry \<Rightarrow> json" where
  "list_error_codes reg =
     JObj [(''model'', JStr ''RFC 9457 Problem Details''),
           (''note'', JStr (''code '' @ utf8 [0x4E3A, 0x7A33, 0x5B9A, 0x4E1A, 0x52A1, 0x9519, 0x8BEF, 0x7801, 0xFF08, 0x524D, 0x7AEF, 0x636E, 0x6B64, 0x5206, 0x652F, 0xFF09, 0xFF1B] @ ''message '' @ utf8 [0x4EC5, 0x4F9B, 0x5C55, 0x793A])),
           (''codes'', JArr (map error_code_entry (all_error_codes reg)))]"

subsection \<open>The exception handlers\<close>

text \<open>\<open>getattr(logging, level.upper(), logging.WARNING)\<close> on the level names.\<close>

definition upper_char :: "char \<Rightarrow> char" where
  "upper_char c =
     (let n = (of_char c :: nat) in if 97 \<le> n \<and> n \<le> 122 then char_of (n - 32) else c)"

definition log_level_number :: "string \<Rightarrow> int" where
  "log_level_number level =
     dict_get 30 (map upper_char level)
       [(''CRITICAL'', 50), (''FATAL'', 50), (''ERROR'', 40), (''WARNING'', 30), (''WARN'', 30),
        (''INFO'', 20), (''DEBUG'', 10), (''NOTSET'', 0)]"

definition handler_ctx :: "ctxvars \<Rightarrow> (string \<times> json) list" where
  "handler_ctx ctx = [(''request_id'', JStr (get_request_id ctx)), (''trace_id'', JStr (get_trace_id ctx))]"

definition handle_app_error ::
  "registry \<Rightarrow> ctxvars \<Rightarrow> string \<Rightarrow> app_error \<Rightarrow> http_response \<times> log_call list" where
  "handle_app_error reg ctx path e =
     (let ec = (case get_error_code reg (ae_error_code e) of
                  Some ec \<Rightarrow> ec
                | None \<Rightarrow> \<lparr>ec_code = ae_error_code e, ec_http_status = ae_http_status e,
                     ec_title = ae_title e, ec_default_message = ae_message e,
                     ec_log_level = ''warning'', ec_retryable = False\<rparr>)
      in (problem_response ctx path ec (Some (ae_message e)) (ae_detail e) (ae_retry_after e),
          [\<lparr>lc_level = log_level_number (ec_log_level ec),
            lc_message = ae_error_code e @ '': '' @ ae_message e, lc_ctx = handler_ctx ctx\<rparr>]))"

definition handle_http_error :: "ctxvars \<Rightarrow> string \<Rightarrow> int \<Rightarrow> string \<Rightarrow> http_response" where
  "handle_http_error ctx path status detail =
     problem_response ctx path (lookup_http_error status) (Some detail) None None"

text \<open>\<open>None\<close>: the code is not registered and reading its attributes raises.\<close>

definition handle_validation_error ::
  "registry \<Rightarrow> ctxvars \<Rightarrow> string \<Rightarrow> json \<Rightarrow> http_response option" where
  "handle_validation_error reg ctx path errors =
     (case get_error_code reg ''VALIDATION_ERROR'' of
        None \<Rightarrow> None
      | Some ec \<Rightarrow> Some (problem_response ctx path ec None (Some errors) None))"

definition handle_unexpected ::
  "registry \<Rightarrow> ctxvars \<Rightarrow> string \<Rightarrow> string \<Rightarrow> http_response option \<times> log_call list" where
  "handle_unexpected reg ctx meth path =
     ((case get_error_code reg ''INTERNAL_ERROR'' of
         None \<Rightarrow> None
       | Some ec \<Rightarrow> Some (problem_response ctx path ec None None None)),
      [\<lparr>lc_level = 40, lc_message = ''unhandled exception: '' @ meth @ '' '' @ path,
        lc_ctx = handler_ctx ctx\<rparr>])"

text \<open>The application picks the handler registered for the exception's class.\<close>

definition handle_exception ::
  "registry \<Rightarrow> ctxvars \<Rightarrow> string \<Rightarrow> string \<Rightarrow> exn \<Rightarrow> http_response option \<times> log_call list" where
  "handle_exception reg ctx meth path e =
     (case e of
        AppExc a \<Rightarrow> (let (r, l) = handle_app_error reg ctx path a in (Some r, l))
      | HTTPExc s d \<Rightarrow> (Some (handle_http_error ctx path s d), [])
      | ValidationExc v \<Rightarrow> (handle_validation_error reg ctx path v, [])
      | _ \<Rightarrow> handle_unexpected reg ctx meth path)"

definition content_field :: "string \<Rightarrow> http_response \<Rightarrow> json option" where
  "content_field k r = (case resp_content r of JObj d \<Rightarrow> map_of d k | _ \<Rightarrow> None)"

lemma problem_document_fields [simp]:
  "map_of (problem_document c t s d k p tr es ra) ''code'' = Some (JStr k)"
  "map_of (problem_document c t s d k p tr es ra) ''status'' = Some (JInt s)"
  "map_of (problem_document c t s d k p tr es ra) ''title'' = Some (JStr t)"
  "map_of (problem_document c t s d k p tr es ra) ''detail'' = Some (JStr d)"
  "map_of (problem_document c t s d k p tr es ra) ''instance'' = Some (JStr p)"
  "map_of (problem_document c t s d k p tr es ra) ''trace_id'' = Some (JStr (or_else tr (get_trace_id c)))"
  "map_of (problem_document c t s d k p tr es ra) ''retry_after'' = map_option JInt ra"
  "map_of (problem_document c t s d k p tr es ra) ''errors'' = es"
  by (auto simp: problem_document_def Let_def split: option.splits)

lemma problem_document_ok: "dict_ok (problem_document c t s d k p tr es ra)"
  by (auto simp: problem_document_def Let_def dict_ok_def split: option.splits)

lemma problem_response_simps [simp]:
  "resp_status (problem_response c p ec d es ra) = ec_http_status ec"
  "resp_headers (problem_response c p ec d es ra) = [(''X-Error-Code'', ec_code ec)]"
  "resp_media_type (problem_response c p ec d es ra) = ''application/problem+json''"
  "content_field ''code'' (problem_response c p ec d es ra) = Some (JStr (ec_code ec))"
  "content_field ''status'' (problem_response c p ec d es ra) = Some (JInt (ec_http_status ec))"
  "content_field ''title'' (problem_response c p ec d es ra) = Some (JStr (ec_title ec))"
  "content_field ''detail'' (problem_response c p ec d es ra) = Some (JStr (or_else d (ec_default_message ec)))"
  "content_field ''retry_after'' (problem_response c p ec d es ra) = map_option JInt ra"
  "content_field ''errors'' (problem_response c p ec d es ra) = es"
  by (simp_all add: problem_response_def content_field_def)

lemma or_else_idem [simp]: "or_else (Some s) s = s"
  by (simp add: or_else_def)

lemma handle_app_error_registered:
  "get_error_code reg (ae_error_code e) = Some ec \<Longrightarrow>
     fst (handle_app_error reg ctx path e) =
       problem_response ctx path ec (Some (ae_message e)) (ae_detail e) (ae_retry_after e)"
  by (simp add: handle_app_error_def Let_def)

lemma handle_app_error_unregistered:
  assumes "get_error_code reg (ae_error_code e) = None"
  shows "resp_status (fst (handle_app_error reg ctx path e)) = ae_http_status e"
    and "content_field ''code'' (fst (handle_app_error reg ctx path e)) = Some (JStr (ae_error_code e))"
    and "resp_headers (fst (handle_app_error reg ctx path e)) = [(''X-Error-Code'', ae_error_code e)]"
  using assms by (simp_all add: handle_app_error_def Let_def)

subsection \<open>Authorization\<close>

definition get_current_identity :: "registry \<Rightarrow> ctxvars \<Rightarrow> exn + identity" where
  "get_current_identity reg ctx =
     (case get_identity ctx of
        None \<Rightarrow> Inl (AppExc (raise_msg reg UnauthorizedError (utf8 [0x672A, 0x8BA4, 0x8BC1, 0xFF1A, 0x7F3A, 0x5C11, 0x53EF, 0x4FE1, 0x8EAB, 0x4EFD])))
      | Some i \<Rightarrow>
          if user_id i = None then Inl (AppExc (raise_msg reg UnauthorizedError (utf8 [0x672A, 0x8BA4, 0x8BC1, 0xFF1A, 0x7F3A, 0x5C11, 0x53EF, 0x4FE1, 0x8EAB, 0x4EFD])))
          else Inr i)"

definition require_roles :: "registry \<Rightarrow> string list \<Rightarrow> ctxvars \<Rightarrow> exn + identity" where
  "require_roles reg rs ctx =
     (case get_current_identity reg ctx of
        Inl e \<Rightarrow> Inl e
      | Inr i \<Rightarrow>
          if rs \<noteq> [] \<and> set (roles i) \<inter> set rs = {}
          then Inl (AppExc (raise_msg reg ForbiddenError (utf8 [0x9700, 0x8981, 0x89D2, 0x8272] @ '': '' @ join_with '', '' rs)))
          else Inr i)"

definition ensure_owner :: "registry \<Rightarrow> string \<Rightarrow> identity option \<Rightarrow> ctxvars \<Rightarrow> exn + unit" where
  "ensure_owner reg owner_id ident ctx =
     (case (case ident of Some i \<Rightarrow> Some i | None \<Rightarrow> get_identity ctx) of
        None \<Rightarrow> Inl (AppExc (raise_msg reg UnauthorizedError (utf8 [0x672A, 0x8BA4, 0x8BC1, 0xFF1A, 0x7F3A, 0x5C11, 0x53EF, 0x4FE1, 0x8EAB, 0x4EFD])))
      | Some i \<Rightarrow>
          if user_id i = None then Inl (AppExc (raise_msg reg UnauthorizedError (utf8 [0x672A, 0x8BA4, 0x8BC1, 0xFF1A, 0x7F3A, 0x5C11, 0x53EF, 0x4FE1, 0x8EAB, 0x4EFD])))
          else if user_id i \<noteq> Some owner_id \<and> ''admin'' \<notin> set (roles i)
          then Inl (AppExc (raise_msg reg ForbiddenError (utf8 [0x65E0, 0x6743, 0x8BBF, 0x95EE, 0x8BE5, 0x8D44, 0x6E90])))
          else Inr ())"

definition ensure_tenant :: "registry \<Rightarrow> identity option \<Rightarrow> ctxvars \<Rightarrow> exn + string" where
  "ensure_tenant reg ident ctx =
     (case (case ident of Some i \<Rightarrow> Some i | None \<Rightarrow> get_identity ctx) of
        None \<Rightarrow> Inl (AppExc (raise_msg reg ForbiddenError (utf8 [0x7F3A, 0x5C11, 0x79DF, 0x6237, 0x4E0A, 0x4E0B, 0x6587])))
      | Some i \<Rightarrow>
          (case tenant_id i of
             None \<Rightarrow> Inl (AppExc (raise_msg reg ForbiddenError (utf8 [0x7F3A, 0x5C11, 0x79DF, 0x6237, 0x4E0A, 0x4E0B, 0x6587])))
           | Some t \<Rightarrow>
               if t = [] then Inl (AppExc (raise_msg reg ForbiddenError (utf8 [0x7F3A, 0x5C11, 0x79DF, 0x6237, 0x4E0A, 0x4E0B, 0x6587]))) else Inr t))"

text \<open>The class code an exception carries to the client.\<close>

definition exn_code :: "exn \<Rightarrow> string option" where
  "exn_code e = (case e of AppExc a \<Rightarrow> Some (ae_error_code a) | _ \<Rightarrow> None)"

lemma get_current_identity_Inr:
  "get_current_identity reg ctx = Inr i \<longleftrightarrow> get_identity ctx = Some i \<and> user_id i \<noteq> None"
  by (auto simp: get_current_identity_def split: option.splits)

lemma get_current_identity_Inl:
  "extends_builtin reg \<Longrightarrow> get_current_identity reg ctx = Inl e \<Longrightarrow> exn_code e = Some ''UNAUTHORIZED''"
  by (auto simp: get_current_identity_def exn_code_def split: option.splits if_splits)

lemma require_roles_Inr:
  "require_roles reg rs ctx = Inr i \<longleftrightarrow>
     get_identity ctx = Some i \<and> user_id i \<noteq> None \<and> (rs = [] \<or> set (roles i) \<inter> set rs \<noteq> {})"
  using get_current_identity_Inr [of reg ctx]
  by (auto simp: require_roles_def split: sum.splits if_splits)

lemma ensure_owner_Inr:
  "ensure_owner reg owner (Some i) ctx = Inr u \<longleftrightarrow>
     user_id i \<noteq> None \<and> (user_id i = Some owner \<or> ''admin'' \<in> set (roles i))"
  by (auto simp: ensure_owner_def split: if_splits)

subsection \<open>Properties\<close>

text \<open>The response to a business exception is determined by its error code alone: a
  registered code fixes the HTTP status, the title and the header, whatever the raising code
  asked for; an unregistered one answers with the exception's own status. Status line, body and
  header always agree.\<close>

theorem response_of_app_error:
  assumes "registry_ok reg"
  shows "resp_status (fst (handle_app_error reg ctx path e)) =
           (case get_error_code reg (ae_error_code e) of
              Some ec \<Rightarrow> ec_http_status ec | None \<Rightarrow> ae_http_status e)
       \<and> content_field ''status'' (fst (handle_app_error reg ctx path e)) =
           Some (JInt (resp_status (fst (handle_app_error reg ctx path e))))
       \<and> content_field ''code'' (fst (handle_app_error reg ctx path e)) = Some (JStr (ae_error_code e))
       \<and> resp_headers (fst (handle_app_error reg ctx path e)) = [(''X-Error-Code'', ae_error_code e)]
       \<and> content_field ''retry_after'' (fst (handle_app_error reg ctx path e)) =
           map_option JInt (ae_retry_after e)"
proof (cases "get_error_code reg (ae_error_code e)")
  case None
  then show ?thesis by (simp add: handle_app_error_def Let_def)
next
  case (Some ec)
  moreover from this assms have "ec_code ec = ae_error_code e" by (simp add: get_error_code_code)
  ultimately show ?thesis by (simp add: handle_app_error_registered)
qed

theorem response_of_app_error_witness:
  "resp_status (fst (handle_app_error builtin_registry default_ctx ''/v1/users/u-1''
      (app_error_init builtin_registry NotFoundError no_args))) = 404"
proof -
  let ?e = "app_error_init builtin_registry NotFoundError no_args"
  have "get_error_code builtin_registry ''NOT_FOUND'' = Some NOT_FOUND"
    using builtin_get [of NOT_FOUND] by (simp add: builtin_codes_def)
  moreover from this have "ae_error_code ?e = ''NOT_FOUND''"
    by (simp add: app_error_init_def no_args_def Let_def)
  ultimately show ?thesis
    using response_of_app_error [OF builtin_registry_ok, of default_ctx "''/v1/users/u-1''" ?e] by simp
qed




text \<open>An \<open>HTTPException\<close> keeps its status only if the status is one of the twelve of the table; every
  other one, a 406, 415 or 418 included, is answered with 500 and the code \<open>HTTP_ERROR\<close>.\<close>

theorem http_error_status:
  "resp_status (handle_http_error ctx path status detail) =
     (if status \<in> {400, 401, 403, 404, 405, 409, 422, 429, 500, 502, 503, 504} then status else 500)"
  by (auto simp: handle_http_error_def lookup_http_error_def by_status_def dict_get_def HTTP_ERROR_def)

end
