(* ===== verification/Asgi.thy ===== *)
theory Asgi
  imports Problem
begin

section \<open>ASGI applications\<close>

text \<open>
  An HTTP request is a \<open>scope\<close> with its body; an application run on it sends a list of messages and
  ends by returning or with an exception. The \<open>world\<close> holds what applications and middlewares
  share: the context variables of the request's task, the idempotency store, the access log, the
  Prometheus metrics, and the state of the service itself. A middleware is a function from
  applications to applications; its \<open>send_wrapper\<close> is a function on the list of messages the inner
  application sent. What a run takes from outside (the random request id, the span of the tracer,
  the durations read from the clock) is the record \<open>env\<close>.

  Header names and values are bytes; \<open>decode("latin-1")\<close> makes text of them. \<open>.lower()\<close> on header
  names is the ASCII one: it decides every comparison with the ASCII names the code uses.
\<close>

type_synonym headers = "(string \<times> string) list"

datatype message =
    ResponseStart int headers
  | ResponseBody string bool

record scope =
  sc_type :: string
  sc_method :: "string option"
  sc_path :: "string option"
  sc_headers :: headers
  sc_body :: string

definition scope_method :: "scope \<Rightarrow> string" where
  "scope_method sc = (case sc_method sc of Some m \<Rightarrow> m | None \<Rightarrow> [])"

definition scope_path :: "scope \<Rightarrow> string" where
  "scope_path sc = (case sc_path sc of Some p \<Rightarrow> p | None \<Rightarrow> [])"

record env =
  env_uuid :: string
  env_span :: "(nat \<times> nat) option"
  env_access_seconds :: real
  env_metrics_seconds :: real

subsection \<open>Latin-1 and UTF-8\<close>

text \<open>\<open>decode("latin-1")\<close>: every byte is the code point of the same number.\<close>

definition latin1_decode :: "string \<Rightarrow> string" where
  "latin1_decode bs = utf8 (map of_char bs)"

text \<open>\<open>encode("latin-1")\<close> of a text: \<open>None\<close> is the \<open>UnicodeEncodeError\<close> of a code point above 255.\<close>

fun latin1_encode :: "string \<Rightarrow> string option" where
  "latin1_encode [] = Some []"
| "latin1_encode (c # cs) =
     (let n = (of_char c :: nat) in
      if n < 128 then map_option (Cons c) (latin1_encode cs)
      else if n = 194 \<or> n = 195 then
        (case cs of
           [] \<Rightarrow> None
         | d # ds \<Rightarrow> map_option (Cons (char_of ((n - 192) * 64 + (of_char d - 128 :: nat)))) (latin1_encode ds))
      else None)"

lemma latin1_decode_Cons: "latin1_decode (c # cs) = utf8_point (of_char c) @ latin1_decode cs"
  by (simp add: latin1_decode_def utf8_def)

lemma latin1_decode_Nil [simp]: "latin1_decode [] = []"
  by (simp add: latin1_decode_def utf8_def)

lemma high_byte:
  assumes "128 \<le> (n::nat)" "n < 256" shows "n div 64 = 2 \<or> n div 64 = 3"
  using div_le_mono [OF assms(1), of 64] less_mult_imp_div_less [of n 4 64] assms(2) by auto

lemma latin1_encode_high:
  assumes n: "128 \<le> (n::nat)" "n < 256"
  shows "latin1_encode (utf8_point n @ s) = map_option (Cons (char_of n)) (latin1_encode s)"
proof -
  have q: "n div 64 = 2 \<or> n div 64 = 3" using high_byte [OF n] .
  have p: "utf8_point n = [char_of (192 + n div 64), char_of (128 + n mod 64)]"
    using n by simp
  have a: "(of_char (char_of (192 + n div 64) :: char) :: nat) = 192 + n div 64"
    using q by auto
  have "n mod 64 < 64" by simp
  then have b: "(of_char (char_of (128 + n mod 64) :: char) :: nat) = 128 + n mod 64"
    by (simp add: mod_less)
  have e: "(192 + n div 64 - 192) * 64 + (128 + n mod 64 - 128) = n" by simp
  show ?thesis unfolding p append_Cons append_Nil latin1_encode.simps Let_def a b list.case e
    using q by auto
qed

lemma latin1_encode_decode [simp]: "latin1_encode (latin1_decode bs) = Some bs"
proof (induction bs)
  case Nil
  then show ?case by simp
next
  case (Cons c cs)
  show ?case
  proof (cases "(of_char c :: nat) < 128")
    case True
    then show ?thesis using Cons by (simp add: latin1_decode_Cons)
  next
    case False
    then show ?thesis using Cons latin1_encode_high [of "of_char c" "latin1_decode cs"]
      by (simp add: latin1_decode_Cons del: utf8_point.simps)
  qed
qed

definition ascii :: "string \<Rightarrow> bool" where
  "ascii s \<longleftrightarrow> list_all (\<lambda>c. (of_char c :: nat) < 128) s"

lemma latin1_decode_ascii: "ascii s \<Longrightarrow> latin1_decode s = s"
  by (induction s) (auto simp: ascii_def latin1_decode_Cons)

text \<open>
  \<open>decode("utf-8", errors="replace")\<close>: well-formed sequences are kept, each maximal prefix of one
  that breaks off is replaced by U+FFFD, and so is a byte that starts none. The first two
  arguments of \<open>continue_utf8\<close> are the bounds of the next byte, the third the number of
  continuation bytes still to come after it.
\<close>

definition byte_in :: "nat \<Rightarrow> nat \<Rightarrow> char \<Rightarrow> bool" where
  "byte_in lo hi c \<longleftrightarrow> lo \<le> (of_char c :: nat) \<and> (of_char c :: nat) \<le> hi"

definition replacement :: string where
  "replacement = utf8 [0xFFFD]"

fun sequence_tail :: "nat \<Rightarrow> (nat \<times> nat) list" where
  "sequence_tail n =
     (if 194 \<le> n \<and> n \<le> 223 then [(128, 191)]
      else if n = 224 then [(160, 191), (128, 191)]
      else if n = 237 then [(128, 159), (128, 191)]
      else if 225 \<le> n \<and> n \<le> 239 then [(128, 191), (128, 191)]
      else if n = 240 then [(144, 191), (128, 191), (128, 191)]
      else if n = 244 then [(128, 143), (128, 191), (128, 191)]
      else if 241 \<le> n \<and> n \<le> 243 then [(128, 191), (128, 191), (128, 191)]
      else [])"

text \<open>The continuation bytes that fit, and the rest of the text.\<close>

fun take_tail :: "(nat \<times> nat) list \<Rightarrow> string \<Rightarrow> string \<times> string" where
  "take_tail [] s = ([], s)"
| "take_tail (b # bs) [] = ([], [])"
| "take_tail (b # bs) (c # cs) =
     (if byte_in (fst b) (snd b) c then (case take_tail bs cs of (t, r) \<Rightarrow> (c # t, r)) else ([], c # cs))"

lemma take_tail_append: "take_tail bs s = (t, r) \<Longrightarrow> s = t @ r \<and> length t \<le> length bs"
  by (induction bs s arbitrary: t r rule: take_tail.induct) (auto split: prod.splits if_splits)

function utf8_replace :: "string \<Rightarrow> string" where
  "utf8_replace [] = []"
| "utf8_replace (c # cs) =
     (if (of_char c :: nat) < 128 then c # utf8_replace cs
      else
        (case sequence_tail (of_char c) of
           [] \<Rightarrow> replacement @ utf8_replace cs
         | b # bs \<Rightarrow>
             (case take_tail (b # bs) cs of
                (t, r) \<Rightarrow>
                  (if length t = length (b # bs) then c # t else replacement) @ utf8_replace r)))"
  by pat_completeness auto
termination
  by (relation "measure length") (auto simp del: take_tail.simps dest!: take_tail_append [OF sym])

text \<open>Well-formed UTF-8.\<close>

definition utf8_text :: "string \<Rightarrow> bool" where
  "utf8_text s \<longleftrightarrow> utf8_replace s = s"

lemma utf8_text_ascii: "ascii s \<Longrightarrow> utf8_text s"
  by (induction s) (auto simp: ascii_def utf8_text_def)

subsection \<open>Header dictionaries\<close>

text \<open>\<open>{k.decode("latin-1").lower(): v.decode("latin-1") for k, v in scope.get("headers", [])}\<close>\<close>

definition header_dict :: "scope \<Rightarrow> (string, string) pydict" where
  "header_dict sc = dict_of_pairs (map (\<lambda>(k, v). (py_lower (latin1_decode k), latin1_decode v)) (sc_headers sc))"

subsection \<open>The world, applications and replies\<close>

record access_entry =
  al_method :: string
  al_path :: string
  al_status :: "int option"
  al_duration_tenths :: int
  al_client_ip :: string

record metrics =
  m_in_flight :: "(string, int) pydict"
  m_total :: "(string \<times> string \<times> string \<times> string, nat) pydict"
  m_durations :: "(string \<times> string \<times> string, real list) pydict"

definition no_metrics :: metrics where
  "no_metrics = \<lparr>m_in_flight = [], m_total = [], m_durations = []\<rparr>"

record ('s, 'a) world =
  w_ctx :: ctxvars
  w_store :: 's
  w_access :: "access_entry list"
  w_metrics :: metrics
  w_app :: 'a

record reply =
  sent :: "message list"
  raised :: "exn option"

type_synonym ('s, 'a) app = "env \<Rightarrow> scope \<Rightarrow> ('s, 'a) world \<Rightarrow> reply \<times> ('s, 'a) world"

text \<open>The status of the last start message, as the \<open>status_holder\<close> of a \<open>send_wrapper\<close> sees it.\<close>

fun last_status :: "int option \<Rightarrow> message list \<Rightarrow> int option" where
  "last_status st [] = st"
| "last_status st (ResponseStart n hs # ms) = last_status (Some n) ms"
| "last_status st (ResponseBody b mb # ms) = last_status st ms"

text \<open>
  Starlette turns a response object into messages: the argument \<open>emit\<close> of the definitions below.
  What the code relies on: one start message with the status and, under \<open>content-type\<close>, the media
  type, then one final body message with the compact rendering of the content.
\<close>

definition header_value :: "string \<Rightarrow> headers \<Rightarrow> string option" where
  "header_value k hs = map_of (map (\<lambda>(n, v). (py_lower n, v)) hs) k"

definition emits :: "(http_response \<Rightarrow> message list) \<Rightarrow> bool" where
  "emits emit \<longleftrightarrow>
     (\<forall>r. \<exists>hs. emit r = [ResponseStart (resp_status r) hs, ResponseBody (json_compact (resp_content r)) False]
        \<and> header_value ''content-type'' hs = Some (resp_media_type r))"

definition plain_emit :: "http_response \<Rightarrow> message list" where
  "plain_emit r =
     (let body = json_compact (resp_content r) in
      [ResponseStart (resp_status r)
         (map (\<lambda>(k, v). (py_lower k, v)) (filter (\<lambda>(k, v). py_lower k \<noteq> ''content-type'') (resp_headers r))
          @ [(''content-length'', show_nat (length body)), (''content-type'', resp_media_type r)]),
       ResponseBody body False])"

lemma plain_emits: "emits plain_emit"
proof -
  have lower: "py_lower (py_lower k) = py_lower k" for k
    by (auto simp: py_lower_def lower_char_def Let_def)
  have "map_of (map (\<lambda>(n, v). (py_lower n, v)) (map (\<lambda>(k, v). (py_lower k, v))
      (filter (\<lambda>(k, v). py_lower k \<noteq> ''content-type'') hs))) ''content-type'' = None" for hs :: headers
    by (induction hs) (auto simp: lower)
  then show ?thesis
    by (auto simp: emits_def plain_emit_def header_value_def Let_def map_add_def py_lower_def lower_char_def)
qed

end
