(* ===== verification/Idempotency.thy ===== *)
theory Idempotency
  imports Asgi
begin

section \<open>Idempotent HTTP requests: kernel/idempotency.py\<close>

text \<open>
  The store interface (locale \<open>idempotency_store\<close>) whose operations may raise, the in-process store, the Redis store over a
  client that is an argument, the store key, and \<open>IdempotencyMiddleware\<close>. The middleware's stored
  record is a JSON text; replaying reads it back, and then reads the stored body as JSON again
  (\<open>_json_response\<close>).
\<close>

subsection \<open>Stores\<close>

text \<open>Every operation may raise (\<open>Inl\<close> or \<open>Some\<close> of the exception): the store can be out of reach.\<close>

record 's store_ops =
  st_get :: "string \<Rightarrow> 's \<Rightarrow> exn + string option"
  st_put :: "string \<Rightarrow> string \<Rightarrow> int \<Rightarrow> 's \<Rightarrow> exn option \<times> 's"
  st_acquire :: "string \<Rightarrow> int \<Rightarrow> 's \<Rightarrow> (exn + bool) \<times> 's"

text \<open>What a client of a store that works relies on. \<open>look\<close> is the abstract store: what is held under a key.\<close>

locale idempotency_store =
  fixes ops :: "'s store_ops" and look :: "string \<Rightarrow> 's \<Rightarrow> string option"
  assumes get_look: "st_get ops k s = Inr (look k s)"
    and put_look: "0 \<le> ttl \<Longrightarrow> fst (st_put ops k v ttl s) = None \<and> look k (snd (st_put ops k v ttl s)) = Some v"
    and put_other: "0 \<le> ttl \<Longrightarrow> k \<noteq> k' \<Longrightarrow> look k (snd (st_put ops k' v ttl s)) = look k s"
    and acquire_free: "0 \<le> ttl \<Longrightarrow> look k s = None \<Longrightarrow>
      fst (st_acquire ops k ttl s) = Inr True \<and> look k (snd (st_acquire ops k ttl s)) = Some ''processing''"
    and acquire_taken: "0 \<le> ttl \<Longrightarrow> look k s = Some v \<Longrightarrow> st_acquire ops k ttl s = (Inr False, s)"
begin

text \<open>Of any number of consecutive attempts at one key at most the first acquires it.\<close>

fun attempts :: "string \<Rightarrow> int list \<Rightarrow> 's \<Rightarrow> (exn + bool) list" where
  "attempts k [] s = []"
| "attempts k (t # ts) s = (case st_acquire ops k t s of (r, s') \<Rightarrow> r # attempts k ts s')"

lemma attempts_taken:
  "list_all (\<lambda>t. 0 \<le> t) ts \<Longrightarrow> look k s = Some v \<Longrightarrow> attempts k ts s = replicate (length ts) (Inr False)"
  by (induction ts) (simp_all add: acquire_taken)

lemma one_acquires:
  assumes "0 \<le> t" "list_all (\<lambda>t. 0 \<le> t) ts"
  shows "attempts k (t # ts) s = Inr (look k s = None) # replicate (length ts) (Inr False)"
proof (cases "look k s")
  case None
  obtain r s1 where a: "st_acquire ops k t s = (r, s1)" by fastforce
  then have "r = Inr True" "look k s1 = Some ''processing''" using acquire_free [OF assms(1) None] by simp_all
  then show ?thesis using None a attempts_taken [OF assms(2)] by simp
next
  case (Some v)
  then show ?thesis using attempts_taken [OF _ Some, of "t # ts"] assms by simp
qed

lemma look_after_put:
  "0 \<le> ttl \<Longrightarrow> look k (snd (st_put ops k' v ttl s)) = (if k = k' then Some v else look k s)"
  by (simp add: put_look put_other)

lemma put_works:
  assumes "0 \<le> ttl"
  obtains s1 where "st_put ops k v ttl s = (None, s1)" "look k s1 = Some v"
  using put_look [OF assms, of k v s] by (metis prod.collapse)

lemma acquire_works:
  assumes "0 \<le> ttl" "look k s = None"
  obtains s1 where "st_acquire ops k ttl s = (Inr True, s1)" "look k s1 = Some ''processing''"
  using acquire_free [OF assms] by (metis prod.collapse)

end

text \<open>\<open>InMemoryIdempotencyStore\<close>: a dictionary; the time to live is ignored and nothing raises.\<close>

type_synonym memory_store = "(string, string) pydict"

definition mem_get :: "string \<Rightarrow> memory_store \<Rightarrow> string option" where
  "mem_get key s = map_of s key"

definition mem_put :: "string \<Rightarrow> string \<Rightarrow> int \<Rightarrow> memory_store \<Rightarrow> memory_store" where
  "mem_put key value ttl_seconds s = AList.update key value s"

definition mem_acquire :: "string \<Rightarrow> int \<Rightarrow> memory_store \<Rightarrow> bool \<times> memory_store" where
  "mem_acquire key ttl_seconds s =
     (if map_of s key \<noteq> None then (False, s) else (True, AList.update key ''processing'' s))"

definition mem_close :: "memory_store \<Rightarrow> memory_store" where
  "mem_close s = []"

definition mem_ops :: "memory_store store_ops" where
  "mem_ops = \<lparr>st_get = (\<lambda>k s. Inr (mem_get k s)), st_put = (\<lambda>k v t s. (None, mem_put k v t s)),
     st_acquire = (\<lambda>k t s. case mem_acquire k t s of (b, s') \<Rightarrow> (Inr b, s'))\<rparr>"

interpretation mem: idempotency_store mem_ops mem_get
  by unfold_locales (auto simp: mem_ops_def mem_get_def mem_put_def mem_acquire_def)

lemmas mem_laws = mem.idempotency_store_axioms

text \<open>
  \<open>RedisIdempotencyStore\<close>. The client's \<open>get\<close> and \<open>set(key, value, nx=..., ex=...)\<close> are arguments;
  \<open>set\<close> answers whether it wrote, and both may raise. A time to live of 0 means the default one
  (\<open>ttl_seconds or ...\<close>).
\<close>

record 'r redis_client =
  rc_get :: "string \<Rightarrow> 'r \<Rightarrow> exn + string option"
  rc_set :: "string \<Rightarrow> string \<Rightarrow> bool \<Rightarrow> int \<Rightarrow> 'r \<Rightarrow> (exn + bool) \<times> 'r"

definition ttl_or :: "int \<Rightarrow> int \<Rightarrow> int" where
  "ttl_or ttl default_ttl = (if ttl \<noteq> 0 then ttl else default_ttl)"

definition redis_get :: "'r redis_client \<Rightarrow> string \<Rightarrow> 'r \<Rightarrow> exn + string option" where
  "redis_get c key r = rc_get c key r"

definition redis_put :: "'r redis_client \<Rightarrow> int \<Rightarrow> string \<Rightarrow> string \<Rightarrow> int \<Rightarrow> 'r \<Rightarrow> exn option \<times> 'r" where
  "redis_put c default_ttl key value ttl_seconds r =
     (case rc_set c key value False (ttl_or ttl_seconds default_ttl) r of
        (Inl e, r') \<Rightarrow> (Some e, r')
      | (Inr wrote, r') \<Rightarrow> (None, r'))"

definition redis_acquire :: "'r redis_client \<Rightarrow> int \<Rightarrow> string \<Rightarrow> int \<Rightarrow> 'r \<Rightarrow> (exn + bool) \<times> 'r" where
  "redis_acquire c default_ttl key ttl_seconds r =
     rc_set c key ''processing'' True (ttl_or ttl_seconds default_ttl) r"

definition redis_ops :: "'r redis_client \<Rightarrow> int \<Rightarrow> 'r store_ops" where
  "redis_ops c default_ttl =
     \<lparr>st_get = redis_get c, st_put = redis_put c default_ttl, st_acquire = redis_acquire c default_ttl\<rparr>"

text \<open>
  The documented behaviour of \<open>GET\<close> and \<open>SET\<close> (with \<open>NX\<close>) between two expiries, for positive
  times to live, while the server can be reached. From it the Redis store has the laws of a store.
\<close>

locale redis_kv =
  fixes client :: "'r redis_client" and default_ttl :: int and kv :: "string \<Rightarrow> 'r \<Rightarrow> string option"
  assumes get_kv: "rc_get client k r = Inr (kv k r)"
    and set_plain: "0 < ex \<Longrightarrow>
        fst (rc_set client k v False ex r) = Inr True \<and> kv k (snd (rc_set client k v False ex r)) = Some v"
    and set_other: "k \<noteq> k' \<Longrightarrow> kv k (snd (rc_set client k' v nx ex r)) = kv k r"
    and set_nx_free: "kv k r = None \<Longrightarrow> 0 < ex \<Longrightarrow>
        fst (rc_set client k v True ex r) = Inr True \<and> kv k (snd (rc_set client k v True ex r)) = Some v"
    and set_nx_taken: "kv k r = Some w \<Longrightarrow> 0 < ex \<Longrightarrow> rc_set client k v True ex r = (Inr False, r)"
    and default_positive: "0 < default_ttl"
begin

lemma ttl_positive: "0 \<le> ttl \<Longrightarrow> 0 < ttl_or ttl default_ttl"
  using default_positive by (simp add: ttl_or_def)

lemma put_snd: "snd (redis_put client default_ttl k v ttl r) = snd (rc_set client k v False (ttl_or ttl default_ttl) r)"
  by (simp add: redis_put_def split: prod.split sum.split)

lemma put_fst: "0 \<le> ttl \<Longrightarrow> fst (redis_put client default_ttl k v ttl r) = None"
  using set_plain [OF ttl_positive, of ttl k v r] by (auto simp: redis_put_def split: prod.splits sum.splits)

end

sublocale redis_kv \<subseteq> stored: idempotency_store "redis_ops client default_ttl" kv
  by unfold_locales
    (auto simp: redis_ops_def redis_get_def redis_acquire_def put_snd put_fst get_kv set_plain set_other set_nx_free
      set_nx_taken ttl_positive)

text \<open>A model of a Redis server between two expiries: the keys with their values and times to live. It refuses a
  time to live that is not positive.\<close>

definition map_client :: "(string, string \<times> int) pydict redis_client" where
  "map_client =
     \<lparr>rc_get = (\<lambda>k r. Inr (map_option fst (map_of r k))),
      rc_set = (\<lambda>k v nx ex r.
         if ex \<le> 0 then (Inl (RuntimeError ''invalid expire time''), r)
         else if nx \<and> map_of r k \<noteq> None then (Inr False, r)
         else (Inr True, AList.update k (v, ex) r))\<rparr>"

interpretation map_redis: redis_kv map_client 3600 "\<lambda>k r. map_option fst (map_of r k)"
  by unfold_locales (auto simp: map_client_def)

subsection \<open>The store key\<close>

definition make_idempotency_key :: "string \<Rightarrow> string \<Rightarrow> string \<Rightarrow> string \<Rightarrow> string" where
  "make_idempotency_key service meth path key =
     ''idem:'' @ service @ '':'' @ meth @ '':'' @ path @ '':'' @ key"

subsection \<open>The middleware\<close>

definition content_type_of :: "headers \<Rightarrow> string" where
  "content_type_of hs =
     (case header_value ''content-type'' hs of Some v \<Rightarrow> latin1_decode v | None \<Rightarrow> ''application/json'')"

text \<open>The stored record.\<close>

definition stored_record :: "int \<Rightarrow> string \<Rightarrow> string \<Rightarrow> string" where
  "stored_record status body content_type =
     json_dumps (JObj [(''status'', JInt status), (''body'', JStr body), (''content_type'', JStr content_type)])"

text \<open>\<open>status_holder\<close> and \<open>body_holder\<close> of one request.\<close>

record holder =
  h_status :: "int option"
  h_headers :: headers
  h_body :: string

definition empty_holder :: holder where
  "empty_holder = \<lparr>h_status = None, h_headers = [], h_body = []\<rparr>"

text \<open>
  \<open>send_wrapper\<close> on the messages of the application: those it passes on, the exception of the store's \<open>put\<close> if it
  raises, and the store. The last part of the body is passed on after the \<open>put\<close>. What raises in \<open>send\<close> goes
  through the application, which has a handler for none of the store's exceptions.
\<close>

fun capture ::
  "'s store_ops \<Rightarrow> string \<Rightarrow> int \<Rightarrow> holder \<Rightarrow> message list \<Rightarrow> 's \<Rightarrow> message list \<times> exn option \<times> 's" where
  "capture ops key ttl h [] s = ([], None, s)"
| "capture ops key ttl h (ResponseStart status hs # ms) s =
     (case capture ops key ttl (h\<lparr>h_status := Some status, h_headers := hs\<rparr>) ms s of
        (out, x, s') \<Rightarrow> (ResponseStart status hs # out, x, s'))"
| "capture ops key ttl h (ResponseBody body more_body # ms) s =
     (let h' = h\<lparr>h_body := h_body h @ body\<rparr>;
          status = (case h_status h' of Some n \<Rightarrow> n | None \<Rightarrow> 200);
          put = (if more_body then (None, s)
                 else st_put ops key (stored_record status (utf8_replace (h_body h')) (content_type_of (h_headers h'))) ttl s)
      in case put of
           (Some x, s1) \<Rightarrow> ([], Some x, s1)
         | (None, s1) \<Rightarrow>
             (case capture ops key ttl h' ms s1 of (out, x, s') \<Rightarrow> (ResponseBody body more_body # out, x, s')))"

definition captured :: "'s store_ops \<Rightarrow> string \<Rightarrow> int \<Rightarrow> reply \<times> ('s, 'a) world \<Rightarrow> reply \<times> ('s, 'a) world" where
  "captured ops key ttl rw =
     (case capture ops key ttl empty_holder (sent (fst rw)) (w_store (snd rw)) of
        (out, None, s') \<Rightarrow> (fst rw, (snd rw)\<lparr>w_store := s'\<rparr>)
      | (out, Some x, s') \<Rightarrow> (\<lparr>sent = out, raised = Some x\<rparr>, (snd rw)\<lparr>w_store := s'\<rparr>))"

text \<open>
  The reply from a record. A record that is not JSON, or that lacks a key, and a body that is not
  JSON raise; \<open>JSONResponse\<close> is given the parsed body.
\<close>

definition replay :: "(http_response \<Rightarrow> message list) \<Rightarrow> string \<Rightarrow> reply" where
  "replay emit cached =
     (case json_loads cached of
        Some (JObj d) \<Rightarrow>
          (case (map_of d ''status'', map_of d ''body'') of
             (Some (JInt status), Some (JStr body)) \<Rightarrow>
               (case json_loads body of
                  None \<Rightarrow> \<lparr>sent = [], raised = Some JSONDecodeError\<rparr>
                | Some content \<Rightarrow>
                    \<lparr>sent = emit \<lparr>resp_status = status,
                       resp_media_type = (case map_of d ''content_type'' of Some (JStr t) \<Rightarrow> t | _ \<Rightarrow> ''application/json''),
                       resp_headers = [], resp_content = content\<rparr>, raised = None\<rparr>)
           | _ \<Rightarrow> \<lparr>sent = [], raised = Some (KeyError ''status'')\<rparr>)
      | _ \<Rightarrow> \<lparr>sent = [], raised = Some JSONDecodeError\<rparr>)"

text \<open>The key under which a request is stored; \<open>None\<close>: it is passed on as it is.\<close>

definition request_key :: "string \<Rightarrow> scope \<Rightarrow> string option" where
  "request_key service sc =
     (if sc_type sc \<noteq> ''http'' then None
      else if scope_method sc \<notin> {''POST'', ''PUT'', ''PATCH''} then None
      else (case map_of (header_dict sc) ''idempotency-key'' of
              None \<Rightarrow> None
            | Some k \<Rightarrow> if k = [] then None
                         else Some (make_idempotency_key service (scope_method sc) (scope_path sc) k)))"

definition idempotency_middleware ::
  "(http_response \<Rightarrow> message list) \<Rightarrow> 's store_ops \<Rightarrow> string \<Rightarrow> int \<Rightarrow> ('s, 'a) app \<Rightarrow> ('s, 'a) app" where
  "idempotency_middleware emit ops service ttl_seconds inner e sc w =
     (case request_key service sc of
        None \<Rightarrow> inner e sc w
      | Some key \<Rightarrow>
          (case st_get ops key (w_store w) of
             Inl x \<Rightarrow> (\<lparr>sent = [], raised = Some x\<rparr>, w)
           | Inr cached \<Rightarrow>
               if truthy cached then (replay emit (the cached), w)
               else captured ops key ttl_seconds (inner e sc w)))"

subsection \<open>What is stored and what is replayed\<close>

definition chunked :: "int \<Rightarrow> headers \<Rightarrow> string list \<Rightarrow> string \<Rightarrow> message list" where
  "chunked status hs bs b = ResponseStart status hs # map (\<lambda>c. ResponseBody c True) bs @ [ResponseBody b False]"

definition body_parts :: "string list \<Rightarrow> message list" where
  "body_parts bs = map (\<lambda>c. ResponseBody c True) bs"

lemma capture_body:
  "capture ops key ttl h (map (\<lambda>c. ResponseBody c True) bs @ [ResponseBody b False]) s =
     (case st_put ops key
         (stored_record (case h_status h of Some n \<Rightarrow> n | None \<Rightarrow> 200) (utf8_replace (h_body h @ concat bs @ b))
            (content_type_of (h_headers h))) ttl s of
        (None, s1) \<Rightarrow> (body_parts bs @ [ResponseBody b False], None, s1)
      | (Some x, s1) \<Rightarrow> (body_parts bs, Some x, s1))"
  by (induction bs arbitrary: h) (auto simp: Let_def body_parts_def split: prod.split option.split)

lemma capture_chunked:
  "capture ops key ttl empty_holder (chunked status hs bs b) s =
     (case st_put ops key (stored_record status (utf8_replace (concat bs @ b)) (content_type_of hs)) ttl s of
        (None, s1) \<Rightarrow> (chunked status hs bs b, None, s1)
      | (Some x, s1) \<Rightarrow> (ResponseStart status hs # body_parts bs, Some x, s1))"
  by (simp add: chunked_def capture_body body_parts_def split: prod.split option.split) (simp add: empty_holder_def)

lemma capture_all:
  "capture ops key ttl h ms s = (out, None, s') \<Longrightarrow> out = ms"
  by (induction ms arbitrary: h s out s' rule: list.induct)
    (simp, elim capture.elims, auto simp: Let_def split: prod.splits option.splits if_splits)

lemma stored_record_loads:
  "json_loads (stored_record status body ct) =
     Some (JObj [(''status'', JInt status), (''body'', JStr body), (''content_type'', JStr ct)])"
  by (simp add: stored_record_def)

lemma stored_record_truthy: "truthy (Some (stored_record status body ct))"
  by (simp add: stored_record_def)

lemma replay_stored:
  "replay emit (stored_record status body ct) =
     (case json_loads body of
        None \<Rightarrow> \<lparr>sent = [], raised = Some JSONDecodeError\<rparr>
      | Some content \<Rightarrow>
          \<lparr>sent = emit \<lparr>resp_status = status, resp_media_type = ct, resp_headers = [], resp_content = content\<rparr>,
           raised = None\<rparr>)"
  by (simp add: replay_def stored_record_loads split: option.split)

text \<open>The first request under a key, and any later one that finds its record.\<close>

lemma first_request:
  assumes "request_key service sc = Some k" "st_get ops k (w_store w) = Inr cached" "\<not> truthy cached"
    and "inner e sc w = (\<lparr>sent = chunked status hs bs b, raised = None\<rparr>, w')"
    and "st_put ops k (stored_record status (utf8_replace (concat bs @ b)) (content_type_of hs)) ttl (w_store w') = (None, s1)"
  shows "idempotency_middleware emit ops service ttl inner e sc w =
     (\<lparr>sent = chunked status hs bs b, raised = None\<rparr>, w'\<lparr>w_store := s1\<rparr>)"
  using assms by (simp add: idempotency_middleware_def captured_def capture_chunked)

lemma later_request:
  assumes "request_key service sc = Some k" "st_get ops k (w_store w) = Inr (Some (stored_record status body ct))"
  shows "idempotency_middleware emit ops service ttl inner e sc w = (replay emit (stored_record status body ct), w)"
  using assms stored_record_truthy [of status body ct]
  by (simp add: idempotency_middleware_def del: truthy.simps)

text \<open>With a store that works the first request under a key leaves its record, which every later one finds.\<close>

context idempotency_store
begin

lemma first_recorded:
  assumes "request_key service sc = Some k" "\<not> truthy (look k (w_store w))" "0 \<le> ttl"
    and "inner e sc w = (\<lparr>sent = chunked status hs bs b, raised = None\<rparr>, w')"
  obtains s1 where "idempotency_middleware emit ops service ttl inner e sc w =
      (\<lparr>sent = chunked status hs bs b, raised = None\<rparr>, w'\<lparr>w_store := s1\<rparr>)"
    "st_get ops k s1 = Inr (Some (stored_record status (utf8_replace (concat bs @ b)) (content_type_of hs)))"
proof -
  obtain s1 where s1: "st_put ops k (stored_record status (utf8_replace (concat bs @ b)) (content_type_of hs)) ttl (w_store w') = (None, s1)"
      "look k s1 = Some (stored_record status (utf8_replace (concat bs @ b)) (content_type_of hs))"
    using put_works [OF assms(3)] .
  from that [OF first_request [where inner = inner and e = e, OF assms(1) get_look assms(2,4) s1(1)]] s1(2)
  show thesis by (simp add: get_look)
qed

end


definition sample_scope :: scope where
  "sample_scope = \<lparr>sc_type = ''http'', sc_method = Some ''POST'', sc_path = Some ''/v1/users'',
     sc_headers = [(''Idempotency-Key'', ''k1'')], sc_body = []\<rparr>"

definition sample_env :: env where
  "sample_env = \<lparr>env_uuid = ''r1'', env_span = None, env_access_seconds = 0, env_metrics_seconds = 0\<rparr>"

definition sample_world :: "(memory_store, nat) world" where
  "sample_world = \<lparr>w_ctx = default_ctx, w_store = [], w_access = [], w_metrics = no_metrics, w_app = 0\<rparr>"

text \<open>A service that counts its runs and answers with the count.\<close>

definition counting :: "(memory_store, nat) app" where
  "counting e sc w =
     (\<lparr>sent = chunked 201 [(''content-type'', ''application/json'')] [] (json_compact (JInt (int (w_app w)))),
       raised = None\<rparr>, w\<lparr>w_app := w_app w + 1\<rparr>)"

lemma sample_key: "request_key ''users'' sample_scope = Some ''idem:users:POST:/v1/users:k1''"
  by code_simp


text \<open>Requests that are not \<open>POST\<close>, \<open>PUT\<close> or \<open>PATCH\<close>, that are not HTTP, or that carry no key pass
  through unchanged.\<close>

theorem unkeyed_passes_through:
  assumes "sc_type sc \<noteq> ''http'' \<or> scope_method sc \<notin> {''POST'', ''PUT'', ''PATCH''}
    \<or> \<not> truthy (map_of (header_dict sc) ''idempotency-key'')"
  shows "idempotency_middleware emit ops service ttl inner e sc w = inner e sc w"
  using assms by (auto simp: idempotency_middleware_def request_key_def split: option.split)

lemma unkeyed_passes_through_witness:
  "idempotency_middleware plain_emit mem_ops ''users'' 3600 counting sample_env
     (sample_scope\<lparr>sc_method := Some ''GET''\<rparr>) sample_world
   = counting sample_env (sample_scope\<lparr>sc_method := Some ''GET''\<rparr>) sample_world"
  by (rule unkeyed_passes_through) (simp add: scope_method_def)

text \<open>A first response whose body is not a JSON text, an empty one included (a 204), is stored, and
  every retry then raises \<open>JSONDecodeError\<close>, an internal error, instead of replaying it.\<close>

theorem retry_of_non_json_fails:
  fixes inner :: "('s, 'a) app"
  assumes laws: "idempotency_store ops look" and ttl: "0 \<le> ttl"
    and key: "request_key service sc = Some k"
    and fresh: "\<not> truthy (look k (w_store w))"
    and run: "inner e sc w = (\<lparr>sent = chunked status hs bs b, raised = None\<rparr>, w')"
    and body: "json_loads (utf8_replace (concat bs @ b)) = None"
    and first: "idempotency_middleware emit ops service ttl inner e sc w = (rp1, w1)"
  shows "idempotency_middleware emit ops service ttl inner e2 sc w1 =
      (\<lparr>sent = [], raised = Some JSONDecodeError\<rparr>, w1)"
proof -
  let ?rec = "stored_record status (utf8_replace (concat bs @ b)) (content_type_of hs)"
  obtain s1 where "idempotency_middleware emit ops service ttl inner e sc w =
      (\<lparr>sent = chunked status hs bs b, raised = None\<rparr>, w'\<lparr>w_store := s1\<rparr>)" "st_get ops k s1 = Inr (Some ?rec)"
    using idempotency_store.first_recorded [where inner = inner and e = e, OF laws key fresh ttl run] .
  then have "st_get ops k (w_store w1) = Inr (Some ?rec)" using first by auto
  from later_request [OF key this] show ?thesis using body by (simp add: replay_stored)
qed

definition no_content :: "(memory_store, nat) app" where
  "no_content e sc w = (\<lparr>sent = chunked 204 [] [] [], raised = None\<rparr>, w\<lparr>w_app := w_app w + 1\<rparr>)"

lemma retry_of_non_json_fails_witness:
  "fst (idempotency_middleware plain_emit mem_ops ''users'' 3600 no_content sample_env sample_scope
      (snd (idempotency_middleware plain_emit mem_ops ''users'' 3600 no_content sample_env sample_scope sample_world)))
    = \<lparr>sent = [], raised = Some JSONDecodeError\<rparr>"
proof -
  have fresh: "\<not> truthy (mem_get ''idem:users:POST:/v1/users:k1'' (w_store sample_world))" and ttl: "(0::int) \<le> 3600"
    by (simp_all add: mem_get_def sample_world_def)
  have body: "json_loads (utf8_replace (concat [] @ [])) = None" by simp
  show ?thesis
    using retry_of_non_json_fails [OF mem_laws ttl sample_key fresh no_content_def body surjective_pairing]
    by simp
qed

subsection \<open>Store keys\<close>

text \<open>Requests of one service with one method and one path share a record only if their keys agree,
  and a record of one path is found from another only if a path holds a colon; with a colon the key
  of one request can be shifted into the path of another, which then gets the reply of the first.\<close>

theorem store_key_collisions:
  "CHR '':'' \<notin> set path \<Longrightarrow> CHR '':'' \<notin> set path' \<Longrightarrow>
     make_idempotency_key service meth path key = make_idempotency_key service meth path' key'
       \<longleftrightarrow> path = path' \<and> key = key'"
  "make_idempotency_key service meth (path @ '':'' @ x) key = make_idempotency_key service meth path (x @ '':'' @ key)"
  using append_colon_inj [of path path' key key'] by (auto simp: make_idempotency_key_def)

subsection \<open>Overlapping requests\<close>

text \<open>
  The middleware awaits the store's \<open>get\<close> and then the application; requests of other tasks can run
  in between. A request that has arrived waits with what \<open>get\<close> answered.
\<close>

record ('s, 'a) desk =
  d_world :: "('s, 'a) world"
  d_waiting :: "(env \<times> scope \<times> (exn + string option)) list"
  d_replies :: "reply list"

datatype desk_event = Arrives env scope | Runs nat

definition resume :: "(http_response \<Rightarrow> message list) \<Rightarrow> 's store_ops \<Rightarrow> string \<Rightarrow> int \<Rightarrow> ('s, 'a) app
    \<Rightarrow> env \<times> scope \<times> (exn + string option) \<Rightarrow> ('s, 'a) world \<Rightarrow> reply \<times> ('s, 'a) world" where
  "resume emit ops service ttl inner tk w =
     (case tk of (e, sc, cached) \<Rightarrow>
        (case request_key service sc of
           None \<Rightarrow> inner e sc w
         | Some key \<Rightarrow>
             (case cached of
                Inl x \<Rightarrow> (\<lparr>sent = [], raised = Some x\<rparr>, w)
              | Inr c \<Rightarrow>
                  if truthy c then (replay emit (the c), w)
                  else captured ops key ttl (inner e sc w))))"

fun desk_step :: "(http_response \<Rightarrow> message list) \<Rightarrow> 's store_ops \<Rightarrow> string \<Rightarrow> int \<Rightarrow> ('s, 'a) app
    \<Rightarrow> desk_event \<Rightarrow> ('s, 'a) desk \<Rightarrow> ('s, 'a) desk" where
  "desk_step emit ops service ttl inner (Arrives e sc) d =
     d\<lparr>d_waiting := d_waiting d @
         [(e, sc, case request_key service sc of None \<Rightarrow> Inr None | Some k \<Rightarrow> st_get ops k (w_store (d_world d)))]\<rparr>"
| "desk_step emit ops service ttl inner (Runs i) d =
     (if i < length (d_waiting d) then
        (case resume emit ops service ttl inner (d_waiting d ! i) (d_world d) of
           (rp, w) \<Rightarrow> d\<lparr>d_world := w, d_waiting := take i (d_waiting d) @ drop (Suc i) (d_waiting d),
                        d_replies := d_replies d @ [rp]\<rparr>)
      else d)"

lemma resume_at_once:
  "resume emit ops service ttl inner
     (e, sc, case request_key service sc of None \<Rightarrow> Inr None | Some k \<Rightarrow> st_get ops k (w_store w)) w
   = idempotency_middleware emit ops service ttl inner e sc w"
  by (simp add: resume_def idempotency_middleware_def Let_def split: option.split)

text \<open>C38: Two overlapping requests under one key both run the service: what the second one does it does on
  the world the first one left. The middleware looks the key up but never acquires it, although the
  store offers an atomic \<open>acquire\<close> that only one of them would win.\<close>

theorem overlapping_requests_both_run:
  fixes inner :: "('s, 'a) app"
  assumes key: "request_key service sc = Some k" "request_key service sc2 = Some k"
    and fresh: "st_get ops k (w_store w) = Inr cached" "\<not> truthy cached"
    and first: "idempotency_middleware emit ops service ttl inner e sc w = (rp, w1)"
    and second: "captured ops k ttl (inner e2 sc2 w1) = (rp2, w2)"
  shows "fold (desk_step emit ops service ttl inner) [Arrives e sc, Arrives e2 sc2, Runs 0, Runs 0]
      \<lparr>d_world = w, d_waiting = [], d_replies = []\<rparr>
    = \<lparr>d_world = w2, d_waiting = [], d_replies = [rp, rp2]\<rparr>"
proof -
  have 1: "resume emit ops service ttl inner (e, sc, st_get ops k (w_store w)) w = (rp, w1)"
    using resume_at_once [of emit ops service ttl inner e sc w] first key by simp
  have 2: "resume emit ops service ttl inner (e2, sc2, st_get ops k (w_store w)) w1 = (rp2, w2)"
    using key fresh second by (simp add: resume_def)
  show ?thesis using key by (simp add: 1 2)
qed

lemma overlapping_requests_both_run_witness:
  "w_app (d_world (fold (desk_step plain_emit mem_ops ''users'' 3600 counting)
      [Arrives sample_env sample_scope, Arrives sample_env sample_scope, Runs 0, Runs 0]
      \<lparr>d_world = sample_world, d_waiting = [], d_replies = []\<rparr>)) = 2"
proof -
  let ?w1 = "snd (idempotency_middleware plain_emit mem_ops ''users'' 3600 counting sample_env sample_scope sample_world)"
  have fresh: "\<not> truthy (mem_get ''idem:users:POST:/v1/users:k1'' (w_store sample_world))" and ttl: "(0::int) \<le> 3600"
    by (simp_all add: mem_get_def sample_world_def)
  have run: "counting sample_env sample_scope sample_world =
      (\<lparr>sent = chunked 201 [(''content-type'', ''application/json'')] [] (json_compact (JInt 0)), raised = None\<rparr>,
       sample_world\<lparr>w_app := 1\<rparr>)"
    by (simp add: counting_def sample_world_def)
  obtain s1 where "idempotency_middleware plain_emit mem_ops ''users'' 3600 counting sample_env sample_scope sample_world =
      (\<lparr>sent = chunked 201 [(''content-type'', ''application/json'')] [] (json_compact (JInt 0)), raised = None\<rparr>,
       sample_world\<lparr>w_app := 1, w_store := s1\<rparr>)"
    using mem.first_recorded [where inner = counting and e = sample_env, OF sample_key fresh ttl run] .
  then have "w_app ?w1 = 1" by simp
  then have "w_app (snd (captured mem_ops k 3600 (counting sample_env sample_scope ?w1))) = 2" for k
    by (simp add: captured_def counting_def split: prod.split option.split)
  with overlapping_requests_both_run [where inner = counting and e = sample_env and ?e2.0 = sample_env,
      OF sample_key sample_key mem.get_look fresh surjective_pairing surjective_pairing]
  show ?thesis by simp
qed

subsection \<open>A store that cannot be reached\<close>

text \<open>A keyed request whose look-up raises is not run, and the exception leaves the middleware: while the store is
  down every keyed request fails, where an unkeyed one passes.\<close>

theorem unreachable_store_blocks_keyed_requests:
  assumes "request_key service sc = Some k" "st_get ops k (w_store w) = Inl x"
  shows "idempotency_middleware emit ops service ttl inner e sc w = (\<lparr>sent = [], raised = Some x\<rparr>, w)"
  using assms by (simp add: idempotency_middleware_def)

lemma truncated_request:
  assumes "request_key service sc = Some k" "st_get ops k (w_store w) = Inr cached" "\<not> truthy cached"
    and "inner e sc w = (\<lparr>sent = chunked status hs bs b, raised = None\<rparr>, w')"
    and "st_put ops k (stored_record status (utf8_replace (concat bs @ b)) (content_type_of hs)) ttl (w_store w') = (Some x, s1)"
  shows "idempotency_middleware emit ops service ttl inner e sc w =
     (\<lparr>sent = ResponseStart status hs # body_parts bs, raised = Some x\<rparr>, w'\<lparr>w_store := s1\<rparr>)"
  using assms by (simp add: idempotency_middleware_def captured_def capture_chunked)

text \<open>The store's \<open>acquire\<close> is a mutual exclusion: of consecutive attempts at a key only the first
  succeeds, and only if the key was free.\<close>

theorem acquire_excludes:
  "0 \<le> t \<Longrightarrow> list_all (\<lambda>t. 0 \<le> t) ts \<Longrightarrow>
     mem.attempts k (t # ts) s = Inr (mem_get k s = None) # replicate (length ts) (Inr False)"
  by (rule mem.one_acquires)

end
