(* ===== verification/Settings.thy ===== *)
theory Settings
  imports Prelude
begin

section \<open>Settings: kernel/config.py\<close>

text \<open>
  The fields every service reads from its environment, with their defaults; reading the
  environment and \<open>.env\<close> is pydantic's. \<open>get_settings\<close> is cached: the first instance
  made for the same overrides is the one every later call returns.
\<close>

record settings =
  app_env :: string
  app_name :: string
  service_name :: string
  log_level :: string
  host :: string
  port :: int
  database_url :: "string option"
  replica_database_url :: "string option"
  replica_database_urls :: string
  redis_url :: "string option"
  amqp_url :: "string option"
  trust_proxy_headers :: bool
  jwt_issuer :: "string option"
  jwt_audience :: "string option"
  idempotency_ttl_seconds :: int
  outbox_poll_interval_seconds :: real
  outbox_batch_size :: int
  otel_exporter_otlp_endpoint :: "string option"
  otel_service_name :: "string option"
  registry_url :: "string option"
  instance_url :: string
  service_registry_ttl_seconds :: int
  discovery_service :: string
  log_json :: bool
  log_access :: bool
  log_slow_query_ms :: int

definition default_settings :: settings where
  "default_settings =
     \<lparr>app_env = ''development'', app_name = ''ai-big-project'', service_name = ''service'',
      log_level = ''INFO'', host = ''0.0.0.0'', port = 8000,
      database_url = None, replica_database_url = None, replica_database_urls = [],
      redis_url = None, amqp_url = None,
      trust_proxy_headers = False, jwt_issuer = None, jwt_audience = None,
      idempotency_ttl_seconds = 3600,
      outbox_poll_interval_seconds = 2, outbox_batch_size = 100,
      otel_exporter_otlp_endpoint = None, otel_service_name = None,
      registry_url = None, instance_url = [], service_registry_ttl_seconds = 30, discovery_service = [],
      log_json = True, log_access = True, log_slow_query_ms = 0\<rparr>"

definition is_production :: "('a settings_scheme) \<Rightarrow> bool" where
  "is_production s \<longleftrightarrow> app_env s = ''production''"

definition is_development :: "('a settings_scheme) \<Rightarrow> bool" where
  "is_development s \<longleftrightarrow> app_env s = ''development''"

lemma not_both_environments: "\<not> (is_production s \<and> is_development s)"
  by (simp add: is_production_def is_development_def)

text \<open>\<open>@lru_cache\<close> on \<open>get_settings\<close>: the cache maps the overrides of a call to its instance; \<open>load\<close>
  reads the environment.\<close>

definition get_settings :: "('o \<Rightarrow> 's) \<Rightarrow> 'o \<Rightarrow> ('o, 's) pydict \<Rightarrow> 's \<times> ('o, 's) pydict" where
  "get_settings load overrides cache =
     (case map_of cache overrides of
        Some s \<Rightarrow> (s, cache)
      | None \<Rightarrow> (load overrides, AList.update overrides (load overrides) cache))"

lemma get_settings_once:
  "get_settings load o1 cache = (s, cache') \<Longrightarrow> get_settings load' o1 cache' = (s, cache')"
  by (auto simp: get_settings_def split: option.splits)

end
