(* ===== verification/Middleware.thy ===== *)
theory Middleware
  imports Idempotency Settings
begin

section \<open>The kernel's middlewares and their stack: kernel/middleware.py, metrics.py, app.py\<close>

text \<open>
  \<open>RequestContextMiddleware\<close>, \<open>IdentityMiddleware\<close>, \<open>AccessLogMiddleware\<close>, \<open>MetricsMiddleware\<close> and
  the order in which \<open>create_app\<close> stacks them. The application they wrap, FastAPI's router with
  the exception handlers of \<open>Problem\<close>, is an argument. An exception that it raises is one no
  handler took (the handler of \<open>Exception\<close> sits outside of all of them, in Starlette's own
  outermost middleware).
\<close>

subsection \<open>Request context\<close>

text \<open>\<open>format(ctx.trace_id, "032x")\<close> of the current span; none if the span is invalid.\<close>

definition span_ids :: "(nat \<times> nat) option \<Rightarrow> string \<times> string" where
  "span_ids sp = (case sp of Some (t, s) \<Rightarrow> (hex_pad 32 t, hex_pad 16 s) | None \<Rightarrow> ([], []))"

definition add_header :: "string \<Rightarrow> string \<Rightarrow> message \<Rightarrow> message" where
  "add_header k v m = (case m of ResponseStart st hs \<Rightarrow> ResponseStart st (hs @ [(k, v)]) | ResponseBody b mb \<Rightarrow> m)"

definition is_start :: "message \<Rightarrow> bool" where
  "is_start m = (case m of ResponseStart st hs \<Rightarrow> True | ResponseBody b mb \<Rightarrow> False)"

text \<open>
  The \<open>send_wrapper\<close>; a request id that is not Latin-1 would make \<open>encode\<close> raise at the start
  message.
\<close>

definition stamp :: "string \<Rightarrow> reply \<Rightarrow> reply" where
  "stamp request_id rp =
     (case latin1_encode request_id of
        Some v \<Rightarrow> rp\<lparr>sent := map (add_header ''x-request-id'' v) (sent rp)\<rparr>
      | None \<Rightarrow>
          if list_ex is_start (sent rp)
          then \<lparr>sent = takeWhile (\<lambda>m. \<not> is_start m) (sent rp), raised = Some (ValueError ''latin-1'')\<rparr>
          else rp)"

definition request_context_middleware :: "('s, 'a) app \<Rightarrow> ('s, 'a) app" where
  "request_context_middleware inner e sc w =
     (if sc_type sc \<noteq> ''http'' then inner e sc w
      else
        (let request_id = or_else (map_of (header_dict sc) ''x-request-id'') (env_uuid e);
             (trace_id, span_id) = span_ids (env_span e);
             w1 = w\<lparr>w_ctx := set_request_context request_id trace_id span_id (w_ctx w)\<rparr>
         in case inner e sc w1 of (rp, w2) \<Rightarrow> (stamp request_id rp, w2)))"

subsection \<open>Identity\<close>

definition identity_of_headers :: "(string, string) pydict \<Rightarrow> identity option" where
  "identity_of_headers hdr =
     (case map_of hdr ''x-user-id'' of
        None \<Rightarrow> None
      | Some u \<Rightarrow>
          if u = [] then None
          else Some \<lparr>user_id = Some u,
                     roles = filter (\<lambda>r. r \<noteq> []) (split_on CHR '','' (dict_get [] ''x-user-roles'' hdr)),
                     tenant_id = map_of hdr ''x-tenant-id'', is_service = False\<rparr>)"

definition identity_middleware :: "bool \<Rightarrow> ('s, 'a) app \<Rightarrow> ('s, 'a) app" where
  "identity_middleware trust inner e sc w =
     (if sc_type sc \<noteq> ''http'' then inner e sc w
      else
        (let ident = (if trust then identity_of_headers (header_dict sc) else None)
         in inner e sc (w\<lparr>w_ctx := set_identity ident (w_ctx w)\<rparr>)))"

subsection \<open>Access log\<close>

text \<open>\<open>round(x, 1)\<close>, in tenths.\<close>

definition round_tenths :: "real \<Rightarrow> int" where
  "round_tenths x =
     (let n = \<lfloor>10 * x\<rfloor>; d = 10 * x - of_int n
      in if d < 1/2 \<or> (d = 1/2 \<and> even n) then n else n + 1)"

definition client_ip :: "(string, string) pydict \<Rightarrow> string" where
  "client_ip hdr =
     or_else (Some (strip (hd (split_on CHR '','' (dict_get [] ''x-forwarded-for'' hdr)))))
       (dict_get [] ''x-real-ip'' hdr)"

definition access_log_middleware :: "('s, 'a) app \<Rightarrow> ('s, 'a) app" where
  "access_log_middleware inner e sc w =
     (if sc_type sc \<noteq> ''http'' then inner e sc w
      else
        (case inner e sc w of
           (rp, w1) \<Rightarrow>
             if raised rp \<noteq> None then (rp, w1)
             else
               (let entry = \<lparr>al_method = scope_method sc, al_path = scope_path sc,
                      al_status = last_status None (sent rp),
                      al_duration_tenths = round_tenths (env_access_seconds e * 1000),
                      al_client_ip = client_ip (header_dict sc)\<rparr>
                in (rp, w1\<lparr>w_access := w_access w1 @ [entry]\<rparr>))))"

subsection \<open>Metrics\<close>

definition id_char :: "char \<Rightarrow> bool" where
  "id_char c \<longleftrightarrow> (let n = (of_char c :: nat) in 48 \<le> n \<and> n \<le> 57 \<or> 97 \<le> n \<and> n \<le> 102 \<or> 65 \<le> n \<and> n \<le> 70 \<or> n = 45)"

text \<open>\<open>re.sub(r"/[0-9a-fA-F-]{8,}", "/{id}", path)\<close>.\<close>

function metric_path :: "string \<Rightarrow> string" where
  "metric_path [] = []"
| "metric_path (c # cs) =
     (if c = CHR ''/'' \<and> 8 \<le> length (takeWhile id_char cs)
      then ''/{id}'' @ metric_path (dropWhile id_char cs)
      else c # metric_path cs)"
  by pat_completeness auto
termination
  by (relation "measure length") (auto intro: le_imp_less_Suc length_dropWhile_le)

definition count_up :: "'k \<Rightarrow> int \<Rightarrow> ('k, int) pydict \<Rightarrow> ('k, int) pydict" where
  "count_up k n d = AList.update k (dict_get 0 k d + n) d"

definition observe :: "string \<Rightarrow> string \<Rightarrow> string \<Rightarrow> int \<Rightarrow> real \<Rightarrow> metrics \<Rightarrow> metrics" where
  "observe service meth path status duration m =
     m\<lparr>m_total := AList.update (service, meth, path, show_int status)
                    (dict_get 0 (service, meth, path, show_int status) (m_total m) + 1) (m_total m),
       m_durations := AList.update (service, meth, path)
                    (dict_get [] (service, meth, path) (m_durations m) @ [duration]) (m_durations m)\<rparr>"

definition in_flight_add :: "string \<Rightarrow> int \<Rightarrow> metrics \<Rightarrow> metrics" where
  "in_flight_add service n m = m\<lparr>m_in_flight := count_up service n (m_in_flight m)\<rparr>"

definition metrics_middleware :: "string \<Rightarrow> ('s, 'a) app \<Rightarrow> ('s, 'a) app" where
  "metrics_middleware service inner e sc w =
     (if sc_type sc \<noteq> ''http'' then inner e sc w
      else
        (let w1 = w\<lparr>w_metrics := in_flight_add service 1 (w_metrics w)\<rparr>
         in case inner e sc w1 of
              (rp, w2) \<Rightarrow>
                (let status = (case last_status None (sent rp) of Some n \<Rightarrow> n | None \<Rightarrow> 500)
                 in (rp, w2\<lparr>w_metrics :=
                       in_flight_add service (-1)
                         (observe service (scope_method sc) (metric_path (scope_path sc)) status
                            (env_metrics_seconds e) (w_metrics w2))\<rparr>))))"

subsection \<open>The stack of \<open>create_app\<close>\<close>

text \<open>\<open>add_middleware\<close> puts the newest middleware outermost.\<close>

definition kernel_stack ::
  "(http_response \<Rightarrow> message list) \<Rightarrow> 's store_ops \<Rightarrow> 'z settings_scheme \<Rightarrow> ('s, 'a) app \<Rightarrow> ('s, 'a) app" where
  "kernel_stack emit ops st inner =
     (let a1 = identity_middleware (trust_proxy_headers st) inner;
          a2 = request_context_middleware a1;
          a3 = idempotency_middleware emit ops (service_name st) (idempotency_ttl_seconds st) a2;
          a4 = (if log_access st then access_log_middleware a3 else a3)
      in metrics_middleware (service_name st) a4)"

subsection \<open>Metric paths\<close>

lemma id_char_slash: "\<not> id_char CHR ''/''" "\<not> id_char CHR ''{''"
  by (simp_all add: id_char_def)

lemma take_metric_path: "takeWhile id_char (metric_path s) = takeWhile id_char s"
  by (induction s rule: metric_path.induct) (auto simp: id_char_slash)

lemma metric_path_append_free:
  "CHR ''/'' \<notin> set s \<Longrightarrow> metric_path (s @ t) = s @ metric_path t"
  by (induction s) auto

text \<open>The path label of a metric is stable: normalising it again changes nothing.\<close>

theorem metric_path_idempotent: "metric_path (metric_path p) = metric_path p"
proof (induction p rule: metric_path.induct)
  case 1
  then show ?case by simp
next
  case (2 c cs)
  have b: "metric_path (''{id}'' @ s) = ''{id}'' @ metric_path s" for s
    by (rule metric_path_append_free) simp
  show ?case
  proof (cases "c = CHR ''/'' \<and> 8 \<le> length (takeWhile id_char cs)")
    case True
    have "takeWhile id_char (''{id}'' @ s) = []" for s by (simp add: id_char_slash)
    then show ?thesis using True 2(1) b by simp
  next
    case False
    then show ?thesis using 2(2) take_metric_path [of cs] by auto
  qed
qed

text \<open>Paths that end in an identifier of at least eight hexadecimal digits or dashes (a UUID) have one
  label, so the number of time series does not grow with the number of resources.\<close>

theorem metric_path_of_ids:
  assumes "list_all id_char u" "list_all id_char v" "8 \<le> length u" "8 \<le> length v"
  shows "metric_path (p @ ''/'' @ u) = metric_path (p @ ''/'' @ v)"
proof -
  have tw: "takeWhile id_char (w :: string) = w" "dropWhile id_char w = []" if "list_all id_char w" for w
    using that by (simp_all add: list_all_iff takeWhile_eq_all_conv dropWhile_eq_Nil_conv)
  have app: "takeWhile id_char (q @ ''/'' @ w) = takeWhile id_char q"
    "dropWhile id_char (q @ ''/'' @ w) = dropWhile id_char q @ ''/'' @ w" for q w
    by (induction q) (auto simp: id_char_slash)
  show ?thesis
  proof (induction p rule: metric_path.induct)
    case 1
    then show ?case using assms by (simp add: tw)
  next
    case (2 c cs)
    then show ?case using app by simp
  qed
qed

lemma metric_path_of_ids_witness:
  "metric_path (''/v1/users'' @ ''/'' @ ''0a1b2c3d-4e5f'') = metric_path (''/v1/users'' @ ''/'' @ ''deadbeef'')"
  by (rule metric_path_of_ids) (simp_all add: id_char_def)

subsection \<open>What each middleware guarantees\<close>

text \<open>C34: Whether the inner application returns or raises, \<open>MetricsMiddleware\<close> counts the request once, with
  the status of the response or 500 if none was started, and the gauge of requests in flight is back
  where the inner application left it, less the one it was raised by.\<close>

theorem metrics_count_every_request:
  assumes http: "sc_type sc = ''http''"
    and run: "inner e sc (w\<lparr>w_metrics := in_flight_add service 1 (w_metrics w)\<rparr>) = (rp, w2)"
    and inner: "dict_get 0 service (m_in_flight (w_metrics w2)) = dict_get 0 service (m_in_flight (w_metrics w)) + 1"
    and label: "lbl = (service, scope_method sc, metric_path (scope_path sc),
        show_int (case last_status None (sent rp) of Some n \<Rightarrow> n | None \<Rightarrow> 500))"
  shows "\<exists>w3. metrics_middleware service inner e sc w = (rp, w3)
    \<and> dict_get 0 service (m_in_flight (w_metrics w3)) = dict_get 0 service (m_in_flight (w_metrics w))
    \<and> dict_get 0 lbl (m_total (w_metrics w3)) = dict_get 0 lbl (m_total (w_metrics w2)) + 1
    \<and> (\<forall>l. l \<noteq> lbl \<longrightarrow> dict_get 0 l (m_total (w_metrics w3)) = dict_get 0 l (m_total (w_metrics w2)))"
  using assms
  by (auto simp: metrics_middleware_def Let_def in_flight_add_def count_up_def observe_def)

definition crashing :: "(memory_store, nat) app" where
  "crashing e sc w = (\<lparr>sent = [], raised = Some (RuntimeError ''boom'')\<rparr>, w)"

lemma metrics_count_every_request_witness:
  "\<exists>w3. metrics_middleware ''users'' crashing sample_env sample_scope sample_world
        = (\<lparr>sent = [], raised = Some (RuntimeError ''boom'')\<rparr>, w3)
      \<and> dict_get 0 ''users'' (m_in_flight (w_metrics w3)) = 0"
  using metrics_count_every_request [where inner = crashing and e = sample_env and service = "''users''",
      OF _ crashing_def _ refl, of sample_scope sample_world]
  by (auto simp: sample_scope_def sample_world_def in_flight_add_def count_up_def no_metrics_def dict_get_def)

text \<open>The access log has one line for each request that returns, with its method, path and status, and
  none for a request that ends in an unhandled exception.\<close>

theorem access_log_lines:
  assumes "sc_type sc = ''http''" "inner e sc w = (rp, w1)"
  shows "\<exists>w2. access_log_middleware inner e sc w = (rp, w2) \<and>
    (if raised rp = None
     then \<exists>l. w_access w2 = w_access w1 @ [l] \<and> al_method l = scope_method sc \<and> al_path l = scope_path sc
            \<and> al_status l = last_status None (sent rp)
     else w2 = w1)"
  using assms by (auto simp: access_log_middleware_def Let_def)

lemma access_log_lines_witness:
  "snd (access_log_middleware crashing sample_env sample_scope sample_world) = sample_world"
  using access_log_lines [where inner = crashing, OF _ crashing_def, of sample_scope sample_env sample_world]
  by (auto simp: sample_scope_def)

lemma latin1_values: "map_of (header_dict sc) k = Some v \<Longrightarrow> \<exists>bs. v = latin1_decode bs"
  by (auto simp: header_dict_def dest!: map_of_SomeD)

lemma last_status_append: "last_status st (map (add_header k v) ms) = last_status st ms"
  by (induction st ms rule: last_status.induct) (auto simp: add_header_def)



text \<open>Identity headers count only behind a trusted proxy: without trust the application runs without an
  identity, whatever headers the caller sends, and the guard for authenticated callers refuses.\<close>

theorem untrusted_headers_ignored:
  assumes "sc_type sc = ''http''" "extends_builtin reg"
  shows "\<exists>w1. identity_middleware False inner e sc w = inner e sc w1
    \<and> get_identity (w_ctx w1) = None
    \<and> map_sum exn_code id (get_current_identity reg (w_ctx w1)) = Inl (Some ''UNAUTHORIZED'')"
proof -
  let ?w1 = "w\<lparr>w_ctx := set_identity None (w_ctx w)\<rparr>"
  have "identity_middleware False inner e sc w = inner e sc ?w1"
    using assms(1) by (simp add: identity_middleware_def)
  moreover have "map_sum exn_code id (get_current_identity reg (w_ctx ?w1)) = Inl (Some ''UNAUTHORIZED'')"
    using assms(2) by (simp add: get_current_identity_def exn_code_def)
  ultimately show ?thesis by (intro exI [of _ ?w1]) simp
qed

lemma untrusted_headers_ignored_witness:
  "\<exists>w1. identity_middleware False counting sample_env
      (sample_scope\<lparr>sc_headers := [(''X-User-Id'', ''root''), (''X-User-Roles'', ''admin'')]\<rparr>) sample_world
      = counting sample_env (sample_scope\<lparr>sc_headers := [(''X-User-Id'', ''root''), (''X-User-Roles'', ''admin'')]\<rparr>) w1
    \<and> get_identity (w_ctx w1) = None"
  using untrusted_headers_ignored [OF _ builtin_extends,
      of "sample_scope\<lparr>sc_headers := [(''X-User-Id'', ''root''), (''X-User-Roles'', ''admin'')]\<rparr>" counting sample_env sample_world]
  by (auto simp: sample_scope_def)

subsection \<open>Replies that the idempotency store answers\<close>

text \<open>In the stack the idempotency middleware lies outside of the request context and the identity: a
  replayed reply is sent without either having run. It has no \<open>x-request-id\<close>, the caller's identity
  is never looked at, and the context variables are those from before the request.\<close>

theorem replay_skips_inner_layers:
  assumes http: "sc_type sc = ''http''"
    and key: "request_key (service_name st) sc = Some k"
    and stored: "st_get ops k (w_store w) = Inr (Some (stored_record status body ct))"
    and body: "json_loads body = Some content"
  shows "\<exists>w'. kernel_stack emit ops st inner e sc w =
      (\<lparr>sent = emit \<lparr>resp_status = status, resp_media_type = ct, resp_headers = [], resp_content = content\<rparr>,
        raised = None\<rparr>, w')
    \<and> w_ctx w' = w_ctx w \<and> w_app w' = w_app w \<and> w_store w' = w_store w"
proof -
  have "idempotency_middleware emit ops (service_name st) (idempotency_ttl_seconds st)
      (request_context_middleware (identity_middleware (trust_proxy_headers st) inner)) e sc w1
      = (\<lparr>sent = emit \<lparr>resp_status = status, resp_media_type = ct, resp_headers = [], resp_content = content\<rparr>,
          raised = None\<rparr>, w1)" if "w_store w1 = w_store w" for w1
    using later_request [where inner = "request_context_middleware (identity_middleware (trust_proxy_headers st) inner)"
        and w = w1, OF key] stored that body by (simp add: replay_stored)
  then show ?thesis using http
    by (simp add: kernel_stack_def Let_def metrics_middleware_def access_log_middleware_def)
qed

lemma replay_skips_inner_layers_witness:
  "\<exists>w'. kernel_stack plain_emit mem_ops (default_settings\<lparr>service_name := ''users''\<rparr>) counting sample_env sample_scope
        (sample_world\<lparr>w_store := [(''idem:users:POST:/v1/users:k1'', stored_record 201 ''7'' ''application/json'')]\<rparr>) =
      (\<lparr>sent = plain_emit \<lparr>resp_status = 201, resp_media_type = ''application/json'', resp_headers = [], resp_content = JInt 7\<rparr>,
        raised = None\<rparr>, w')
    \<and> w_ctx w' = default_ctx \<and> w_app w' = 0 \<and> w_store w' = [(''idem:users:POST:/v1/users:k1'', stored_record 201 ''7'' ''application/json'')]"
proof -
  have "json_loads ''7'' = Some (JInt 7)" by code_simp
  then show ?thesis
    using replay_skips_inner_layers [where st = "default_settings\<lparr>service_name := ''users''\<rparr>" and inner = counting
        and e = sample_env and emit = plain_emit and ops = mem_ops and sc = sample_scope and status = 201
        and body = "''7''" and ct = "''application/json''" and content = "JInt 7"
        and k = "''idem:users:POST:/v1/users:k1''"
        and w = "sample_world\<lparr>w_store := [(''idem:users:POST:/v1/users:k1'', stored_record 201 ''7'' ''application/json'')]\<rparr>"]
      sample_key
    by (simp add: default_settings_def sample_world_def mem_ops_def mem_get_def) (simp add: sample_scope_def)
qed

end
