(* ===== verification/Balancer.thy ===== *)
theory Balancer
  imports Problem
begin

section \<open>The gateway's client-side load balancer: gateway_app/balancer.py\<close>

text \<open>
  \<open>UpstreamBalancer\<close>: a pool of upstream URLs, one health record per URL, and a round-robin
  index. The clock (\<open>time.monotonic()\<close>) and the transport (httpx) are arguments: a transport
  maps the number of the attempt and the request to the time at which the result is there and
  the result: a response, an \<open>httpx.HTTPError\<close>, or an exception the code does not catch
  (\<open>httpx.InvalidURL\<close> for a URL with control characters, \<open>UnicodeEncodeError\<close> for a header value outside
  ASCII are no \<open>HTTPError\<close>). Clock readings are reals. Log calls
  are left out; \<open>KeyError\<close> of \<open>self._states[url]\<close> is a result.

  This theory is one coroutine at a time (\<open>balancer_request\<close>, \<open>probe_all\<close>, \<open>refresh\<close>); the
  interleaving of requests, probes and refreshes at each \<open>await\<close> is the theory \<open>Pool\<close>.
\<close>

record upstream_state =
  healthy :: bool
  fails :: nat
  down_since :: "real option"

definition fresh_state :: upstream_state where
  "fresh_state = \<lparr>healthy = True, fails = 0, down_since = None\<rparr>"

record balancer =
  b_urls :: "string list"
  b_fail_threshold :: nat
  b_cooldown :: real
  b_states :: "(string, upstream_state) pydict"
  b_rr :: nat

definition balancer_init :: "string list \<Rightarrow> nat \<Rightarrow> real \<Rightarrow> balancer" where
  "balancer_init urls fail_threshold cooldown =
     \<lparr>b_urls = urls, b_fail_threshold = fail_threshold, b_cooldown = cooldown,
      b_states = dict_of_pairs (map (\<lambda>u. (u, fresh_state)) urls), b_rr = 0\<rparr>"

definition refresh :: "string list \<Rightarrow> balancer \<Rightarrow> balancer" where
  "refresh urls b =
     (if urls = [] then b
      else
        (let us = from_keys urls;
             new_states = map (\<lambda>u. (u, dict_get fresh_state u (b_states b))) us
         in b\<lparr>b_states := new_states, b_urls := us, b_rr := 0\<rparr>))"

definition health_snapshot :: "balancer \<Rightarrow> (string, bool) pydict" where
  "health_snapshot b = map (\<lambda>(u, s). (u, healthy s)) (b_states b)"

text \<open>\<open>None\<close> is the \<open>KeyError\<close> of a URL that is not in the pool.\<close>

definition is_available :: "real \<Rightarrow> balancer \<Rightarrow> string \<Rightarrow> bool option" where
  "is_available now b url =
     (case map_of (b_states b) url of
        None \<Rightarrow> None
      | Some s \<Rightarrow>
          Some (if healthy s then True
                else (case down_since s of None \<Rightarrow> False | Some t \<Rightarrow> b_cooldown b \<le> now - t)))"

definition all_down :: "registry \<Rightarrow> string \<Rightarrow> exn" where
  "all_down reg msg = AppExc (raise_msg reg DownstreamError msg)"

fun next_loop :: "registry \<Rightarrow> nat \<Rightarrow> real \<Rightarrow> balancer \<Rightarrow> (exn + string) \<times> balancer" where
  "next_loop reg 0 now b = (Inl (all_down reg (utf8 [0x6240, 0x6709, 0x4E0A, 0x6E38, 0x670D, 0x52A1, 0x5B9E, 0x4F8B, 0x5747, 0x4E0D, 0x53EF, 0x7528])), b)"
| "next_loop reg (Suc k) now b =
     (case cycle_next (length (b_urls b)) (b_rr b) of
        None \<Rightarrow> (Inl StopIteration, b)
      | Some (i, rr') \<Rightarrow>
          (let b' = b\<lparr>b_rr := rr'\<rparr>; url = b_urls b ! i
           in case is_available now b' url of
                None \<Rightarrow> (Inl (KeyError url), b')
              | Some True \<Rightarrow> (Inr url, b')
              | Some False \<Rightarrow> next_loop reg k now b'))"

definition next_url :: "registry \<Rightarrow> real \<Rightarrow> balancer \<Rightarrow> (exn + string) \<times> balancer" where
  "next_url reg now b = next_loop reg (length (b_urls b)) now b"

definition succeeded :: "upstream_state \<Rightarrow> upstream_state" where
  "succeeded s = s\<lparr>healthy := True, fails := 0, down_since := None\<rparr>"

definition failed :: "nat \<Rightarrow> real \<Rightarrow> upstream_state \<Rightarrow> upstream_state" where
  "failed threshold now s =
     (let s' = s\<lparr>fails := fails s + 1\<rparr>
      in if threshold \<le> fails s' then s'\<lparr>healthy := False, down_since := Some now\<rparr> else s')"

definition record_success :: "string \<Rightarrow> balancer \<Rightarrow> balancer option" where
  "record_success url b =
     (case map_of (b_states b) url of
        None \<Rightarrow> None
      | Some s \<Rightarrow> Some (b\<lparr>b_states := AList.update url (succeeded s) (b_states b)\<rparr>))"

definition record_failure :: "real \<Rightarrow> string \<Rightarrow> balancer \<Rightarrow> balancer option" where
  "record_failure now url b =
     (case map_of (b_states b) url of
        None \<Rightarrow> None
      | Some s \<Rightarrow>
          Some (b\<lparr>b_states := AList.update url (failed (b_fail_threshold b) now s) (b_states b)\<rparr>))"

subsection \<open>A proxied request with failover\<close>

record http_request =
  hr_method :: string
  hr_url :: string
  hr_headers :: "(string, string) pydict"
  hr_content :: "string option"

record upstream_response =
  ur_status :: int
  ur_headers :: "(string, string) pydict"
  ur_content :: string

datatype http_result = Response upstream_response | HTTPError string | Uncaught exn

type_synonym transport = "nat \<Rightarrow> http_request \<Rightarrow> real \<times> http_result"

definition join_url :: "string \<Rightarrow> string \<Rightarrow> string" where
  "join_url url path = rstrip_char CHR ''/'' url @ ''/'' @ lstrip_char CHR ''/'' path"

text \<open>What one call asks for: method, path, headers, body.\<close>

record outgoing =
  out_method :: string
  out_path :: string
  out_headers :: "(string, string) pydict"
  out_content :: "string option"

definition request_to :: "outgoing \<Rightarrow> string \<Rightarrow> http_request" where
  "request_to q url =
     \<lparr>hr_method = out_method q, hr_url = join_url url (out_path q), hr_headers = out_headers q,
      hr_content = out_content q\<rparr>"

definition exhausted :: "registry \<Rightarrow> string option \<Rightarrow> exn" where
  "exhausted reg last_error =
     all_down reg (utf8 [0x6240, 0x6709, 0x4E0A, 0x6E38, 0x5B9E, 0x4F8B, 0x5747, 0x4E0D, 0x53EF, 0x7528] @ '': '' @ (case last_error of None \<Rightarrow> ''None'' | Some e \<Rightarrow> e))"

fun request_loop ::
  "registry \<Rightarrow> transport \<Rightarrow> outgoing \<Rightarrow> nat \<Rightarrow> nat \<Rightarrow> real \<Rightarrow> string list \<Rightarrow> string option \<Rightarrow> balancer
    \<Rightarrow> (exn + upstream_response) \<times> balancer" where
  "request_loop reg tx q 0 k now tried last_error b = (Inl (exhausted reg last_error), b)"
| "request_loop reg tx q (Suc n) k now tried last_error b =
     (case next_url reg now b of
        (Inl e, b1) \<Rightarrow> (Inl e, b1)
      | (Inr url, b1) \<Rightarrow>
          if url \<in> set tried then (Inl (exhausted reg last_error), b1)
          else
            (case tx k (request_to q url) of
               (t, HTTPError msg) \<Rightarrow>
                 (case record_failure t url b1 of
                    None \<Rightarrow> (Inl (KeyError url), b1)
                  | Some b2 \<Rightarrow> request_loop reg tx q n (Suc k) t (url # tried) (Some msg) b2)
             | (t, Uncaught e) \<Rightarrow> (Inl e, b1)
             | (t, Response r) \<Rightarrow>
                 if 500 \<le> ur_status r then
                   (case record_failure t url b1 of
                      None \<Rightarrow> (Inl (KeyError url), b1)
                    | Some b2 \<Rightarrow>
                        request_loop reg tx q n (Suc k) t (url # tried)
                          (Some (utf8 [0x4E0A, 0x6E38] @ '' '' @ url @ '' '' @ utf8 [0x8FD4, 0x56DE] @ '' '' @ show_int (ur_status r))) b2)
                 else
                   (case record_success url b1 of
                      None \<Rightarrow> (Inl (KeyError url), b1)
                    | Some b2 \<Rightarrow>
                        (Inr (r\<lparr>ur_headers := AList.update ''x-upstream'' url (ur_headers r)\<rparr>), b2))))"

definition balancer_request ::
  "registry \<Rightarrow> transport \<Rightarrow> real \<Rightarrow> outgoing \<Rightarrow> balancer \<Rightarrow> (exn + upstream_response) \<times> balancer" where
  "balancer_request reg tx now q b = request_loop reg tx q (length (b_urls b)) 0 now [] None b"

subsection \<open>Background probes\<close>

definition probe_url :: "string \<Rightarrow> string" where
  "probe_url url = rstrip_char CHR ''/'' url @ ''/health/live''"

fun probe_loop :: "(nat \<Rightarrow> string \<Rightarrow> real \<times> http_result) \<Rightarrow> nat \<Rightarrow> string list \<Rightarrow> balancer \<Rightarrow> exn option \<times> balancer" where
  "probe_loop get k [] b = (None, b)"
| "probe_loop get k (url # urls) b =
     (case map_of (b_states b) url of
        None \<Rightarrow> (Some (KeyError url), b)
      | Some s \<Rightarrow>
          if healthy s then probe_loop get k urls b
          else
            (case get k (probe_url url) of
               (t, Response r) \<Rightarrow>
                 if ur_status r < 500
                 then (case record_success url b of
                         None \<Rightarrow> (Some (KeyError url), b)
                       | Some b' \<Rightarrow> probe_loop get (Suc k) urls b')
                 else probe_loop get (Suc k) urls b
             | (t, HTTPError msg) \<Rightarrow>
                 probe_loop get (Suc k) urls
                   (b\<lparr>b_states := AList.update url (s\<lparr>down_since := Some t\<rparr>) (b_states b)\<rparr>)
             | (t, Uncaught e) \<Rightarrow> (Some e, b)))"

definition probe_all :: "(nat \<Rightarrow> string \<Rightarrow> real \<times> http_result) \<Rightarrow> balancer \<Rightarrow> exn option \<times> balancer" where
  "probe_all get b = probe_loop get 0 (b_urls b) b"

subsection \<open>The pool's invariant\<close>

text \<open>
  A healthy instance has fewer failures than the threshold; an unhealthy one has reached it and
  knows since when it is down. (A healthy one may have a down time left: a probe that fails while a
  request to the same instance succeeds writes it.)
\<close>

definition inst_ok :: "nat \<Rightarrow> upstream_state \<Rightarrow> bool" where
  "inst_ok threshold s \<longleftrightarrow>
     (if healthy s then fails s < threshold
      else threshold \<le> fails s \<and> down_since s \<noteq> None)"

definition bal_inv :: "balancer \<Rightarrow> bool" where
  "bal_inv b \<longleftrightarrow>
     0 < b_fail_threshold b \<and> dict_ok (b_states b) \<and> fst ` set (b_states b) = set (b_urls b)
     \<and> (b_urls b \<noteq> [] \<longrightarrow> b_rr b < length (b_urls b))
     \<and> list_all (\<lambda>(u, s). inst_ok (b_fail_threshold b) s) (b_states b)"

lemma fresh_state_ok: "0 < th \<Longrightarrow> inst_ok th fresh_state"
  by (simp add: inst_ok_def fresh_state_def)

lemma succeeded_ok: "0 < th \<Longrightarrow> inst_ok th (succeeded s)"
  by (simp add: inst_ok_def succeeded_def)

lemma failed_ok: "0 < th \<Longrightarrow> inst_ok th s \<Longrightarrow> inst_ok th (failed th now s)"
  by (auto simp: inst_ok_def failed_def Let_def split: if_splits)

lemma inv_state:
  "bal_inv b \<Longrightarrow> map_of (b_states b) u = Some s \<Longrightarrow> inst_ok (b_fail_threshold b) s"
  by (auto simp: bal_inv_def list_all_iff dest!: map_of_SomeD)

lemma inv_known: "bal_inv b \<Longrightarrow> u \<in> set (b_urls b) \<longleftrightarrow> (\<exists>s. map_of (b_states b) u = Some s)"
  using map_of_None_fst [of "b_states b" u] by (auto simp: bal_inv_def)

lemma dict_all_iff: "dict_ok d \<Longrightarrow> list_all (\<lambda>(k, v). P v) d \<longleftrightarrow> (\<forall>k v. map_of d k = Some v \<longrightarrow> P v)"
  by (auto simp: list_all_iff dict_map_of_in)

lemma inv_update:
  assumes inv: "bal_inv b" and u: "map_of (b_states b) u = Some s0"
    and s: "inst_ok (b_fail_threshold b) s"
  shows "bal_inv (b\<lparr>b_states := AList.update u s (b_states b)\<rparr>)"
proof -
  have d: "dict_ok (b_states b)" using inv by (simp add: bal_inv_def)
  have "\<forall>k v. map_of (b_states b) k = Some v \<longrightarrow> inst_ok (b_fail_threshold b) v"
    using inv_state [OF inv] by blast
  with s have "list_all (\<lambda>(k, v). inst_ok (b_fail_threshold b) v) (AList.update u s (b_states b))"
    by (subst dict_all_iff) (auto simp: dict_ok_update d)
  moreover have "u \<in> set (b_urls b)" using inv_known [OF inv] u by blast
  ultimately show ?thesis using inv d
    by (auto simp: bal_inv_def dict_ok_update keys_update)
qed

lemma inv_record_success: "bal_inv b \<Longrightarrow> record_success u b = Some b' \<Longrightarrow> bal_inv b'"
  by (auto simp: record_success_def split: option.splits intro!: inv_update succeeded_ok)
    (simp add: bal_inv_def)

lemma inv_record_failure: "bal_inv b \<Longrightarrow> record_failure t u b = Some b' \<Longrightarrow> bal_inv b'"
proof -
  assume inv: "bal_inv b" and b': "record_failure t u b = Some b'"
  then obtain s where s: "map_of (b_states b) u = Some s"
    and "b' = b\<lparr>b_states := AList.update u (failed (b_fail_threshold b) t s) (b_states b)\<rparr>"
    by (auto simp: record_failure_def split: option.splits)
  moreover have "inst_ok (b_fail_threshold b) (failed (b_fail_threshold b) t s)"
    using inv inv_state [OF inv s] by (intro failed_ok) (simp_all add: bal_inv_def)
  ultimately show ?thesis using inv_update [OF inv s] by simp
qed

lemma inv_init: "0 < th \<Longrightarrow> bal_inv (balancer_init urls th cd)"
  by (auto simp: bal_inv_def balancer_init_def keys_dict_of_pairs image_image dict_all_iff
      fresh_state_ok dest!: map_of_SomeD)

lemma refresh_urls: "b_urls (refresh us b) = (if us = [] then b_urls b else from_keys us)"
  by (simp add: refresh_def Let_def)

lemma refresh_states:
  "urls \<noteq> [] \<Longrightarrow> map_of (b_states (refresh urls b)) u =
     (if u \<in> set urls then Some (dict_get fresh_state u (b_states b)) else None)"
  by (simp add: refresh_def Let_def map_of_map_restrict restrict_map_def)

lemma inv_refresh: "bal_inv b \<Longrightarrow> bal_inv (refresh urls b)"
proof (cases "urls = []")
  case True
  assume "bal_inv b"
  with True show ?thesis by (simp add: refresh_def)
next
  case False
  assume inv: "bal_inv b"
  have "inst_ok (b_fail_threshold b) (dict_get fresh_state u (b_states b))" for u
    using inv_state [OF inv] inv
    by (auto simp: dict_get_def bal_inv_def fresh_state_ok split: option.splits)
  then show ?thesis using False inv
    by (auto simp: refresh_def Let_def bal_inv_def dict_ok_def comp_def list_all_iff image_image)
qed

subsection \<open>Selection\<close>

lemma is_available_rr [simp]: "is_available now (b\<lparr>b_rr := r\<rparr>) u = is_available now b u"
  by (simp add: is_available_def split: option.split)

lemma first_index: "P (p::nat) \<Longrightarrow> \<exists>i\<le>p. P i \<and> (\<forall>j<i. \<not> P j)"
  by (metis LeastI Least_le not_less_Least)

lemma next_loop_first:
  assumes "0 < length (b_urls b)" "j < k"
    and "is_available now b (b_urls b ! ((b_rr b + j) mod length (b_urls b))) = Some True"
    and "\<And>i. i < j \<Longrightarrow> is_available now b (b_urls b ! ((b_rr b + i) mod length (b_urls b))) = Some False"
  shows "next_loop reg k now b =
           (Inr (b_urls b ! ((b_rr b + j) mod length (b_urls b))),
            b\<lparr>b_rr := (b_rr b + Suc j) mod length (b_urls b)\<rparr>)"
  using assms
proof (induction k arbitrary: b j)
  case (Suc k)
  let ?n = "length (b_urls b)" and ?b' = "b\<lparr>b_rr := Suc (b_rr b) mod length (b_urls b)\<rparr>"
  show ?case
  proof (cases j)
    case 0
    with Suc.prems show ?thesis by simp
  next
    case (Suc j')
    have shift: "(Suc (b_rr b) mod ?n + i) mod ?n = (b_rr b + Suc i) mod ?n" for i
      by (simp add: mod_add_left_eq)
    have shift2: "Suc (Suc (b_rr b) mod ?n + j') mod ?n = Suc (Suc (b_rr b + j')) mod ?n"
      using shift [of "Suc j'"] by simp
    have "is_available now b (b_urls b ! (b_rr b mod ?n)) = Some False"
      using Suc.prems(4) [of 0] Suc by simp
    moreover have "next_loop reg k now ?b' =
        (Inr (b_urls b ! ((b_rr b + j) mod ?n)), ?b'\<lparr>b_rr := (b_rr b + Suc j) mod ?n\<rparr>)"
      using Suc.IH [of ?b' j'] Suc.prems Suc Suc.prems(4) [of "Suc i" for i]
      by (simp add: shift shift2)
    ultimately show ?thesis using Suc.prems(1) by simp
  qed
qed simp

lemma next_loop_none:
  assumes "0 < length (b_urls b)" "b_rr b < length (b_urls b)"
    and "\<And>i. i < k \<Longrightarrow> is_available now b (b_urls b ! ((b_rr b + i) mod length (b_urls b))) = Some False"
  shows "\<exists>msg. next_loop reg k now b =
           (Inl (all_down reg msg), b\<lparr>b_rr := (b_rr b + k) mod length (b_urls b)\<rparr>)"
  using assms
proof (induction k arbitrary: b)
  case 0
  then show ?case by auto
next
  case (Suc k)
  let ?n = "length (b_urls b)" and ?b' = "b\<lparr>b_rr := Suc (b_rr b) mod length (b_urls b)\<rparr>"
  have shift: "(Suc (b_rr b) mod ?n + i) mod ?n = (b_rr b + Suc i) mod ?n" for i
    by (simp add: mod_add_left_eq)
  have "\<exists>msg. next_loop reg k now ?b' = (Inl (all_down reg msg), ?b'\<lparr>b_rr := (b_rr b + Suc k) mod ?n\<rparr>)"
    using Suc.IH [of ?b'] Suc.prems(1) Suc.prems(3) [of "Suc i" for i] by (simp add: shift)
  moreover have "is_available now b (b_urls b ! (b_rr b mod ?n)) = Some False"
    using Suc.prems(3) [of 0] by simp
  ultimately show ?case using Suc.prems(1) by simp
qed

lemma available_known:
  "bal_inv b \<Longrightarrow> u \<in> set (b_urls b) \<Longrightarrow> is_available now b u \<noteq> None"
  using inv_known [of b u] by (auto simp: is_available_def)

lemma next_url_cases:
  assumes inv: "bal_inv b" and ne: "b_urls b \<noteq> []"
  defines "n \<equiv> length (b_urls b)"
  defines "pick \<equiv> \<lambda>j. b_urls b ! ((b_rr b + j) mod n)"
  shows "(\<exists>j<n. next_url reg now b = (Inr (pick j), b\<lparr>b_rr := (b_rr b + Suc j) mod n\<rparr>)
              \<and> is_available now b (pick j) = Some True
              \<and> (\<forall>i<j. is_available now b (pick i) = Some False))
       \<or> (\<exists>msg. next_url reg now b = (Inl (all_down reg msg), b))
           \<and> (\<forall>i<n. is_available now b (pick i) = Some False)"
proof -
  have n: "0 < n" and rr: "b_rr b < n" using inv ne by (simp_all add: n_def bal_inv_def)
  have "pick i \<in> set (b_urls b)" for i using n by (simp add: pick_def n_def)
  then have nn: "is_available now b (pick i) \<noteq> Some True \<Longrightarrow> is_available now b (pick i) = Some False" for i
    using available_known [OF inv] by (metis (full_types) not_Some_eq)
  show ?thesis
  proof (cases "\<exists>p<n. is_available now b (pick p) = Some True")
    case True
    then obtain p where "p < n" "is_available now b (pick p) = Some True" by blast
    then obtain j where j: "j < n" "is_available now b (pick j) = Some True"
      "\<forall>i<j. is_available now b (pick i) \<noteq> Some True"
      using first_index [of "\<lambda>i. is_available now b (pick i) = Some True" p] by (auto intro: le_less_trans)
    then have "next_url reg now b = (Inr (pick j), b\<lparr>b_rr := (b_rr b + Suc j) mod n\<rparr>)"
      unfolding next_url_def pick_def n_def
      by (intro next_loop_first) (use n nn in \<open>auto simp: pick_def n_def\<close>)
    with j nn show ?thesis by blast
  next
    case False
    then have F: "\<forall>i<n. is_available now b (pick i) = Some False" using nn by blast
    then have "\<exists>msg. next_loop reg n now b = (Inl (all_down reg msg), b\<lparr>b_rr := (b_rr b + n) mod n\<rparr>)"
      unfolding pick_def n_def by (intro next_loop_none) (use n rr in \<open>auto simp: n_def\<close>)
    then have "\<exists>msg. next_url reg now b = (Inl (all_down reg msg), b)"
      using rr by (auto simp: next_url_def n_def)
    with F show ?thesis by blast
  qed
qed

lemma inv_rr: "bal_inv b \<Longrightarrow> r < length (b_urls b) \<Longrightarrow> bal_inv (b\<lparr>b_rr := r\<rparr>)"
  by (simp add: bal_inv_def)

lemma inv_next_url: "bal_inv b \<Longrightarrow> bal_inv (snd (next_url reg now b))"
proof (cases "b_urls b = []")
  case True
  assume "bal_inv b"
  with True show ?thesis by (simp add: next_url_def)
next
  case False
  assume inv: "bal_inv b"
  show ?thesis using next_url_cases [OF inv False, of reg now] inv False by (auto intro!: inv_rr)
qed

subsection \<open>Failover\<close>

text \<open>An instance that may be selected from time \<open>T\<close> on, unless a failure is recorded for it.\<close>

definition ready :: "real \<Rightarrow> balancer \<Rightarrow> string \<Rightarrow> bool" where
  "ready T b u \<longleftrightarrow>
     (case map_of (b_states b) u of
        None \<Rightarrow> False
      | Some s \<Rightarrow> healthy s \<or> (case down_since s of None \<Rightarrow> False | Some d \<Rightarrow> b_cooldown b \<le> T - d))"

lemma ready_available: "ready T b u \<Longrightarrow> T \<le> now \<Longrightarrow> is_available now b u = Some True"
  by (auto simp: ready_def is_available_def split: option.splits)

lemma ready_rr [simp]: "ready T (b\<lparr>b_rr := r\<rparr>) u = ready T b u"
  by (simp add: ready_def split: option.split)

lemma record_failure_frame:
  assumes "record_failure t v b = Some b'"
  shows "b_urls b' = b_urls b" "b_rr b' = b_rr b" "b_cooldown b' = b_cooldown b"
    "u \<noteq> v \<Longrightarrow> ready T b' u = ready T b u"
  using assms by (auto simp: record_failure_def ready_def split: option.splits)

lemma record_known:
  "bal_inv b \<Longrightarrow> u \<in> set (b_urls b) \<Longrightarrow>
     (\<exists>b'. record_failure t u b = Some b') \<and> (\<exists>b'. record_success u b = Some b')"
  using inv_known [of b u] by (auto simp: record_failure_def record_success_def)

text \<open>A transport that raises nothing but \<open>HTTPError\<close>.\<close>

definition caught :: "transport \<Rightarrow> bool" where
  "caught tx \<longleftrightarrow> (\<forall>k rq e. snd (tx k rq) \<noteq> Uncaught e)"

lemma caughtD: "caught tx \<Longrightarrow> tx k rq = (t, Uncaught e) \<Longrightarrow> False"
  by (metis caught_def snd_conv)

lemma request_loop_reaches:
  fixes tx :: transport and r0 n p :: nat and urls :: "string list"
  assumes urls: "distinct urls" "n = length urls" "p < n"
  defines "pick \<equiv> \<lambda>j. urls ! ((r0 + j) mod n)"
  assumes tx: "\<And>k rq. T \<le> fst (tx k rq)" and calm: "caught tx"
    and good: "\<And>k. \<exists>r. snd (tx k (request_to q (pick p))) = Response r \<and> ur_status r < 500"
  shows "bal_inv b \<Longrightarrow> b_urls b = urls \<Longrightarrow> b_rr b = (r0 + off) mod n \<Longrightarrow> off \<le> p \<Longrightarrow> p - off < m \<Longrightarrow>
     set tried \<subseteq> pick ` {..<off} \<Longrightarrow> ready T b (pick p) \<Longrightarrow> T \<le> now \<Longrightarrow>
     \<exists>r b'. request_loop reg tx q m k now tried err b = (Inr r, b') \<and> ur_status r < 500"
proof (induction m arbitrary: k now tried err b off)
  case 0
  then show ?case by simp
next
  case (Suc m)
  have n: "0 < n" using urls(3) by simp
  have ne: "b_urls b \<noteq> []" using Suc.prems(2) urls n by auto
  let ?at = "\<lambda>j. b_urls b ! ((b_rr b + j) mod length (b_urls b))"
  have at_eq: "?at j = pick (off + j)" for j
    using Suc.prems(2,3) urls(2) by (simp add: pick_def mod_add_left_eq add.assoc)
  have inj: "i = j" if "pick i = pick j" "i < n" "j < n" for i j
    using that urls n by (auto simp: pick_def nth_eq_iff_index_eq intro: mod_window_inj)
  have avp: "is_available now b (pick p) = Some True"
    using Suc.prems(7,8) by (rule ready_available)
  have "?at (p - off) = pick p" using at_eq [of "p - off"] Suc.prems(4) by simp
  moreover have "p - off < length (b_urls b)" using urls Suc.prems(2) by simp
  ultimately have "\<not> (\<forall>i<length (b_urls b). is_available now b (?at i) = Some False)"
    using avp by (metis option.inject)
  then obtain j where j: "next_url reg now b = (Inr (?at j), b\<lparr>b_rr := (b_rr b + Suc j) mod length (b_urls b)\<rparr>)"
    "\<forall>i<j. is_available now b (?at i) = Some False" "j < length (b_urls b)"
    using next_url_cases [OF Suc.prems(1) ne, of reg now] by blast
  have jp: "off + j \<le> p"
  proof (rule ccontr)
    assume "\<not> off + j \<le> p"
    then have "p - off < j" using Suc.prems(4) by arith
    then have "is_available now b (?at (p - off)) = Some False" using j(2) by blast
    then show False using avp at_eq [of "p - off"] Suc.prems(4) by simp
  qed
  let ?b1 = "b\<lparr>b_rr := (b_rr b + Suc j) mod length (b_urls b)\<rparr>" and ?u = "pick (off + j)"
  have b1: "bal_inv ?b1" using inv_next_url [OF Suc.prems(1), of reg now] j(1) by simp
  have in_pool: "?u \<in> set (b_urls ?b1)" using urls n Suc.prems(2) by (simp add: pick_def)
  have fresh: "?u \<notin> set tried"
    using Suc.prems(6) inj [of "off + j"] jp urls(3) by fastforce
  obtain t res where tres: "tx k (request_to q ?u) = (t, res)" by fastforce
  have t: "T \<le> t" using tx [of k "request_to q ?u"] tres by simp
  show ?case
  proof (cases "\<exists>r. res = Response r \<and> ur_status r < 500")
    case True
    then obtain r where r: "res = Response r" "ur_status r < 500" by blast
    obtain b2 where "record_success ?u ?b1 = Some b2" using record_known [OF b1 in_pool] by blast
    then show ?thesis using j(1) at_eq fresh tres r by simp
  next
    case False
    then have ne_p: "off + j \<noteq> p" using good [of k] tres by auto
    then have lt: "off + Suc j \<le> p" using jp by simp
    obtain b2 where b2: "record_failure t ?u ?b1 = Some b2" using record_known [OF b1 in_pool] by blast
    have "pick p \<noteq> ?u" using inj [of p "off + j"] ne_p jp urls(3) by auto
    then have "ready T b2 (pick p)"
      using record_failure_frame(4) [OF b2] Suc.prems(7) by simp
    moreover have "bal_inv b2" using inv_record_failure [OF b1 b2] .
    moreover have "b_urls b2 = urls" "b_rr b2 = (r0 + (off + Suc j)) mod n"
      using record_failure_frame(1,2) [OF b2] Suc.prems(2,3) urls(2)
      by (simp_all add: mod_add_left_eq add.assoc del: add_Suc_right)
    moreover have "set (?u # tried) \<subseteq> pick ` {..<off + Suc j}"
      using Suc.prems(6) by auto
    ultimately have "\<exists>r b'. request_loop reg tx q m (Suc k) t (?u # tried) e b2 = (Inr r, b') \<and> ur_status r < 500" for e
      using Suc.IH [of b2 "off + Suc j" "?u # tried" t "Suc k" e] lt Suc.prems(5) t by simp
    then show ?thesis using j(1) at_eq fresh tres b2 False
      by (cases res) (auto simp: not_less dest: caughtD [OF calm])
  qed
qed

lemma request_loop_Inr:
  "bal_inv b \<Longrightarrow> request_loop reg tx q m k now tried err b = (Inr r, b') \<Longrightarrow>
     ur_status r < 500 \<and> (\<exists>u \<in> set (b_urls b). map_of (ur_headers r) ''x-upstream'' = Some u)"
proof (induction m arbitrary: k now tried err b)
  case 0
  then show ?case by simp
next
  case (Suc m)
  obtain e b1 where nx: "next_url reg now b = (e, b1)" by fastforce
  then obtain u where e: "e = Inr u" using Suc.prems(2) by (cases e) auto
  have ne: "b_urls b \<noteq> []" using nx e by (auto simp: next_url_def)
  then have u: "u \<in> set (b_urls b)" and b1: "b_urls b1 = b_urls b"
    using next_url_cases [OF Suc.prems(1), of reg now] nx e by auto
  have inv: "bal_inv b1" using inv_next_url [OF Suc.prems(1), of reg now] nx by simp
  have nt: "u \<notin> set tried" using Suc.prems(2) nx e by (auto split: if_splits)
  obtain t res where tr: "tx k (request_to q u) = (t, res)" by fastforce
  obtain b2 where b2: "record_failure t u b1 = Some b2" using record_known [OF inv] u b1 by metis
  obtain b3 where b3: "record_success u b1 = Some b3" using record_known [OF inv] u b1 by metis
  have inv2: "bal_inv b2" "b_urls b2 = b_urls b"
    using inv_record_failure [OF inv b2] record_failure_frame(1) [OF b2] b1 by auto
  show ?case using Suc.prems(2) nx e nt tr b2 b3 u Suc.IH [OF inv2(1)] inv2(2)
    by (auto split: http_result.splits if_splits)
qed

lemma failover_complete_for:
  fixes tx :: transport
  assumes inv: "bal_inv b" and d: "distinct (b_urls b)" and u: "u \<in> set (b_urls b)"
    and rd: "ready now b u" and clock: "\<And>k rq. now \<le> fst (tx k rq)" and calm: "caught tx"
    and good: "\<And>k. \<exists>r. snd (tx k (request_to q u)) = Response r \<and> ur_status r < 500"
  shows "\<exists>r b' v. balancer_request reg tx now q b = (Inr r, b') \<and> ur_status r < 500
     \<and> v \<in> set (b_urls b) \<and> map_of (ur_headers r) ''x-upstream'' = Some v"
proof -
  let ?n = "length (b_urls b)"
  from u have n: "0 < ?n" by (cases "b_urls b") auto
  obtain i where i: "i < ?n" "b_urls b ! i = u" using u by (metis in_set_conv_nth)
  then have "i \<in> (\<lambda>j. (b_rr b + j) mod ?n) ` {0..<?n}" using mod_window [OF n, of "b_rr b"] by simp
  then obtain p where p: "p < ?n" "(b_rr b + p) mod ?n = i" by (auto simp only: atLeastLessThan_iff)
  have rr: "b_rr b < ?n" using inv n by (simp add: bal_inv_def)
  have u_at: "b_urls b ! ((b_rr b + p) mod ?n) = u" using i(2) p(2) by simp
  have "\<exists>r b'. request_loop reg tx q ?n 0 now [] None b = (Inr r, b') \<and> ur_status r < 500"
  proof (rule request_loop_reaches [where T = now and off = 0 and p = p and ?r0.0 = "b_rr b"
        and urls = "b_urls b" and n = ?n])
    show "\<exists>r. snd (tx k (request_to q (b_urls b ! ((b_rr b + p) mod ?n)))) = Response r \<and> ur_status r < 500"
      for k unfolding u_at by (rule good)
    show "ready now b (b_urls b ! ((b_rr b + p) mod ?n))" unfolding u_at by (rule rd)
    show "b_rr b = (b_rr b + 0) mod ?n" using rr by simp
  qed (use d clock inv p(1) calm in simp_all)
  then obtain r b' where *: "balancer_request reg tx now q b = (Inr r, b')" "ur_status r < 500"
    unfolding balancer_request_def by blast
  from request_loop_Inr [OF inv *(1) [unfolded balancer_request_def]] * show ?thesis by blast
qed


definition two_hosts :: balancer where
  "two_hosts = balancer_init [''http://a'', ''http://b''] 3 30"

definition only_b :: transport where
  "only_b k rq = (if starts_with ''http://b'' (hr_url rq)
                  then (1, Response \<lparr>ur_status = 200, ur_headers = [], ur_content = ''ok''\<rparr>)
                  else (1, HTTPError ''connection refused''))"

definition get_users :: outgoing where
  "get_users = \<lparr>out_method = ''GET'', out_path = ''api/v1/users'', out_headers = [], out_content = None\<rparr>"

lemma two_hosts_inv: "bal_inv two_hosts"
  by (simp add: two_hosts_def inv_init)

lemma two_hosts_fields [simp]:
  "b_urls two_hosts = [''http://a'', ''http://b'']" "b_fail_threshold two_hosts = 3"
  "b_cooldown two_hosts = 30"
  "b_states two_hosts = [(''http://a'', fresh_state), (''http://b'', fresh_state)]"
  by (simp_all add: two_hosts_def balancer_init_def)


lemma next_url_exn: "bal_inv b \<Longrightarrow> next_url reg now b = (Inl e, b') \<Longrightarrow> \<exists>msg. e = all_down reg msg"
proof (cases "b_urls b = []")
  case True
  assume "next_url reg now b = (Inl e, b')"
  with True show ?thesis by (auto simp: next_url_def)
next
  case False
  assume "bal_inv b" "next_url reg now b = (Inl e, b')"
  with next_url_cases [OF _ False, of reg now] show ?thesis by fastforce
qed

lemma request_loop_inv:
  "bal_inv b \<Longrightarrow> request_loop reg tx q m k now tried err b = (res, b') \<Longrightarrow>
     bal_inv b' \<and> b_urls b' = b_urls b \<and>
     (\<forall>e. res = Inl e \<longrightarrow> (\<exists>msg. e = all_down reg msg) \<or> (\<exists>i rq. snd (tx i rq) = Uncaught e))"
proof (induction m arbitrary: k now tried err b)
  case 0
  then show ?case by (auto simp: exhausted_def)
next
  case (Suc m)
  obtain x b1 where nx: "next_url reg now b = (x, b1)" by fastforce
  have inv: "bal_inv b1" using inv_next_url [OF Suc.prems(1), of reg now] nx by simp
  have b1: "b_urls b1 = b_urls b \<and> (\<forall>u. x = Inr u \<longrightarrow> u \<in> set (b_urls b))"
    using next_url_cases [OF Suc.prems(1), of reg now] nx
    by (cases "b_urls b = []") (auto simp: next_url_def)
  show ?case
  proof (cases x)
    case (Inl e)
    with Suc.prems nx inv b1 next_url_exn [OF Suc.prems(1)] show ?thesis by auto
  next
    case (Inr u)
    obtain t r where tr: "tx k (request_to q u) = (t, r)" by fastforce
    obtain b2 where b2: "record_failure t u b1 = Some b2" using record_known [OF inv] b1 Inr by metis
    obtain b3 where b3: "record_success u b1 = Some b3" using record_known [OF inv] b1 Inr by metis
    have inv2: "bal_inv b2" "b_urls b2 = b_urls b"
      using inv_record_failure [OF inv b2] record_failure_frame(1) [OF b2] b1 by auto
    have inv3: "bal_inv b3" "b_urls b3 = b_urls b"
      using inv_record_success [OF inv b3] b3 b1 by (auto simp: record_success_def split: option.splits)
    have un: "\<exists>i rq. snd (tx i rq) = Uncaught e" if "r = Uncaught e" for e
      using tr that by (intro exI [of _ k] exI [of _ "request_to q u"]) simp
    show ?thesis
    proof (cases r)
      case (Uncaught e)
      then show ?thesis using Suc.prems nx Inr tr b1 inv un by (auto simp: exhausted_def split: if_splits)
    qed (use Suc.prems nx Inr tr b2 b3 b1 inv Suc.IH [OF inv2(1)] inv2(2) inv3 in \<open>auto simp: exhausted_def split: if_splits\<close>)
  qed
qed

text \<open>A proxied request keeps the pool's invariant, and the only exception it can end with is the
  downstream error or one the transport raised that is no \<open>HTTPError\<close> (never a \<open>KeyError\<close> or a
  \<open>StopIteration\<close> of the balancer's own), as long as the pool is not refreshed meanwhile.\<close>

theorem request_errors:
  assumes "bal_inv b" "balancer_request reg tx now q b = (res, b')"
  shows "bal_inv b' \<and> (\<forall>e. res = Inl e \<longrightarrow> (\<exists>msg. e = all_down reg msg) \<or> (\<exists>i rq. snd (tx i rq) = Uncaught e))"
  using request_loop_inv [OF assms(1)] assms(2) by (auto simp: balancer_request_def)

lemma request_errors_for:
  assumes "bal_inv b" "caught tx" "balancer_request reg tx now q b = (res, b')"
  shows "bal_inv b' \<and> (\<forall>e. res = Inl e \<longrightarrow> (\<exists>msg. e = all_down reg msg))"
  using request_loop_inv [OF assms(1)] assms(2,3) unfolding balancer_request_def caught_def by blast

text \<open>An exception that is no \<open>HTTPError\<close> ends the request at once: no other instance is tried and nothing is
  recorded against the one that was.\<close>

lemma uncaught_ends_request:
  assumes "next_url reg now b = (Inr url, b1)" "b_urls b \<noteq> []" "tx 0 (request_to q url) = (t, Uncaught e)"
  shows "balancer_request reg tx now q b = (Inl e, b1)"
  using assms by (cases "b_urls b") (simp_all add: balancer_request_def)

lemma request_errors_witness:
  "bal_inv (snd (balancer_request builtin_registry only_b 0 get_users two_hosts))"
  using request_errors [OF two_hosts_inv surjective_pairing] by blast

subsection \<open>The circuit breaker\<close>

text \<open>Failures of one instance recorded at the times \<open>ts\<close>, with no success in between.\<close>

fun fail_at :: "string \<Rightarrow> real list \<Rightarrow> balancer \<Rightarrow> balancer option" where
  "fail_at u [] b = Some b"
| "fail_at u (t # ts) b = (case record_failure t u b of None \<Rightarrow> None | Some b' \<Rightarrow> fail_at u ts b')"

lemma fail_at_state:
  "bal_inv b \<Longrightarrow> map_of (b_states b) u = Some s \<Longrightarrow>
     \<exists>b'. fail_at u ts b = Some b' \<and> b_cooldown b' = b_cooldown b \<and>
       (\<exists>s'. map_of (b_states b') u = Some s' \<and>
          (if fails s + length ts < b_fail_threshold b then healthy s'
           else \<not> healthy s' \<and> (ts \<noteq> [] \<longrightarrow> down_since s' = Some (last ts))))"
proof (induction ts arbitrary: b s)
  case Nil
  then show ?case using inv_state [OF Nil] by (auto simp: inst_ok_def split: if_splits)
next
  case (Cons t ts)
  have u: "u \<in> set (b_urls b)" using inv_known [OF Cons.prems(1)] Cons.prems(2) by blast
  obtain b1 where b1: "record_failure t u b = Some b1" using record_known [OF Cons.prems(1) u] by blast
  have inv: "bal_inv b1" using inv_record_failure [OF Cons.prems(1) b1] .
  have s1: "map_of (b_states b1) u = Some (failed (b_fail_threshold b) t s)"
    "b_cooldown b1 = b_cooldown b" "b_fail_threshold b1 = b_fail_threshold b"
    using b1 Cons.prems(2) by (auto simp: record_failure_def)
  have f1: "fails (failed (b_fail_threshold b) t s) = Suc (fails s)"
    by (simp add: failed_def Let_def)
  show ?case
  proof (cases ts)
    case Nil
    then show ?thesis using b1 s1 inv_state [OF inv s1(1)] inv_state [OF Cons.prems]
      by (auto simp: inst_ok_def failed_def Let_def split: if_splits)
  next
    case (Cons t' ts')
    then have "last (t # ts) = last ts" "ts \<noteq> []" by simp_all
    moreover have "Suc (fails s) + length ts = fails s + length (t # ts)" by simp
    ultimately show ?thesis using Cons.IH [OF inv s1(1)] b1 s1(2,3) f1
      by (simp only: fail_at.simps option.case simp_thms) (auto split: if_splits)
  qed
qed



subsection \<open>Selection\<close>

text \<open>The next instance is the first available one in round-robin order after the last one chosen,
  and the index moves just past it; only if no instance is available is there an error, and then
  the pool is unchanged.\<close>

theorem round_robin_selection:
  assumes "bal_inv b" "b_urls b \<noteq> []"
  defines "n \<equiv> length (b_urls b)"
  defines "pick \<equiv> \<lambda>j. b_urls b ! ((b_rr b + j) mod n)"
  shows "(\<exists>j<n. next_url reg now b = (Inr (pick j), b\<lparr>b_rr := (b_rr b + Suc j) mod n\<rparr>)
            \<and> is_available now b (pick j) = Some True \<and> (\<forall>i<j. is_available now b (pick i) = Some False))
       \<or> (\<exists>msg. next_url reg now b = (Inl (all_down reg msg), b)) \<and> (\<forall>i<n. is_available now b (pick i) = Some False)"
  using next_url_cases [OF assms(1,2), of reg now] unfolding n_def pick_def by blast

lemma round_robin_selection_witness:
  "\<forall>e. fst (next_url builtin_registry 0 two_hosts) \<noteq> Inl e"
  using round_robin_selection [OF two_hosts_inv, of builtin_registry 0]
  by (auto simp: is_available_def two_hosts_def balancer_init_def fresh_state_def)

fun select :: "registry \<Rightarrow> real \<Rightarrow> nat \<Rightarrow> balancer \<Rightarrow> string list" where
  "select reg now 0 b = []"
| "select reg now (Suc k) b =
     (case next_url reg now b of (Inl e, b') \<Rightarrow> [] | (Inr u, b') \<Rightarrow> u # select reg now k b')"

lemma select_all_healthy:
  assumes "bal_inv b" "b_urls b \<noteq> []" "\<forall>u \<in> set (b_urls b). is_available now b u = Some True"
  shows "select reg now k b = map (\<lambda>j. b_urls b ! ((b_rr b + j) mod length (b_urls b))) [0..<k]"
  using assms
proof (induction k arbitrary: b)
  case 0
  then show ?case by simp
next
  case (Suc k)
  let ?n = "length (b_urls b)"
  let ?b = "b\<lparr>b_rr := (b_rr b + 1) mod ?n\<rparr>"
  have n: "0 < ?n" using Suc.prems(2) by simp
  have av: "is_available now b (b_urls b ! (i mod ?n)) = Some True" for i
    using Suc.prems(3) n by simp
  have "next_url reg now b = (Inr (b_urls b ! (b_rr b mod ?n)), ?b)"
    using next_url_cases [OF Suc.prems(1,2), of reg now] av n
    by (metis Suc_eq_plus1 add.right_neutral add_0 option.inject gr0_conv_Suc not_gr_zero)
  moreover have "select reg now k ?b = map (\<lambda>j. b_urls b ! ((b_rr b + Suc j) mod ?n)) [0..<k]"
    using Suc.IH [of ?b] Suc.prems n inv_rr [OF Suc.prems(1)]
    by (simp add: mod_add_left_eq)
  moreover have "[0..<Suc k] = 0 # map Suc [0..<k]" by (simp add: upt_conv_Cons map_Suc_upt del: upt_Suc)
  ultimately show ?case by (simp del: upt_Suc)
qed

text \<open>With all instances healthy the load is even: any run of as many selections as there are
  URLs hits each URL of the pool exactly as often as it is listed.\<close>

theorem round_robin_fair:
  assumes "bal_inv b" "\<forall>u \<in> set (b_urls b). is_available now b u = Some True"
  shows "mset (select reg now (length (b_urls b)) b) = mset (b_urls b)"
proof (cases "b_urls b = []")
  case True
  then show ?thesis by simp
next
  case False
  let ?n = "length (b_urls b)"
  have n: "0 < ?n" using False by simp
  have inj: "inj_on (\<lambda>j. (b_rr b + j) mod ?n) {0..<?n}"
    by (rule inj_onI) (use mod_window_inj n in auto)
  have "mset (map (\<lambda>j. (b_rr b + j) mod ?n) [0..<?n]) = mset [0..<?n]"
    using inj mod_window [OF n, of "b_rr b"]
    by (metis atLeastLessThan_upt distinct_map distinct_upt set_eq_iff_mset_eq_distinct list.set_map)
  then have "image_mset (\<lambda>i. b_urls b ! i) (mset (map (\<lambda>j. (b_rr b + j) mod ?n) [0..<?n]))
      = image_mset (\<lambda>i. b_urls b ! i) (mset [0..<?n])" by simp
  then have "mset (map (\<lambda>j. b_urls b ! ((b_rr b + j) mod ?n)) [0..<?n]) = mset (map (\<lambda>i. b_urls b ! i) [0..<?n])"
    by (simp only: mset_map [symmetric] map_map comp_def)
  then show ?thesis using select_all_healthy [OF assms(1) False assms(2)] by (simp add: map_nth)
qed

lemma round_robin_fair_witness:
  "mset (select builtin_registry 0 2 two_hosts) = mset [''http://a'', ''http://b'']"
  using round_robin_fair [OF two_hosts_inv, of 0 builtin_registry]
  by (simp add: is_available_def fresh_state_def numeral_2_eq_2 del: select.simps)

text \<open>The constructor, unlike \<open>refresh\<close>, keeps duplicate URLs, and a duplicate ends the failover
  early: with the pool \<open>a, a, b\<close> and \<open>a\<close> failing, the second choice is \<open>a\<close> again and the request
  fails although \<open>b\<close> is healthy and whatever it would answer.\<close>

theorem duplicates_defeat_failover:
  assumes "a \<noteq> c" "1 < th" "tx 0 (request_to q a) = (t, HTTPError msg)"
  shows "fst (balancer_request reg tx now q (balancer_init [a, a, c] th cd)) = Inl (exhausted reg (Some msg))"
proof -
  let ?s1 = "\<lparr>healthy = True, fails = 1, down_since = None\<rparr>"
  let ?b = "balancer_init [a, a, c] th cd"
  let ?b1 = "\<lparr>b_urls = [a, a, c], b_fail_threshold = th, b_cooldown = cd,
              b_states = [(a, ?s1), (c, fresh_state)], b_rr = 1\<rparr>"
  have st: "dict_of_pairs (map (\<lambda>u. (u, fresh_state)) [a, a, c]) = [(a, fresh_state), (c, fresh_state)]"
    using assms(1) by (simp add: dict_of_pairs_def)
  have b0: "?b = \<lparr>b_urls = [a, a, c], b_fail_threshold = th, b_cooldown = cd,
              b_states = [(a, fresh_state), (c, fresh_state)], b_rr = 0\<rparr>"
    unfolding balancer_init_def st by simp
  have 1: "next_url reg now ?b = (Inr a, ?b\<lparr>b_rr := 1\<rparr>)"
    by (simp add: next_url_def b0 is_available_def fresh_state_def)
  have 2: "record_failure t a (?b\<lparr>b_rr := 1\<rparr>) = Some ?b1"
    using assms(1,2) by (simp add: record_failure_def b0 failed_def Let_def) (simp add: fresh_state_def)
  have 3: "next_url reg t ?b1 = (Inr a, ?b1\<lparr>b_rr := 2\<rparr>)"
    by (simp add: next_url_def is_available_def)
  have "length (b_urls ?b) = Suc (Suc (Suc 0))" by (simp add: balancer_init_def)
  then show ?thesis unfolding balancer_request_def
    by (simp only: request_loop.simps 1 2 3 assms(3) prod.case sum.case http_result.case option.case fst_conv)
      simp
qed

lemma duplicates_defeat_failover_witness:
  "fst (balancer_request builtin_registry only_b 0 get_users (balancer_init [''http://a'', ''http://a'', ''http://b''] 3 30))
     = Inl (exhausted builtin_registry (Some ''connection refused''))"
  by (rule duplicates_defeat_failover)
    (simp_all add: only_b_def request_to_def get_users_def join_url_def rstrip_char_def)

text \<open>A refresh keeps the health record of each instance that stays, starts each new one as
  healthy, drops the others, removes duplicates, and does nothing on an empty list.\<close>

theorem refresh_pool:
  "if us = [] then refresh us b = b
   else b_urls (refresh us b) = from_keys us \<and> b_rr (refresh us b) = 0 \<and>
     map_of (b_states (refresh us b)) u =
       (if u \<in> set us then Some (case map_of (b_states b) u of Some s \<Rightarrow> s | None \<Rightarrow> fresh_state) else None)"
  by (simp add: refresh_states dict_get_def) (simp add: refresh_def Let_def)

end
