(* ===== verification/Registry.thy ===== *)
theory Registry
  imports Balancer
begin

section \<open>The service registry: kernel/registry.py\<close>

text \<open>
  The interface (locale \<open>service_registry\<close>), the in-process registry, the Redis registry over a client
  that is an argument, the heartbeat, and the gateway's discovery step. Points in time are clock
  readings in seconds.
\<close>

subsection \<open>The heartbeat\<close>

text \<open>\<open>run_heartbeat\<close> by its rounds: the clock reading of each, and whether \<open>register\<close> succeeded. A round whose
  \<open>register\<close> raises is logged and changes nothing.\<close>

fun run_heartbeat ::
  "(real \<Rightarrow> string \<Rightarrow> string \<Rightarrow> string \<Rightarrow> real \<Rightarrow> 's \<Rightarrow> 's) \<Rightarrow> string \<Rightarrow> string \<Rightarrow> string \<Rightarrow> real
     \<Rightarrow> (real \<times> bool) list \<Rightarrow> 's \<Rightarrow> 's" where
  "run_heartbeat register svc iid url ttl [] s = s"
| "run_heartbeat register svc iid url ttl ((t, reached) # rounds) s =
     run_heartbeat register svc iid url ttl rounds (if reached then register t svc iid url ttl s else s)"

definition beats :: "(real \<times> bool) list \<Rightarrow> real list" where
  "beats rounds = map fst (filter snd rounds)"

lemma beats_simps [simp]:
  "beats [] = []" "beats ((t, reached) # rounds) = (if reached then t # beats rounds else beats rounds)"
  by (simp_all add: beats_def)

subsection \<open>The interface\<close>

text \<open>
  \<open>live\<close> is the abstract registry: for a service and an instance the address and the time until which
  the registration holds. \<open>named\<close> and \<open>fits\<close> are the services, and the addresses with their times to live,
  that the implementation can hold.
\<close>

locale service_registry =
  fixes register :: "real \<Rightarrow> string \<Rightarrow> string \<Rightarrow> string \<Rightarrow> real \<Rightarrow> 's \<Rightarrow> 's"
    and deregister :: "string \<Rightarrow> string \<Rightarrow> 's \<Rightarrow> 's"
    and list_urls :: "real \<Rightarrow> string \<Rightarrow> 's \<Rightarrow> string list \<times> 's"
    and live :: "'s \<Rightarrow> string \<Rightarrow> string \<Rightarrow> (string \<times> real) option"
    and ok :: "'s \<Rightarrow> bool" and named :: "string \<Rightarrow> bool" and fits :: "string \<Rightarrow> real \<Rightarrow> bool"
  assumes register_live: "ok s \<Longrightarrow> named svc \<Longrightarrow> named svc' \<Longrightarrow> fits url ttl \<Longrightarrow>
        ok (register now svc iid url ttl s) \<and>
        live (register now svc iid url ttl s) svc' iid' =
          (if svc' = svc \<and> iid' = iid then Some (url, now + ttl) else live s svc' iid')"
    and deregister_live: "ok s \<Longrightarrow> named svc \<Longrightarrow> named svc' \<Longrightarrow> ok (deregister svc iid s) \<and>
        live (deregister svc iid s) svc' iid' = (if svc' = svc \<and> iid' = iid then None else live s svc' iid')"
    and list_live: "ok s \<Longrightarrow> named svc \<Longrightarrow>
        set (fst (list_urls now svc s)) = {u. \<exists>iid t. live s svc iid = Some (u, t) \<and> now \<le> t}"
    and list_keeps: "ok s \<Longrightarrow> named svc \<Longrightarrow> ok (snd (list_urls now svc s)) \<and>
        (live (snd (list_urls now svc s)) svc' iid = live s svc' iid \<or>
         live (snd (list_urls now svc s)) svc' iid = None \<and> (\<exists>u t. live s svc' iid = Some (u, t) \<and> t < now))"
begin

lemma listed_after_register:
  "ok s \<Longrightarrow> named svc \<Longrightarrow> fits url ttl \<Longrightarrow> now \<le> now0 + ttl \<Longrightarrow>
     url \<in> set (fst (list_urls now svc (register now0 svc iid url ttl s)))"
  using list_live [of "register now0 svc iid url ttl s" svc now] register_live [of s svc svc url ttl now0 iid iid]
  by auto

lemma beats_live:
  "ok s \<Longrightarrow> named svc \<Longrightarrow> fits url ttl \<Longrightarrow> ok (run_heartbeat register svc iid url ttl rounds s) \<and>
     live (run_heartbeat register svc iid url ttl rounds s) svc iid =
       (if beats rounds = [] then live s svc iid else Some (url, last (beats rounds) + ttl))"
proof (induction rounds arbitrary: s)
  case Nil
  then show ?case by simp
next
  case (Cons r rounds)
  obtain t reached where r: "r = (t, reached)" by fastforce
  have "ok (register t svc iid url ttl s)" "live (register t svc iid url ttl s) svc iid = Some (url, t + ttl)"
    using register_live [of s svc svc url ttl t iid iid] Cons.prems by simp_all
  then show ?case using Cons by (simp add: r)
qed

lemma beats_others:
  "ok s \<Longrightarrow> named svc \<Longrightarrow> fits url ttl \<Longrightarrow> i \<noteq> iid \<Longrightarrow>
     live (run_heartbeat register svc iid url ttl rounds s) svc i = live s svc i"
proof (induction rounds arbitrary: s)
  case (Cons r rounds)
  obtain t reached where r: "r = (t, reached)" by fastforce
  show ?case using Cons register_live [of s svc svc url ttl t iid] by (simp add: r)
qed simp

lemma heartbeat_keeps_listed:
  "ok s \<Longrightarrow> named svc \<Longrightarrow> fits url ttl \<Longrightarrow> beats rounds \<noteq> [] \<Longrightarrow> now \<le> last (beats rounds) + ttl \<Longrightarrow>
     url \<in> set (fst (list_urls now svc (run_heartbeat register svc iid url ttl rounds s)))"
  using beats_live [of s svc url ttl iid rounds] list_live [of "run_heartbeat register svc iid url ttl rounds s" svc now] by auto

lemma gone_after_ttl:
  assumes a: "ok s" "named svc" "fits url ttl" "beats rounds \<noteq> []" "last (beats rounds) + ttl < now"
    "\<forall>i. i \<noteq> iid \<longrightarrow> live s svc i = None"
  shows "fst (list_urls now svc (run_heartbeat register svc iid url ttl rounds s)) = []"
proof -
  let ?s = "run_heartbeat register svc iid url ttl rounds s"
  have "\<nexists>u t. live ?s svc i = Some (u, t) \<and> now \<le> t" for i
    using beats_live [OF a(1-3), of iid rounds] beats_others [OF a(1-3), of i iid rounds] a(4-6) by (cases "i = iid") auto
  then have "set (fst (list_urls now svc ?s)) = {}"
    using list_live [of ?s svc now] beats_live [OF a(1-3), of iid rounds] a(2) by auto
  then show ?thesis by simp
qed

text \<open>The gateway's view of a service after one of its instances has left.\<close>

lemma listed_without:
  assumes "ok s" "named svc" "live s svc iid = None" "url \<in> set (fst (list_urls now svc s))"
  shows "\<exists>i t. i \<noteq> iid \<and> live s svc i = Some (url, t) \<and> now \<le> t"
proof -
  obtain i t where "live s svc i = Some (url, t)" "now \<le> t"
    using assms(4) unfolding list_live [OF assms(1,2)] by blast
  then show ?thesis using assms(3) by (intro exI [of _ i] exI [of _ t]) auto
qed

end

text \<open>What closing a registry may do to the registrations: keep them or forget them.\<close>

locale closing_registry = service_registry register deregister list_urls live ok named fits
  for register :: "real \<Rightarrow> string \<Rightarrow> string \<Rightarrow> string \<Rightarrow> real \<Rightarrow> 's \<Rightarrow> 's"
    and deregister :: "string \<Rightarrow> string \<Rightarrow> 's \<Rightarrow> 's"
    and list_urls :: "real \<Rightarrow> string \<Rightarrow> 's \<Rightarrow> string list \<times> 's"
    and live :: "'s \<Rightarrow> string \<Rightarrow> string \<Rightarrow> (string \<times> real) option"
    and ok :: "'s \<Rightarrow> bool" and named :: "string \<Rightarrow> bool" and fits :: "string \<Rightarrow> real \<Rightarrow> bool" +
  fixes close_registry :: "'s \<Rightarrow> 's"
  assumes close_live: "ok s \<Longrightarrow> ok (close_registry s) \<and>
    (live (close_registry s) svc iid = live s svc iid \<or> live (close_registry s) svc iid = None)"

subsection \<open>The in-process registry\<close>

type_synonym local_registry = "(string, (string, string \<times> real) pydict) pydict"

definition local_register :: "real \<Rightarrow> string \<Rightarrow> string \<Rightarrow> string \<Rightarrow> real \<Rightarrow> local_registry \<Rightarrow> local_registry" where
  "local_register now service instance_id url ttl_seconds d =
     (let d' = dict_setdefault service [] d
      in AList.update service (AList.update instance_id (url, now + ttl_seconds) (dict_get [] service d')) d')"

definition local_deregister :: "string \<Rightarrow> string \<Rightarrow> local_registry \<Rightarrow> local_registry" where
  "local_deregister service instance_id d =
     (case map_of d service of
        None \<Rightarrow> d
      | Some bucket \<Rightarrow> AList.update service (AList.delete instance_id bucket) d)"

definition local_list :: "real \<Rightarrow> string \<Rightarrow> local_registry \<Rightarrow> string list \<times> local_registry" where
  "local_list now service d =
     (case map_of d service of
        None \<Rightarrow> ([], d)
      | Some bucket \<Rightarrow>
          (let expired = map fst (filter (\<lambda>(iid, url, until). until < now) bucket);
               bucket' = foldl (\<lambda>b iid. AList.delete iid b) bucket expired
           in (map (\<lambda>(iid, url, until). url) (filter (\<lambda>(iid, url, until). now \<le> until) bucket'),
               AList.update service bucket' d)))"

definition local_close :: "local_registry \<Rightarrow> local_registry" where
  "local_close d = []"

definition local_live :: "local_registry \<Rightarrow> string \<Rightarrow> string \<Rightarrow> (string \<times> real) option" where
  "local_live d service iid = map_of (dict_get [] service d) iid"

definition local_ok :: "local_registry \<Rightarrow> bool" where
  "local_ok d \<longleftrightarrow> (\<forall>service bucket. map_of d service = Some bucket \<longrightarrow> dict_ok bucket)"

lemma foldl_delete: "map_of (foldl (\<lambda>b i. AList.delete i b) d is) k = (if k \<in> set is then None else map_of d k)"
  by (induction "is" arbitrary: d) auto

lemma dict_ok_foldl_delete: "dict_ok d \<Longrightarrow> dict_ok (foldl (\<lambda>b i. AList.delete i b) d is)"
  by (induction "is" arbitrary: d) (auto intro: dict_intros)

lemma local_list_live:
  assumes "local_ok d"
  shows "set (fst (local_list now svc d)) = {u. \<exists>iid t. local_live d svc iid = Some (u, t) \<and> now \<le> t} \<and>
    local_ok (snd (local_list now svc d)) \<and>
    local_live (snd (local_list now svc d)) svc' iid =
      (case local_live d svc' iid of None \<Rightarrow> None | Some (u, t) \<Rightarrow> if svc' = svc \<and> t < now then None else Some (u, t))"
proof (cases "map_of d svc")
  case None
  then show ?thesis
    using assms by (auto simp: local_list_def local_live_def dict_get_def split: option.split)
next
  case (Some bucket)
  have ok: "dict_ok bucket" using assms Some by (simp add: local_ok_def)
  define expired where "expired = map fst (filter (\<lambda>(iid, url, until). until < now) bucket)"
  define b where "b = foldl (\<lambda>b iid. AList.delete iid b) bucket expired"
  have in_bucket: "(i, u, t) \<in> set bucket \<longleftrightarrow> map_of bucket i = Some (u, t)" for i u t
    using dict_map_of_in [OF ok] .
  have exp: "i \<in> set expired \<longleftrightarrow> (\<exists>u t. map_of bucket i = Some (u, t) \<and> t < now)" for i
    by (force simp: expired_def in_bucket [symmetric])
  have mb: "map_of b i = (case map_of bucket i of None \<Rightarrow> None | Some (u, t) \<Rightarrow> if t < now then None else Some (u, t))" for i
    using exp [of i] by (auto simp: b_def foldl_delete split: option.split)
  have okb: "dict_ok b" unfolding b_def by (rule dict_ok_foldl_delete [OF ok])
  have l: "local_list now svc d = (map (\<lambda>(iid, url, until). url) (filter (\<lambda>(iid, url, until). now \<le> until) b), AList.update svc b d)"
    using Some by (simp add: local_list_def b_def expired_def Let_def)
  have same: "map_of b i = Some (u, t) \<and> now \<le> t \<longleftrightarrow> local_live d svc i = Some (u, t) \<and> now \<le> t" for i u t
    using Some by (auto simp: mb local_live_def dict_get_def split: option.splits if_splits)
  have "set (fst (local_list now svc d)) = {u. \<exists>i t. (i, u, t) \<in> set b \<and> now \<le> t}"
    unfolding l by force
  also have "\<dots> = {u. \<exists>i t. map_of b i = Some (u, t) \<and> now \<le> t}"
    using dict_map_of_in [OF okb] by blast
  also have "\<dots> = {u. \<exists>i t. local_live d svc i = Some (u, t) \<and> now \<le> t}"
    by (simp only: same)
  finally have 1: "set (fst (local_list now svc d)) = {u. \<exists>i t. local_live d svc i = Some (u, t) \<and> now \<le> t}" .
  have 2: "local_ok (snd (local_list now svc d))"
    using assms okb unfolding l by (simp add: local_ok_def)
  have 3: "local_live (snd (local_list now svc d)) svc' iid =
      (case local_live d svc' iid of None \<Rightarrow> None | Some (u, t) \<Rightarrow> if svc' = svc \<and> t < now then None else Some (u, t))"
    using Some unfolding l by (auto simp: local_live_def dict_get_def mb split: option.split)
  show ?thesis using 1 2 3 by blast
qed

interpretation local: service_registry local_register local_deregister local_list local_live local_ok "\<lambda>svc. True" "\<lambda>url ttl. True"
proof unfold_locales
  show "local_ok (local_register now svc iid url ttl s) \<and>
      local_live (local_register now svc iid url ttl s) svc' iid' =
        (if svc' = svc \<and> iid' = iid then Some (url, now + ttl) else local_live s svc' iid')"
    if "local_ok s" for s now svc iid url ttl svc' iid'
    using that
    by (auto simp: local_register_def local_ok_def local_live_def Let_def dict_get_def dict_ok_def [of "[_]"] intro: dict_intros
        split: option.splits if_splits)
  show "local_ok (local_deregister svc iid s) \<and>
      local_live (local_deregister svc iid s) svc' iid' = (if svc' = svc \<and> iid' = iid then None else local_live s svc' iid')"
    if "local_ok s" for s svc iid svc' iid'
    using that
    by (auto simp: local_deregister_def local_ok_def local_live_def dict_get_def intro: dict_intros
        split: option.splits if_splits)
  show "local_ok (snd (local_list now svc s)) \<and>
      (local_live (snd (local_list now svc s)) svc' iid = local_live s svc' iid \<or>
       local_live (snd (local_list now svc s)) svc' iid = None \<and> (\<exists>u t. local_live s svc' iid = Some (u, t) \<and> t < now))"
    if "local_ok s" for s now svc svc' iid
    using local_list_live [OF that] by (auto split: option.splits)
qed (simp add: local_list_live)

interpretation local: closing_registry local_register local_deregister local_list local_live local_ok "\<lambda>svc. True" "\<lambda>url ttl. True" local_close
  by unfold_locales (simp add: local_close_def local_ok_def local_live_def dict_get_def)

subsection \<open>The Redis registry\<close>

text \<open>The client's commands, each run by the server at a time; \<open>scan\<close> yields the keys that match a pattern.\<close>

record 'r registry_client =
  rg_set :: "real \<Rightarrow> string \<Rightarrow> string \<Rightarrow> real \<Rightarrow> 'r \<Rightarrow> 'r"
  rg_delete :: "string \<Rightarrow> 'r \<Rightarrow> 'r"
  rg_get :: "real \<Rightarrow> string \<Rightarrow> 'r \<Rightarrow> string option"
  rg_scan :: "real \<Rightarrow> string \<Rightarrow> 'r \<Rightarrow> string list"

definition registry_key :: "string \<Rightarrow> string \<Rightarrow> string" where
  "registry_key service instance_id = ''svc:reg:'' @ service @ '':'' @ instance_id"

definition redis_register :: "'r registry_client \<Rightarrow> real \<Rightarrow> string \<Rightarrow> string \<Rightarrow> string \<Rightarrow> real \<Rightarrow> 'r \<Rightarrow> 'r" where
  "redis_register c now service instance_id url ttl_seconds r =
     rg_set c now (registry_key service instance_id) url ttl_seconds r"

definition redis_deregister :: "'r registry_client \<Rightarrow> string \<Rightarrow> string \<Rightarrow> 'r \<Rightarrow> 'r" where
  "redis_deregister c service instance_id r = rg_delete c (registry_key service instance_id) r"

definition redis_list :: "'r registry_client \<Rightarrow> real \<Rightarrow> string \<Rightarrow> 'r \<Rightarrow> string list" where
  "redis_list c now service r =
     concat (map (\<lambda>k. case rg_get c now k r of None \<Rightarrow> [] | Some v \<Rightarrow> if v = [] then [] else [v])
       (rg_scan c now (''svc:reg:'' @ service @ '':*'') r))"

text \<open>\<open>aclose\<close> ends the client's connections; the server keeps its keys.\<close>

definition redis_close :: "'r \<Rightarrow> 'r" where
  "redis_close r = r"

definition glob_special :: "char set" where
  "glob_special = {CHR ''*'', CHR ''?'', CHR ''['', CHR 0x5C}"

lemma registry_key_prefix:
  "starts_with (''svc:reg:'' @ svc @ '':'') k \<longleftrightarrow> (\<exists>i. k = registry_key svc i)"
proof
  assume "starts_with (''svc:reg:'' @ svc @ '':'') k"
  then show "\<exists>i. k = registry_key svc i" by (auto simp: registry_key_def dest!: starts_withE)
next
  assume "\<exists>i. k = registry_key svc i"
  then obtain i where "k = (''svc:reg:'' @ svc @ '':'') @ i" by (auto simp: registry_key_def)
  then show "starts_with (''svc:reg:'' @ svc @ '':'') k" by (simp only: starts_with_append)
qed

lemma registry_key_starts: "starts_with ''svc:reg:'' (registry_key svc i)"
  by (simp only: registry_key_def starts_with_append)

text \<open>
  The documented behaviour of \<open>SET\<close> with \<open>EX\<close>, \<open>DEL\<close>, \<open>GET\<close> and \<open>SCAN\<close>, where \<open>entries\<close> is the server's
  key space with the times at which the keys expire; a pattern that is a literal prefix and a star matches the
  keys with that prefix, possibly more than once.
\<close>

locale registry_redis =
  fixes client :: "'r registry_client" and entries :: "'r \<Rightarrow> string \<Rightarrow> (string \<times> real) option"
  assumes set_entry: "0 < ttl \<Longrightarrow> entries (rg_set client now k v ttl r) = (entries r)(k \<mapsto> (v, now + ttl))"
    and delete_entry: "entries (rg_delete client k r) = (entries r)(k := None)"
    and get_entry: "rg_get client now k r =
        (case entries r k of None \<Rightarrow> None | Some (v, t) \<Rightarrow> if now \<le> t then Some v else None)"
    and scan_prefix: "set p \<inter> glob_special = {} \<Longrightarrow>
        set (rg_scan client now (p @ ''*'') r) = {k. starts_with p k \<and> (\<exists>v t. entries r k = Some (v, t) \<and> now \<le> t)}"
begin

lemma key_listed:
  assumes "set svc \<inter> glob_special = {}"
  shows "u \<in> set (redis_list client now svc r) \<longleftrightarrow>
    u \<noteq> [] \<and> (\<exists>i t. entries r (registry_key svc i) = Some (u, t) \<and> now \<le> t)"
proof -
  let ?p = "''svc:reg:'' @ svc @ '':''"
  have "set ?p \<inter> glob_special = {}" using assms by (auto simp: glob_special_def)
  moreover have "(?p @ ''*'') = ''svc:reg:'' @ svc @ '':*''" by simp
  ultimately have "set (rg_scan client now (''svc:reg:'' @ svc @ '':*'') r) =
      {k. (\<exists>i. k = registry_key svc i) \<and> (\<exists>v t. entries r k = Some (v, t) \<and> now \<le> t)}"
    using scan_prefix [of ?p now r] unfolding registry_key_prefix by (simp only:)
  then have scan: "k \<in> set (rg_scan client now (''svc:reg:'' @ svc @ '':*'') r) \<longleftrightarrow>
      (\<exists>i. k = registry_key svc i) \<and> (\<exists>v t. entries r k = Some (v, t) \<and> now \<le> t)" for k
    by (simp only: mem_Collect_eq)
  have get: "u \<in> set (case rg_get client now k r of None \<Rightarrow> [] | Some v \<Rightarrow> if v = [] then [] else [v]) \<longleftrightarrow>
      u \<noteq> [] \<and> (\<exists>t. entries r k = Some (u, t) \<and> now \<le> t)" for k
    by (auto simp: get_entry split: option.split)
  have "u \<in> set (redis_list client now svc r) \<longleftrightarrow> (\<exists>k. k \<in> set (rg_scan client now (''svc:reg:'' @ svc @ '':*'') r) \<and>
      u \<in> set (case rg_get client now k r of None \<Rightarrow> [] | Some v \<Rightarrow> if v = [] then [] else [v]))"
    by (auto simp: redis_list_def)
  then show ?thesis unfolding scan get by blast
qed

end

definition redis_ok :: "('r \<Rightarrow> string \<Rightarrow> (string \<times> real) option) \<Rightarrow> 'r \<Rightarrow> bool" where
  "redis_ok entries r \<longleftrightarrow> (\<forall>k v t. entries r k = Some (v, t) \<longrightarrow> starts_with ''svc:reg:'' k \<longrightarrow> v \<noteq> [])"

text \<open>A service name without a colon or a character of the pattern language: then the key splits.\<close>

definition redis_named :: "string \<Rightarrow> bool" where
  "redis_named svc \<longleftrightarrow> CHR '':'' \<notin> set svc \<and> set svc \<inter> glob_special = {}"

lemma registry_key_inj:
  "redis_named svc \<Longrightarrow> redis_named svc' \<Longrightarrow> registry_key svc i = registry_key svc' i' \<longleftrightarrow> svc = svc' \<and> i = i'"
  using append_colon_inj [of svc svc' i i'] by (simp add: registry_key_def redis_named_def)

sublocale registry_redis \<subseteq> shared: closing_registry "redis_register client" "redis_deregister client"
    "\<lambda>now svc r. (redis_list client now svc r, r)" "\<lambda>r svc i. entries r (registry_key svc i)" "redis_ok entries" redis_named
    "\<lambda>url ttl. url \<noteq> [] \<and> 0 < ttl" redis_close
proof unfold_locales
  show "redis_ok entries (redis_register client now svc iid url ttl s) \<and>
      entries (redis_register client now svc iid url ttl s) (registry_key svc' iid') =
        (if svc' = svc \<and> iid' = iid then Some (url, now + ttl) else entries s (registry_key svc' iid'))"
    if "redis_ok entries s" "redis_named svc" "redis_named svc'" "url \<noteq> [] \<and> 0 < ttl" for s svc svc' url ttl now iid iid'
    using that registry_key_inj [of svc svc' iid iid'] by (auto simp: redis_ok_def redis_register_def set_entry)
  show "redis_ok entries (redis_deregister client svc iid s) \<and>
      entries (redis_deregister client svc iid s) (registry_key svc' iid') =
        (if svc' = svc \<and> iid' = iid then None else entries s (registry_key svc' iid'))"
    if "redis_ok entries s" "redis_named svc" "redis_named svc'" for s svc svc' iid iid'
    using that registry_key_inj [of svc svc' iid iid'] by (auto simp: redis_ok_def redis_deregister_def delete_entry)
  show "set (fst (redis_list client now svc s, s)) = {u. \<exists>iid t. entries s (registry_key svc iid) = Some (u, t) \<and> now \<le> t}"
    if "redis_ok entries s" "redis_named svc" for s svc now
    using that registry_key_starts [of svc] by (intro set_eqI) (simp add: redis_named_def redis_ok_def key_listed, blast)
qed (simp_all add: redis_close_def)

text \<open>A model of the server: the keys with their values and the times at which they expire.\<close>

definition map_registry :: "(string, string \<times> real) pydict registry_client" where
  "map_registry =
     (let get = (\<lambda>now k r. case map_of r k of None \<Rightarrow> None | Some (v, t) \<Rightarrow> if now \<le> t then Some v else None) in
      \<lparr>rg_set = (\<lambda>now k v ttl r. AList.update k (v, now + ttl) r), rg_delete = AList.delete, rg_get = get,
       rg_scan = (\<lambda>now p r. filter (\<lambda>k. starts_with (butlast p) k \<and> get now k r \<noteq> None) (map fst r))\<rparr>)"

lemma map_registry_get:
  "rg_get map_registry now k r = (case map_of r k of None \<Rightarrow> None | Some (v, t) \<Rightarrow> if now \<le> t then Some v else None)"
  by (simp add: map_registry_def Let_def)

lemma map_registry_scan:
  "set (rg_scan map_registry now (p @ ''*'') r) = {k. starts_with p k \<and> map_of r k \<noteq> None \<and> rg_get map_registry now k r \<noteq> None}"
  unfolding map_of_eq_None_iff by (auto simp: map_registry_def butlast_append Let_def)

interpretation map_registry: registry_redis map_registry map_of
proof unfold_locales
  show "set (rg_scan map_registry now (p @ ''*'') r) = {k. starts_with p k \<and> (\<exists>v t. map_of r k = Some (v, t) \<and> now \<le> t)}" for now p r
    unfolding map_registry_scan map_registry_get by (auto split: option.splits if_splits)
qed (simp_all add: map_registry_get, simp_all add: map_registry_def Let_def update_conv' delete_conv')

subsection \<open>Properties\<close>

text \<open>An instance that sends heartbeats is listed as long as the last one that reached the registry is not
  older than the time to live; when none does any more, it is gone once the time to live is over.\<close>

theorem heartbeat_registration:
  fixes url :: string and ttl :: real
  assumes "local_ok d" "beats rounds \<noteq> []" "\<forall>i. i \<noteq> iid \<longrightarrow> local_live d svc i = None"
  defines "d' \<equiv> run_heartbeat local_register svc iid url ttl rounds d"
  shows "if now \<le> last (beats rounds) + ttl
    then url \<in> set (fst (local_list now svc d')) else fst (local_list now svc d') = []"
  using local.heartbeat_keeps_listed [OF assms(1) TrueI TrueI assms(2), of now ttl url svc iid]
    local.gone_after_ttl [OF assms(1) TrueI TrueI assms(2) _ assms(3), of ttl now url] by (simp add: not_le d'_def)

lemma heartbeat_registration_witness:
  "fst (local_list 45 ''users'' (run_heartbeat local_register ''users'' ''i1'' ''http://h'' 30 [(0, True), (10, True), (20, False)] [])) = []"
proof -
  have "local_ok []" "beats [(0, True), (10, True), (20, False)] \<noteq> []" "\<forall>i. i \<noteq> ''i1'' \<longrightarrow> local_live [] ''users'' i = None"
    by (simp_all add: local_ok_def local_live_def dict_get_def)
  from heartbeat_registration [OF this, of 45 30 "''http://h''"] show ?thesis by simp
qed

text \<open>Listing a service in Redis also yields the instances of every service whose name continues it after a
  colon: the pattern \<open>svc:reg:a:*\<close> matches the keys of the service \<open>a:b\<close>.\<close>

theorem redis_list_foreign_service:
  assumes redis: "registry_redis c entries" and a: "set a \<inter> glob_special = {}" and url: "url \<noteq> []"
    and ttl: "0 < ttl" "now' \<le> now + ttl"
  shows "url \<in> set (redis_list c now' a (redis_register c now (a @ '':'' @ b) iid url ttl r))"
proof -
  have "registry_key (a @ '':'' @ b) iid = registry_key a (b @ '':'' @ iid)" by (simp add: registry_key_def)
  then show ?thesis
    using registry_redis.key_listed [OF redis a, of url now'] registry_redis.set_entry [OF redis ttl(1)] url ttl(2)
    by (auto simp: redis_register_def)
qed

lemma redis_list_foreign_service_witness:
  "''http://h'' \<in> set (redis_list map_registry 20 ''users''
     (redis_register map_registry 0 (''users'' @ '':'' @ ''admin'') ''i'' ''http://h'' 30 []))"
  by (rule redis_list_foreign_service [OF map_registry.registry_redis_axioms]) (auto simp: glob_special_def)

subsection \<open>Discovery\<close>

text \<open>One round of the gateway's \<open>_discovery_loop\<close>: what the registry listed, or the exception it raised
  (\<open>None\<close>, logged).\<close>

definition discovery_step :: "string list option \<Rightarrow> balancer \<Rightarrow> balancer" where
  "discovery_step listed b =
     (case listed of None \<Rightarrow> b | Some urls \<Rightarrow> if urls = [] then b else refresh urls b)"

datatype registry_choice = RedisRegistry string | LocalRegistry

text \<open>\<open>accepts\<close>: the client of Redis can be built for the address (it parses it and does not connect). If it cannot,
  the registry is the one of the process.\<close>

definition build_registry :: "(string \<Rightarrow> bool) \<Rightarrow> string option \<Rightarrow> registry_choice" where
  "build_registry accepts redis_url =
     (if truthy redis_url \<and> accepts (the redis_url) then RedisRegistry (the redis_url) else LocalRegistry)"

text \<open>The gateway's pool follows the registry: after a discovery round that listed instances the pool holds
  exactly these, with the health records of those it knew; a failing or empty listing leaves the pool alone,
  so the gateway never discards its last known instances.\<close>

theorem discovery_follows_registry:
  assumes "bal_inv b"
  shows "bal_inv (discovery_step listed b) \<and>
    (case listed of
       None \<Rightarrow> discovery_step listed b = b
     | Some urls \<Rightarrow> if urls = [] then discovery_step listed b = b
                    else set (b_urls (discovery_step listed b)) = set urls \<and>
                      (\<forall>u \<in> set urls. map_of (b_states b) u \<noteq> None \<longrightarrow>
                         map_of (b_states (discovery_step listed b)) u = map_of (b_states b) u))"
  using inv_refresh [OF assms] assms
  by (auto simp: discovery_step_def refresh_urls refresh_states dict_get_def split: option.split)

lemma discovery_follows_registry_witness:
  "set (b_urls (discovery_step (Some [''http://b'', ''http://c'']) two_hosts)) = {''http://b'', ''http://c''}"
  using discovery_follows_registry [OF two_hosts_inv, of "Some [''http://b'', ''http://c'']"] by simp

end
