(* ===== verification/Gateway.thy ===== *)
theory Gateway
  imports Middleware Balancer Registry
begin

section \<open>The gateway: gateway_app/config.py, auth.py, routes.py, middleware.py, proxy.py, main.py\<close>

text \<open>
  The token check, the table of permitted functions with its pattern language, the middleware that
  refuses everything else, the proxy that passes a request to the pool of \<open>Balancer\<close> with the
  caller's identity in its headers, the two routes, and the assembled application. Starlette's
  rendering of a response and OpenTelemetry's \<open>inject\<close> are arguments.
\<close>

subsection \<open>Settings\<close>

record gateway_settings = settings +
  upstream_service_url :: string
  upstream_service_urls :: string
  upstream_timeout :: real
  dev_token :: string

definition default_gateway :: gateway_settings where
  "default_gateway =
     settings.extend (default_settings\<lparr>service_name := ''gateway''\<rparr>)
       (gateway_settings.fields ''http://localhost:8100'' [] 10 ''dev-token'')"

definition upstream_list :: "gateway_settings \<Rightarrow> string list" where
  "upstream_list s =
     (let urls = comma_list (upstream_service_urls s) in if urls \<noteq> [] then urls else [upstream_service_url s])"

subsection \<open>The token\<close>

text \<open>\<open>str.strip\<close> on a text that came out of \<open>decode("latin-1")\<close>: besides the ASCII white space it removes
  U+0085 and U+00A0, two bytes each in UTF-8. The first function works from the left, the second on
  the reversed text.\<close>

fun drop_space :: "string \<Rightarrow> string" where
  "drop_space (c # d # s) =
     (if py_space c then drop_space (d # s)
      else if c = CHR 0xC2 \<and> (d = CHR 0x85 \<or> d = CHR 0xA0) then drop_space s
      else c # d # s)"
| "drop_space [c] = (if py_space c then [] else [c])"
| "drop_space [] = []"

fun drop_space_rev :: "string \<Rightarrow> string" where
  "drop_space_rev (c # d # s) =
     (if py_space c then drop_space_rev (d # s)
      else if d = CHR 0xC2 \<and> (c = CHR 0x85 \<or> c = CHR 0xA0) then drop_space_rev s
      else c # d # s)"
| "drop_space_rev [c] = (if py_space c then [] else [c])"
| "drop_space_rev [] = []"

definition strip_latin1 :: "string \<Rightarrow> string" where
  "strip_latin1 s = rev (drop_space_rev (rev (drop_space s)))"

definition bearer :: string where
  "bearer = ''Bearer ''"

definition verify_token :: "registry \<Rightarrow> string option \<Rightarrow> gateway_settings \<Rightarrow> exn + identity" where
  "verify_token reg authorization s =
     (if \<not> truthy authorization \<or> \<not> starts_with bearer (the authorization)
      then Inl (AppExc (raise_msg reg UnauthorizedError (utf8 [0x7F3A, 0x5C11, 0x8BBF, 0x95EE, 0x4EE4, 0x724C])))
      else if strip_latin1 (removeprefix bearer (the authorization)) \<noteq> dev_token s
      then Inl (AppExc (raise_msg reg UnauthorizedError (utf8 [0x4EE4, 0x724C, 0x65E0, 0x6548])))
      else Inr \<lparr>user_id = Some ''dev-user'', roles = [''user'', ''admin''], tenant_id = Some ''dev-tenant'',
                is_service = False\<rparr>)"

subsection \<open>Permitted functions\<close>

record route_rule =
  rl_method :: string
  rl_path :: string
  rl_roles :: "string list"

definition ROUTE_WHITELIST :: "route_rule list" where
  "ROUTE_WHITELIST =
     [\<lparr>rl_method = ''POST'', rl_path = ''/v1/users'', rl_roles = [''user'', ''admin'']\<rparr>,
      \<lparr>rl_method = ''GET'', rl_path = ''/v1/users/{user_id}'', rl_roles = [''user'', ''admin'']\<rparr>]"

text \<open>
  \<open>_match\<close>: \<open>re.sub\<close> replaces each \<open>{name}\<close> of the pattern by \<open>[^/]+\<close>, and the result is matched between
  \<open>^\<close> and \<open>$\<close>. The other characters of a pattern stand for themselves: those of the table are
  letters, digits, slashes and underscores. A \<open>$\<close> also matches before a line feed that ends the text.
\<close>

datatype token = Plain char | Segment

function pattern_tokens :: "string \<Rightarrow> token list" where
  "pattern_tokens [] = []"
| "pattern_tokens (c # cs) =
     (if c = CHR ''{'' \<and> takeWhile (\<lambda>d. d \<noteq> CHR ''}'') cs \<noteq> [] \<and> dropWhile (\<lambda>d. d \<noteq> CHR ''}'') cs \<noteq> []
      then Segment # pattern_tokens (tl (dropWhile (\<lambda>d. d \<noteq> CHR ''}'') cs))
      else Plain c # pattern_tokens cs)"
  by pat_completeness auto
termination
  by (relation "measure length") (auto intro: le_imp_less_Suc le_trans [OF diff_le_self] length_dropWhile_le)

fun match_tokens :: "token list \<Rightarrow> string \<Rightarrow> bool" where
  "match_tokens [] s \<longleftrightarrow> s = [] \<or> s = [CHR 0x0A]"
| "match_tokens (Plain c # ts) [] \<longleftrightarrow> False"
| "match_tokens (Plain c # ts) (d # s) \<longleftrightarrow> c = d \<and> match_tokens ts s"
| "match_tokens (Segment # ts) [] \<longleftrightarrow> False"
| "match_tokens (Segment # ts) (d # s) \<longleftrightarrow>
     d \<noteq> CHR ''/'' \<and> (match_tokens ts s \<or> match_tokens (Segment # ts) s)"

definition match_path :: "string \<Rightarrow> string \<Rightarrow> bool" where
  "match_path pattern path = match_tokens (pattern_tokens pattern) path"

fun access_loop :: "registry \<Rightarrow> route_rule list \<Rightarrow> string \<Rightarrow> string \<Rightarrow> identity \<Rightarrow> exn + unit" where
  "access_loop reg [] meth path i = Inl (AppExc (raise_msg reg ForbiddenError (utf8 [0x529F, 0x80FD, 0x4E0D, 0x5728, 0x767D, 0x540D, 0x5355, 0x4E2D])))"
| "access_loop reg (r # rs) meth path i =
     (if rl_method r = meth \<and> match_path (rl_path r) path then
        (if rl_roles r = [] \<or> set (roles i) \<inter> set (rl_roles r) \<noteq> {} then Inr ()
         else Inl (AppExc (raise_msg reg ForbiddenError (utf8 [0x89D2, 0x8272, 0x65E0, 0x6743, 0x8BBF, 0x95EE, 0x8BE5, 0x529F, 0x80FD]))))
      else access_loop reg rs meth path i)"

definition check_function_access :: "registry \<Rightarrow> string \<Rightarrow> string \<Rightarrow> identity \<Rightarrow> exn + unit" where
  "check_function_access reg meth path i = access_loop reg ROUTE_WHITELIST meth path i"

subsection \<open>The middleware\<close>

definition authorize :: "registry \<Rightarrow> gateway_settings \<Rightarrow> string option \<Rightarrow> string \<Rightarrow> string \<Rightarrow> exn + unit" where
  "authorize reg s authorization meth path =
     (case verify_token reg authorization s of
        Inl x \<Rightarrow> Inl x
      | Inr i \<Rightarrow> check_function_access reg meth path i)"

text \<open>Only an \<open>AppError\<close> is caught.\<close>

definition whitelist_middleware ::
  "(http_response \<Rightarrow> message list) \<Rightarrow> registry \<Rightarrow> gateway_settings \<Rightarrow> ('s, 'a) app \<Rightarrow> ('s, 'a) app" where
  "whitelist_middleware emit reg s inner e sc w =
     (if sc_type sc = ''http'' \<and> starts_with ''/v1/'' (scope_path sc) then
        (case authorize reg s (map_of (header_dict sc) ''authorization'') (scope_method sc) (scope_path sc) of
           Inr _ \<Rightarrow> inner e sc w
         | Inl (AppExc a) \<Rightarrow>
             (\<lparr>sent = emit \<lparr>resp_status = ae_http_status a, resp_media_type = ''application/problem+json'',
                 resp_headers = [],
                 resp_content = JObj (problem_document (w_ctx w) (ae_title a) (ae_http_status a) (ae_message a)
                    (ae_error_code a) (scope_path sc) None None None)\<rparr>,
               raised = None\<rparr>, w)
         | Inl x \<Rightarrow> (\<lparr>sent = [], raised = Some x\<rparr>, w))
      else inner e sc w)"

subsection \<open>The proxy\<close>

text \<open>\<open>request.headers.get\<close>: the first header of that name; servers hand the names over in lower case.\<close>

definition request_header :: "string \<Rightarrow> scope \<Rightarrow> string option" where
  "request_header k sc = map_option latin1_decode (map_of (sc_headers sc) k)"

record proxied_response =
  pr_status :: int
  pr_headers :: headers
  pr_content :: string

definition identity_headers :: "identity \<Rightarrow> headers" where
  "identity_headers i =
     [(''X-User-Id'', or_else (user_id i) []),
      (''X-User-Roles'', join_with '','' (roles i)),
      (''X-Tenant-Id'', or_else (tenant_id i) [])]"

definition outgoing_headers :: "(headers \<Rightarrow> headers) \<Rightarrow> scope \<Rightarrow> identity \<Rightarrow> headers" where
  "outgoing_headers inject sc i =
     inject (identity_headers i
       @ (if sc_body sc \<noteq> []
          then [(''Content-Type'', or_else (request_header ''content-type'' sc) ''application/json'')] else []))"

definition proxy_request ::
  "registry \<Rightarrow> transport \<Rightarrow> real \<Rightarrow> (headers \<Rightarrow> headers) \<Rightarrow> string \<Rightarrow> string \<Rightarrow> scope \<Rightarrow> identity \<Rightarrow> balancer
    \<Rightarrow> (exn + proxied_response) \<times> balancer" where
  "proxy_request reg tx now inject meth path sc i b =
     (case balancer_request reg tx now
             \<lparr>out_method = meth, out_path = path, out_headers = outgoing_headers inject sc i,
              out_content = (if sc_body sc = [] then None else Some (sc_body sc))\<rparr> b of
        (Inl x, b') \<Rightarrow> (Inl x, b')
      | (Inr r, b') \<Rightarrow>
          (Inr \<lparr>pr_status = ur_status r,
                pr_headers = (''content-type'', dict_get ''application/json'' ''content-type'' (ur_headers r))
                  # (case map_of (ur_headers r) ''x-upstream'' of None \<Rightarrow> [] | Some u \<Rightarrow> [(''x-upstream'', u)]),
                pr_content = ur_content r\<rparr>, b'))"

subsection \<open>The routes\<close>

definition gateway_create_user ::
  "registry \<Rightarrow> transport \<Rightarrow> real \<Rightarrow> (headers \<Rightarrow> headers) \<Rightarrow> gateway_settings \<Rightarrow> scope \<Rightarrow> balancer
    \<Rightarrow> (exn + proxied_response) \<times> balancer" where
  "gateway_create_user reg tx now inject s sc b =
     (case verify_token reg (request_header ''authorization'' sc) s of
        Inl x \<Rightarrow> (Inl x, b)
      | Inr i \<Rightarrow>
          (case check_function_access reg ''POST'' ''/v1/users'' i of
             Inl x \<Rightarrow> (Inl x, b)
           | Inr _ \<Rightarrow> proxy_request reg tx now inject ''POST'' ''/v1/users'' sc i b))"

definition gateway_get_user ::
  "registry \<Rightarrow> transport \<Rightarrow> real \<Rightarrow> (headers \<Rightarrow> headers) \<Rightarrow> gateway_settings \<Rightarrow> string \<Rightarrow> scope \<Rightarrow> balancer
    \<Rightarrow> (exn + proxied_response) \<times> balancer" where
  "gateway_get_user reg tx now inject s uid sc b =
     (case verify_token reg (request_header ''authorization'' sc) s of
        Inl x \<Rightarrow> (Inl x, b)
      | Inr i \<Rightarrow>
          (let path = ''/v1/users/'' @ uid in
           (case check_function_access reg ''GET'' path i of
              Inl x \<Rightarrow> (Inl x, b)
            | Inr _ \<Rightarrow> proxy_request reg tx now inject ''GET'' path sc i b)))"

text \<open>
  The router calls the handler of the route whose method and path fit; Starlette compiles a route's path
  to the same kind of expression. An exception with a handler of its own becomes a response inside the
  stack, any other leaves it. \<open>others\<close> is the rest of the application: health, metrics, error codes, the
  answers 404 and 405. \<open>emit_raw\<close> renders a \<open>Response\<close> with given headers and bytes.
\<close>

definition respond ::
  "(http_response \<Rightarrow> message list) \<Rightarrow> (proxied_response \<Rightarrow> message list) \<Rightarrow> registry \<Rightarrow> ctxvars \<Rightarrow> scope
    \<Rightarrow> exn + proxied_response \<Rightarrow> reply" where
  "respond emit emit_raw reg ctx sc res =
     (case res of
        Inr r \<Rightarrow> \<lparr>sent = emit_raw r, raised = None\<rparr>
      | Inl (AppExc a) \<Rightarrow> \<lparr>sent = emit (fst (handle_app_error reg ctx (scope_path sc) a)), raised = None\<rparr>
      | Inl x \<Rightarrow> \<lparr>sent = [], raised = Some x\<rparr>)"

definition gateway_routes ::
  "(http_response \<Rightarrow> message list) \<Rightarrow> (proxied_response \<Rightarrow> message list) \<Rightarrow> registry \<Rightarrow> transport \<Rightarrow> real
    \<Rightarrow> (headers \<Rightarrow> headers) \<Rightarrow> gateway_settings \<Rightarrow> ('s, balancer) app \<Rightarrow> ('s, balancer) app" where
  "gateway_routes emit emit_raw reg tx now inject s others e sc w =
     (let answer = (\<lambda>(res, b'). (respond emit emit_raw reg (w_ctx w) sc res, w\<lparr>w_app := b'\<rparr>)) in
      if sc_type sc \<noteq> ''http'' then others e sc w
      else if scope_method sc = ''POST'' \<and> match_path ''/v1/users'' (scope_path sc) then
        answer (gateway_create_user reg tx now inject s sc (w_app w))
      else if scope_method sc = ''GET'' \<and> match_path ''/v1/users/{user_id}'' (scope_path sc) then
        answer (gateway_get_user reg tx now inject s (removeprefix ''/v1/users/'' (scope_path sc)) sc (w_app w))
      else others e sc w)"

subsection \<open>The application\<close>

definition gateway_balancer :: "gateway_settings \<Rightarrow> balancer" where
  "gateway_balancer s = balancer_init (upstream_list s) 3 30"

datatype background = ProbeLoop | DiscoveryLoop string

definition lifespan_tasks :: "gateway_settings \<Rightarrow> background list" where
  "lifespan_tasks s = ProbeLoop # (if discovery_service s \<noteq> [] then [DiscoveryLoop (discovery_service s)] else [])"

text \<open>\<open>add_middleware\<close> after \<open>kernel_create_app\<close>: the permission check is the outermost layer.\<close>

definition gateway_app ::
  "(http_response \<Rightarrow> message list) \<Rightarrow> (proxied_response \<Rightarrow> message list) \<Rightarrow> registry \<Rightarrow> transport \<Rightarrow> real
    \<Rightarrow> (headers \<Rightarrow> headers) \<Rightarrow> 's store_ops \<Rightarrow> gateway_settings \<Rightarrow> ('s, balancer) app \<Rightarrow> ('s, balancer) app" where
  "gateway_app emit emit_raw reg tx now inject ops s others =
     whitelist_middleware emit reg s
       (kernel_stack emit ops s (gateway_routes emit emit_raw reg tx now inject s others))"

subsection \<open>The permitted requests\<close>

lemma pattern_tokens_plain:
  "CHR ''{'' \<notin> set p \<Longrightarrow> pattern_tokens (p @ s) = map Plain p @ pattern_tokens s"
  by (induction p) auto

lemma match_plain:
  "match_tokens (map Plain p @ ts) s \<longleftrightarrow> (\<exists>r. s = p @ r \<and> match_tokens ts r)"
proof (induction p arbitrary: s)
  case (Cons c p)
  then show ?case by (cases s) auto
qed simp

lemma match_segment: "match_tokens [Segment] s \<longleftrightarrow> s \<noteq> [] \<and> CHR ''/'' \<notin> set s"
  by (induction s) auto

lemma match_users: "match_path ''/v1/users'' s \<longleftrightarrow> s = ''/v1/users'' \<or> s = ''/v1/users'' @ [CHR 0x0A]"
  using match_plain [of "''/v1/users''" "[]" s] pattern_tokens_plain [of "''/v1/users''" "[]"]
  by (auto simp: match_path_def)

lemma match_user:
  "match_path ''/v1/users/{user_id}'' s \<longleftrightarrow> (\<exists>uid. s = ''/v1/users/'' @ uid \<and> uid \<noteq> [] \<and> CHR ''/'' \<notin> set uid)"
proof -
  have "pattern_tokens ''{user_id}'' = [Segment]" by simp
  then have "pattern_tokens ''/v1/users/{user_id}'' = map Plain ''/v1/users/'' @ [Segment]"
    using pattern_tokens_plain [of "''/v1/users/''" "''{user_id}''"] by simp
  then show ?thesis unfolding match_path_def by (simp only: match_plain match_segment)
qed

lemma access_loop_first:
  "access_loop reg rules meth path i =
     (case find (\<lambda>r. rl_method r = meth \<and> match_path (rl_path r) path) rules of
        None \<Rightarrow> Inl (AppExc (raise_msg reg ForbiddenError (utf8 [0x529F, 0x80FD, 0x4E0D, 0x5728, 0x767D, 0x540D, 0x5355, 0x4E2D])))
      | Some r \<Rightarrow>
          if rl_roles r = [] \<or> set (roles i) \<inter> set (rl_roles r) \<noteq> {} then Inr ()
          else Inl (AppExc (raise_msg reg ForbiddenError (utf8 [0x89D2, 0x8272, 0x65E0, 0x6743, 0x8BBF, 0x95EE, 0x8BE5, 0x529F, 0x80FD]))))"
  by (induction rules) auto

lemma access_loop_Inl:
  "access_loop reg rules meth path i = Inl x \<Longrightarrow> \<exists>msg. x = AppExc (raise_msg reg ForbiddenError msg)"
  by (induction rules) (auto split: if_splits)

text \<open>The requests the table lets through, and the credentials.\<close>

definition permitted :: "string \<Rightarrow> string \<Rightarrow> bool" where
  "permitted meth path \<longleftrightarrow>
     meth = ''POST'' \<and> (path = ''/v1/users'' \<or> path = ''/v1/users'' @ [CHR 0x0A])
     \<or> meth = ''GET'' \<and> (\<exists>uid. path = ''/v1/users/'' @ uid \<and> uid \<noteq> [] \<and> CHR ''/'' \<notin> set uid)"

definition token_valid :: "gateway_settings \<Rightarrow> string option \<Rightarrow> bool" where
  "token_valid s authorization \<longleftrightarrow> (\<exists>t. authorization = Some (bearer @ t) \<and> strip_latin1 t = dev_token s)"

lemma check_function_access_Inr:
  "check_function_access reg meth path i = Inr () \<longleftrightarrow>
     permitted meth path \<and> (''user'' \<in> set (roles i) \<or> ''admin'' \<in> set (roles i))"
  by (auto simp: check_function_access_def ROUTE_WHITELIST_def permitted_def match_users match_user)

definition dev_identity :: identity where
  "dev_identity = \<lparr>user_id = Some ''dev-user'', roles = [''user'', ''admin''], tenant_id = Some ''dev-tenant'',
     is_service = False\<rparr>"

lemma bearer_truthy: "starts_with bearer t \<Longrightarrow> t \<noteq> []"
  by (auto simp: bearer_def)

lemma verify_token_valid:
  "token_valid s a \<Longrightarrow> verify_token reg a s = Inr dev_identity"
  using bearer_truthy by (auto simp: token_valid_def verify_token_def dev_identity_def)

lemma verify_token_invalid:
  "\<not> token_valid s a \<Longrightarrow> \<exists>msg. verify_token reg a s = Inl (AppExc (raise_msg reg UnauthorizedError msg))"
  by (cases a) (auto simp: token_valid_def verify_token_def dest!: starts_withE)


lemma authorize_Inr: "authorize reg s a meth path = Inr u \<longleftrightarrow> token_valid s a \<and> permitted meth path"
  using verify_token_valid [of s a reg] verify_token_invalid [of s a reg]
    check_function_access_Inr [of reg meth path dev_identity]
  by (cases "token_valid s a") (auto simp: authorize_def dev_identity_def)

lemma authorize_Inl:
  assumes "\<not> (token_valid s a \<and> permitted meth path)"
  shows "\<exists>msg. authorize reg s a meth path =
    Inl (AppExc (raise_msg reg (if token_valid s a then ForbiddenError else UnauthorizedError) msg))"
proof (cases "token_valid s a")
  case True
  then obtain x where x: "check_function_access reg meth path dev_identity = Inl x"
    using assms check_function_access_Inr [of reg meth path dev_identity]
    by (cases "check_function_access reg meth path dev_identity") auto
  then show ?thesis
    using True access_loop_Inl x by (fastforce simp: authorize_def verify_token_valid check_function_access_def)
next
  case False
  then show ?thesis using verify_token_invalid [OF False, of reg] by (auto simp: authorize_def)
qed

subsection \<open>Properties\<close>

text \<open>C2: The gateway denies by default: under \<open>/v1/\<close> the application behind the middleware runs exactly for a
  request with a valid token whose method and path are in the table, a path parameter being one
  non-empty segment; any other request is answered with 401 or 403 and changes nothing, neither
  metrics nor access log included.\<close>

theorem whitelist_denies_by_default:
  fixes s :: gateway_settings
  assumes reg: "extends_builtin reg" and http: "sc_type sc = ''http''" "starts_with ''/v1/'' (scope_path sc)"
  defines "ok \<equiv> token_valid s (map_of (header_dict sc) ''authorization'')"
  shows "if ok \<and> permitted (scope_method sc) (scope_path sc)
    then whitelist_middleware emit reg s inner e sc w = inner e sc w
    else \<exists>r. whitelist_middleware emit reg s inner e sc w = (\<lparr>sent = emit r, raised = None\<rparr>, w)
      \<and> resp_status r = (if ok then 403 else 401)
      \<and> content_field ''code'' r = Some (JStr (if ok then ''FORBIDDEN'' else ''UNAUTHORIZED''))"
proof (cases "ok \<and> permitted (scope_method sc) (scope_path sc)")
  case True
  then have "authorize reg s (map_of (header_dict sc) ''authorization'') (scope_method sc) (scope_path sc) = Inr ()"
    by (simp add: authorize_Inr ok_def)
  then show ?thesis using True http by (simp add: whitelist_middleware_def)
next
  case False
  let ?cls = "if ok then ForbiddenError else UnauthorizedError"
  obtain msg where a: "authorize reg s (map_of (header_dict sc) ''authorization'') (scope_method sc) (scope_path sc)
      = Inl (AppExc (raise_msg reg ?cls msg))"
    using authorize_Inl False unfolding ok_def by blast
  let ?a = "raise_msg reg ?cls msg"
  have "whitelist_middleware emit reg s inner e sc w = (\<lparr>sent = emit r, raised = None\<rparr>, w)"
    if "r = \<lparr>resp_status = ae_http_status ?a, resp_media_type = ''application/problem+json'', resp_headers = [],
       resp_content = JObj (problem_document (w_ctx w) (ae_title ?a) (ae_http_status ?a) (ae_message ?a)
          (ae_error_code ?a) (scope_path sc) None None None)\<rparr>" for r
    using http that a by (simp add: whitelist_middleware_def)
  moreover have "ae_http_status ?a = (if ok then 403 else 401)" "ae_error_code ?a = (if ok then ''FORBIDDEN'' else ''UNAUTHORIZED'')"
    using reg by simp_all
  ultimately show ?thesis using False by (auto simp: content_field_def)
qed

definition get_scope :: "string \<Rightarrow> scope" where
  "get_scope token = \<lparr>sc_type = ''http'', sc_method = Some ''GET'', sc_path = Some ''/v1/users/u-1'',
     sc_headers = [(''authorization'', token)], sc_body = []\<rparr>"

lemma get_scope_fields [simp]:
  "sc_type (get_scope t) = ''http''" "scope_method (get_scope t) = ''GET''" "scope_path (get_scope t) = ''/v1/users/u-1''"
  "sc_headers (get_scope t) = [(''authorization'', t)]" "sc_body (get_scope t) = []"
  by (simp_all add: get_scope_def scope_method_def scope_path_def)

lemma get_scope_token: "ascii t \<Longrightarrow> map_of (header_dict (get_scope t)) ''authorization'' = Some t"
proof -
  have "py_lower (latin1_decode ''authorization'') = ''authorization''" by code_simp
  then show "ascii t \<Longrightarrow> ?thesis" by (simp add: header_dict_def latin1_decode_ascii)
qed

lemma dev_token_valid: "token_valid default_gateway (Some ''Bearer dev-token'')"
proof -
  have "strip_latin1 ''dev-token'' = dev_token default_gateway" by code_simp
  then show ?thesis by (simp add: token_valid_def bearer_def)
qed

lemma wrong_token: "\<not> token_valid default_gateway (Some ''Bearer wrong'')"
proof -
  have "strip_latin1 ''wrong'' \<noteq> dev_token default_gateway" by code_simp
  then show ?thesis by (auto simp: token_valid_def bearer_def)
qed

lemma whitelist_denies_by_default_witness:
  "\<exists>r. whitelist_middleware plain_emit builtin_registry default_gateway counting sample_env (get_scope ''Bearer wrong'') sample_world
      = (\<lparr>sent = plain_emit r, raised = None\<rparr>, sample_world) \<and> resp_status r = 401"
proof -
  have "ascii ''Bearer wrong''" by code_simp
  then show ?thesis
    using whitelist_denies_by_default [OF builtin_extends, of "get_scope ''Bearer wrong''" default_gateway plain_emit counting
        sample_env sample_world] wrong_token by (auto simp: get_scope_token)
qed

text \<open>What the proxy relies on: \<open>inject\<close> adds trace headers to the dictionary and leaves the others.\<close>

definition injects :: "(headers \<Rightarrow> headers) \<Rightarrow> bool" where
  "injects inject \<longleftrightarrow>
     (\<forall>hs. \<exists>ts. inject hs = hs @ ts \<and> fst ` set ts \<subseteq> {''traceparent'', ''tracestate''})"

lemma no_injection: "injects (\<lambda>hs. hs)"
  by (simp add: injects_def)

definition add_traceparent :: "headers \<Rightarrow> headers" where
  "add_traceparent hs = hs @ [(''traceparent'', ''00-4bf92f3577b34da6a3ce929d0e0e4736-00f067aa0ba902b7-01'')]"

lemma add_traceparent_injects: "injects add_traceparent"
  by (simp add: injects_def add_traceparent_def)

lemma trace_header_names:
  "k \<in> {''traceparent'', ''tracestate''} \<Longrightarrow>
     py_lower (latin1_decode k) \<notin> {''x-user-id'', ''x-user-roles'', ''x-tenant-id'', ''idempotency-key'', ''authorization''}"
proof -
  have "py_lower (latin1_decode ''traceparent'') = ''traceparent''" "py_lower (latin1_decode ''tracestate'') = ''tracestate''"
    by code_simp+
  then show "k \<in> {''traceparent'', ''tracestate''} \<Longrightarrow> ?thesis" by auto
qed

lemma identity_header_names:
  "py_lower (latin1_decode ''X-User-Id'') = ''x-user-id''" "py_lower (latin1_decode ''X-User-Roles'') = ''x-user-roles''"
  "py_lower (latin1_decode ''X-Tenant-Id'') = ''x-tenant-id''" "py_lower (latin1_decode ''Content-Type'') = ''content-type''"
  by code_simp+

lemma map_of_outgoing:
  assumes inj: "injects inject" and sc2: "sc_headers sc2 = outgoing_headers inject sc i"
    and k: "k \<in> {''x-user-id'', ''x-user-roles'', ''x-tenant-id'', ''idempotency-key'', ''authorization''}"
  shows "map_of (header_dict sc2) k =
    map_option latin1_decode (map_of [(''x-user-id'', or_else (user_id i) []), (''x-user-roles'', join_with '','' (roles i)),
      (''x-tenant-id'', or_else (tenant_id i) [])] k)"
proof -
  let ?f = "\<lambda>(k, v). (py_lower (latin1_decode k), latin1_decode v)"
  let ?ct = "if sc_body sc \<noteq> [] then [(''Content-Type'', or_else (request_header ''content-type'' sc) ''application/json'')] else []"
  obtain ts where ts: "sc_headers sc2 = (identity_headers i @ ?ct) @ ts" "fst ` set ts \<subseteq> {''traceparent'', ''tracestate''}"
    using inj unfolding sc2 outgoing_headers_def injects_def by blast
  have "k \<notin> fst ` set (map ?f ts)"
  proof
    assume "k \<in> fst ` set (map ?f ts)"
    then obtain n where "n \<in> fst ` set ts" "k = py_lower (latin1_decode n)" by fastforce
    then show False using ts(2) trace_header_names k by blast
  qed
  then have none: "map_of (rev (map ?f ts)) k = None" by (simp add: map_of_eq_None_iff)
  have ct: "map_of (rev (map ?f ?ct)) k = None"
    using k by (auto simp: identity_header_names)
  have "map_of (header_dict sc2) k = map_of (rev (map ?f (identity_headers i))) k"
    unfolding header_dict_def ts(1) map_of_dict_of_pairs
    by (simp only: map_append rev_append map_of_append map_add_def none ct option.case)
  also have "\<dots> = map_option latin1_decode (map_of [(''x-user-id'', or_else (user_id i) []), (''x-user-roles'', join_with '','' (roles i)),
      (''x-tenant-id'', or_else (tenant_id i) [])] k)"
    using k by (auto simp: identity_headers_def identity_header_names)
  finally show ?thesis .
qed

lemma identity_of_outgoing:
  assumes inj: "injects inject" and sc2: "sc_headers sc2 = outgoing_headers inject sc i"
    and user: "user_id i = Some u" "u \<noteq> []" "ascii u"
    and roles: "\<forall>r \<in> set (roles i). r \<noteq> [] \<and> CHR '','' \<notin> set r \<and> ascii r"
    and tenant: "ascii (or_else (tenant_id i) [])"
  shows "identity_of_headers (header_dict sc2) =
    Some \<lparr>user_id = Some u, roles = roles i, tenant_id = Some (or_else (tenant_id i) []), is_service = False\<rparr>"
proof -
  have comma: "ascii (join_with '','' rs)" if "\<forall>r \<in> set rs. ascii r" for rs
    using that by (induction "'',''" rs rule: join_with.induct) (auto simp: ascii_def)
  have uid: "map_of (header_dict sc2) ''x-user-id'' = Some u"
    and rls: "map_of (header_dict sc2) ''x-user-roles'' = Some (join_with '','' (roles i))"
    and tid: "map_of (header_dict sc2) ''x-tenant-id'' = Some (or_else (tenant_id i) [])"
    using user roles tenant comma [of "roles i"]
    by (simp_all add: map_of_outgoing [OF inj sc2] or_else_def latin1_decode_ascii)
  have "filter (\<lambda>r. r \<noteq> []) (split_on CHR '','' (join_with '','' (roles i))) = roles i"
  proof (cases "roles i = []")
    case False
    then have "split_on CHR '','' (join_with '','' (roles i)) = roles i" using roles by (intro split_join) auto
    then show ?thesis using roles by (simp add: filter_id_conv)
  qed simp
  then show ?thesis using user(2) by (simp add: identity_of_headers_def uid tid dict_get_def rls)
qed

text \<open>C26: Identities round-trip: the service behind a trusted gateway sees in its context the identity the gateway
  established, whatever identity headers the client had sent; only an absent tenant arrives as the empty
  one.\<close>

theorem identity_reaches_service:
  assumes inj: "injects inject" and http: "sc_type sc2 = ''http''"
    and sc2: "sc_headers sc2 = outgoing_headers inject sc i"
    and user: "user_id i = Some u" "u \<noteq> []" "ascii u"
    and roles: "\<forall>r \<in> set (roles i). r \<noteq> [] \<and> CHR '','' \<notin> set r \<and> ascii r"
    and tenant: "ascii (or_else (tenant_id i) [])"
  shows "identity_middleware True inner e sc2 w =
    inner e sc2 (w\<lparr>w_ctx := set_identity
      (Some \<lparr>user_id = Some u, roles = roles i, tenant_id = Some (or_else (tenant_id i) []), is_service = False\<rparr>) (w_ctx w)\<rparr>)"
  using http identity_of_outgoing [OF inj sc2 user roles tenant] by (simp add: identity_middleware_def)

definition forwarded :: scope where
  "forwarded = \<lparr>sc_type = ''http'', sc_method = Some ''GET'', sc_path = Some ''/v1/users/u-1'',
     sc_headers = outgoing_headers add_traceparent ((get_scope ''Bearer dev-token'')
       \<lparr>sc_headers := [(''authorization'', ''Bearer dev-token''), (''x-user-id'', ''root'')]\<rparr>) dev_identity,
     sc_body = []\<rparr>"

lemma identity_reaches_service_witness:
  "identity_middleware True counting sample_env forwarded sample_world =
     counting sample_env forwarded (sample_world\<lparr>w_ctx := set_identity (Some dev_identity) (w_ctx sample_world)\<rparr>)"
proof -
  have "sc_type forwarded = ''http''" by (simp add: forwarded_def)
  moreover have "sc_headers forwarded = outgoing_headers add_traceparent ((get_scope ''Bearer dev-token'')
       \<lparr>sc_headers := [(''authorization'', ''Bearer dev-token''), (''x-user-id'', ''root'')]\<rparr>) dev_identity"
    by (simp add: forwarded_def)
  moreover have "user_id dev_identity = Some ''dev-user''" "''dev-user'' \<noteq> []" "ascii ''dev-user''"
    "\<forall>r \<in> set (roles dev_identity). r \<noteq> [] \<and> CHR '','' \<notin> set r \<and> ascii r"
    "ascii (or_else (tenant_id dev_identity) [])"
    by (simp_all add: dev_identity_def ascii_def or_else_def)
  ultimately show ?thesis
    using identity_reaches_service [OF add_traceparent_injects, of forwarded _ dev_identity "''dev-user''" counting sample_env sample_world]
    by (simp add: dev_identity_def or_else_def)
qed

text \<open>The proxy drops the client's \<open>Idempotency-Key\<close>: the service's idempotency middleware passes every
  proxied request on to the service, so a failed-over or repeated \<open>POST\<close> can be executed twice there.\<close>

theorem proxied_requests_are_unkeyed:
  assumes "injects inject" "sc_headers sc2 = outgoing_headers inject sc i"
  shows "idempotency_middleware emit ops service ttl inner e sc2 w = inner e sc2 w"
proof -
  have "map_of (header_dict sc2) ''idempotency-key'' = None"
    using map_of_outgoing [OF assms, of "''idempotency-key''"] by simp
  then have "request_key service sc2 = None" by (simp add: request_key_def)
  then show ?thesis by (simp add: idempotency_middleware_def)
qed

lemma proxied_requests_are_unkeyed_witness:
  "idempotency_middleware plain_emit mem_ops ''users'' 3600 counting sample_env
      (sample_scope\<lparr>sc_headers := outgoing_headers add_traceparent sample_scope dev_identity\<rparr>) sample_world
   = counting sample_env (sample_scope\<lparr>sc_headers := outgoing_headers add_traceparent sample_scope dev_identity\<rparr>) sample_world"
  by (rule proxied_requests_are_unkeyed [OF add_traceparent_injects, of _ sample_scope dev_identity]) simp

text \<open>The checks that the handlers repeat agree with the middleware's: with one authorization header, a
  request the middleware lets through is never refused by its handler, which hands it to the proxy as the
  development identity.\<close>

theorem handlers_repeat_the_check:
  assumes same: "map_of (header_dict sc) ''authorization'' = request_header ''authorization'' sc"
    and ok: "authorize reg s (map_of (header_dict sc) ''authorization'') (scope_method sc) (scope_path sc) = Inr ()"
  shows "if scope_method sc = ''POST''
    then gateway_create_user reg tx now inject s sc b = proxy_request reg tx now inject ''POST'' ''/v1/users'' sc dev_identity b
    else gateway_get_user reg tx now inject s (removeprefix ''/v1/users/'' (scope_path sc)) sc b
         = proxy_request reg tx now inject ''GET'' (scope_path sc) sc dev_identity b"
proof -
  have token: "verify_token reg (request_header ''authorization'' sc) s = Inr dev_identity"
    and perm: "permitted (scope_method sc) (scope_path sc)"
    using ok same by (simp_all add: authorize_Inr verify_token_valid)
  have access: "permitted m p \<Longrightarrow> check_function_access reg m p dev_identity = Inr ()" for m p
    by (simp add: check_function_access_Inr dev_identity_def)
  show ?thesis
  proof (cases "scope_method sc = ''POST''")
    case True
    have "permitted ''POST'' ''/v1/users''" by (simp add: permitted_def)
    then show ?thesis using True token access by (simp add: gateway_create_user_def)
  next
    case False
    then obtain uid where uid: "scope_path sc = ''/v1/users/'' @ uid" "scope_method sc = ''GET''"
      using perm by (auto simp: permitted_def)
    then show ?thesis using False token access perm
      by (simp add: gateway_get_user_def Let_def removeprefix_append del: append_Cons)
  qed
qed

lemma handlers_repeat_the_check_witness:
  "gateway_get_user builtin_registry only_b 0 add_traceparent default_gateway ''u-1'' (get_scope ''Bearer dev-token'') two_hosts
   = proxy_request builtin_registry only_b 0 add_traceparent ''GET'' ''/v1/users/u-1'' (get_scope ''Bearer dev-token'')
       dev_identity two_hosts"
proof -
  have a: "ascii ''Bearer dev-token''" by code_simp
  then have h: "map_of (header_dict (get_scope ''Bearer dev-token'')) ''authorization'' = Some ''Bearer dev-token''"
    "request_header ''authorization'' (get_scope ''Bearer dev-token'') = Some ''Bearer dev-token''"
    by (simp_all only: get_scope_token request_header_def) (simp_all add: latin1_decode_ascii)
  have "permitted ''GET'' ''/v1/users/u-1''"
    unfolding permitted_def by (intro disjI2 conjI exI [of _ "''u-1''"]) simp_all
  then have "authorize builtin_registry default_gateway (Some ''Bearer dev-token'') ''GET'' ''/v1/users/u-1'' = Inr ()"
    using dev_token_valid by (simp add: authorize_Inr)
  moreover have "removeprefix ''/v1/users/'' ''/v1/users/u-1'' = ''u-1''" by code_simp
  ultimately show ?thesis
    using handlers_repeat_the_check [of "get_scope ''Bearer dev-token''" builtin_registry default_gateway only_b 0
        add_traceparent two_hosts] h by simp
qed

lemma proxy_outcome:
  assumes reg: "extends_builtin reg" and inv: "bal_inv b" and calm: "caught tx"
    and run: "proxy_request reg tx now inject meth path sc i b = (res, b')"
  shows "bal_inv b' \<and> (case res of
       Inr r \<Rightarrow> pr_status r < 500 \<and> (\<exists>v \<in> set (b_urls b). (''x-upstream'', v) \<in> set (pr_headers r))
     | Inl x \<Rightarrow> exn_code x = Some ''BAD_GATEWAY'' \<and> (\<exists>a. x = AppExc a \<and> ae_http_status a = 502))"
proof -
  let ?q = "\<lparr>out_method = meth, out_path = path, out_headers = outgoing_headers inject sc i,
    out_content = (if sc_body sc = [] then None else Some (sc_body sc))\<rparr>"
  obtain r0 b0 where r0: "balancer_request reg tx now ?q b = (r0, b0)" by fastforce
  have e: "bal_inv b0 \<and> (\<forall>x. r0 = Inl x \<longrightarrow> (\<exists>msg. x = all_down reg msg))"
    using request_errors_for [OF inv calm r0] .
  show ?thesis
  proof (cases r0)
    case (Inl x)
    then show ?thesis using e run r0 reg by (auto simp: proxy_request_def all_down_def exn_code_def)
  next
    case (Inr r)
    then have "ur_status r < 500 \<and> (\<exists>u \<in> set (b_urls b). map_of (ur_headers r) ''x-upstream'' = Some u)"
      using request_loop_Inr [OF inv] r0 by (auto simp: balancer_request_def)
    then show ?thesis using e run r0 Inr by (auto simp: proxy_request_def)
  qed
qed

text \<open>A request the gateway cannot place ends with the downstream error, answered as 502 \<open>BAD_GATEWAY\<close>;
  never with another exception as long as the client raises none but \<open>HTTPError\<close>, and never with a 5xx of an
  upstream.\<close>

theorem gateway_failure_is_502:
  assumes reg: "extends_builtin reg" and inv: "bal_inv b" and calm: "caught tx" and ok: "token_valid s (request_header ''authorization'' sc)"
    and run: "gateway_create_user reg tx now inject s sc b = (res, b')"
  shows "bal_inv b' \<and>
    (\<exists>r. respond emit emit_raw reg ctx sc res = \<lparr>sent = emit r, raised = None\<rparr> \<and> resp_status r = 502
        \<and> content_field ''code'' r = Some (JStr ''BAD_GATEWAY'')
     \<or> (\<exists>p. res = Inr p \<and> pr_status p < 500 \<and> respond emit emit_raw reg ctx sc res = \<lparr>sent = emit_raw p, raised = None\<rparr>))"
proof -
  have "permitted ''POST'' ''/v1/users''" by (simp add: permitted_def)
  then have "check_function_access reg ''POST'' ''/v1/users'' dev_identity = Inr ()"
    by (simp add: check_function_access_Inr dev_identity_def)
  then have "proxy_request reg tx now inject ''POST'' ''/v1/users'' sc dev_identity b = (res, b')"
    using run ok by (simp add: gateway_create_user_def verify_token_valid)
  note out = proxy_outcome [OF reg inv calm this]
  show ?thesis
  proof (cases res)
    case (Inl x)
    then obtain a where a: "x = AppExc a" "ae_error_code a = ''BAD_GATEWAY''" using out by (auto simp: exn_code_def)
    have "get_error_code reg ''BAD_GATEWAY'' = Some BAD_GATEWAY"
      using builtin_lookup [OF reg, of BAD_GATEWAY] by (simp add: builtin_codes_def BAD_GATEWAY_def)
    then have "fst (handle_app_error reg ctx (scope_path sc) a) =
        problem_response ctx (scope_path sc) BAD_GATEWAY (Some (ae_message a)) (ae_detail a) (ae_retry_after a)"
      using a handle_app_error_registered by simp
    then show ?thesis using Inl a out by (auto simp: respond_def BAD_GATEWAY_def)
  next
    case (Inr p)
    then show ?thesis using out by (auto simp: respond_def)
  qed
qed

definition refusing :: transport where
  "refusing k q = (1, HTTPError ''connection refused'')"

lemma gateway_failure_is_502_witness:
  "bal_inv (snd (gateway_create_user builtin_registry refusing 0 add_traceparent default_gateway (get_scope ''Bearer dev-token'') two_hosts))"
proof -
  have "ascii ''Bearer dev-token''" by code_simp
  then have "token_valid default_gateway (request_header ''authorization'' (get_scope ''Bearer dev-token''))"
    using dev_token_valid by (simp add: request_header_def latin1_decode_ascii)
  moreover have "caught refusing" by (simp add: caught_def refusing_def)
  ultimately show ?thesis
    using gateway_failure_is_502 [OF builtin_extends two_hosts_inv _ _ surjective_pairing] by blast
qed

text \<open>An exception of the client that is no \<open>HTTPError\<close>, \<open>InvalidURL\<close> for a user id with a control character for
  one, is no downstream error: no other instance is tried, and it leaves the application for the handler of
  unexpected exceptions, which answers 500.\<close>

theorem uncaught_is_no_502:
  assumes chosen: "next_url reg now b = (Inr url, b1)"
    and ok: "token_valid s (request_header ''authorization'' sc)" "uid \<noteq> []" "CHR ''/'' \<notin> set uid"
    and raises: "\<And>q. \<exists>t. tx 0 (request_to q url) = (t, Uncaught (InvalidURL msg))"
  shows "gateway_get_user reg tx now inject s uid sc b = (Inl (InvalidURL msg), b1) \<and>
    respond emit emit_raw reg ctx sc (Inl (InvalidURL msg)) = \<lparr>sent = [], raised = Some (InvalidURL msg)\<rparr>"
proof -
  let ?q = "\<lparr>out_method = ''GET'', out_path = ''/v1/users/'' @ uid, out_headers = outgoing_headers inject sc dev_identity,
    out_content = (if sc_body sc = [] then None else Some (sc_body sc))\<rparr>"
  have ne: "b_urls b \<noteq> []" using chosen by (auto simp: next_url_def)
  obtain t where "tx 0 (request_to ?q url) = (t, Uncaught (InvalidURL msg))" using raises by blast
  note r = uncaught_ends_request [where tx = tx, OF chosen ne this]
  have "permitted ''GET'' (''/v1/users/'' @ uid)" using ok by (auto simp: permitted_def)
  then have "check_function_access reg ''GET'' (''/v1/users/'' @ uid) dev_identity = Inr ()"
    by (simp add: check_function_access_Inr dev_identity_def)
  then show ?thesis using ok(1) r
    by (simp add: gateway_get_user_def verify_token_valid proxy_request_def Let_def respond_def)
qed



end
