(* ===== verification/Pool.thy ===== *)
theory Pool
  imports Balancer
begin

section \<open>The load balancer with interleaved tasks: gateway_app/balancer.py\<close>

text \<open>
  The pool of \<open>Balancer\<close> as the event loop runs it: requests, probes and refreshes switch at each
  \<open>await\<close>. Refinement to the sequential model, the invariant in every interleaving, and termination.
\<close>

subsection \<open>Tasks and steps\<close>

text \<open>
  The coroutines of one event loop switch only at an \<open>await\<close>. A request in flight is a
  \<open>req_task\<close>: the URL it waits for, the attempts left of its \<open>range(len(self._urls))\<close>, the set
  \<open>tried\<close> and \<open>last_error\<close>. A probe in flight is a \<open>probe_task\<close>: the URL it waits for, the rest of the
  list it iterates, and whether the \<open>state\<close> object it holds is still the one of the pool
  (a refresh that drops the URL makes it a dead object).
\<close>

record req_task =
  rt_q :: outgoing
  rt_left :: nat
  rt_url :: string
  rt_tried :: "string list"
  rt_err :: "string option"

text \<open>One pass of the loop head, up to the \<open>await\<close> of the request.\<close>

definition to_await ::
  "registry \<Rightarrow> real \<Rightarrow> outgoing \<Rightarrow> nat \<Rightarrow> string list \<Rightarrow> string option \<Rightarrow> balancer \<Rightarrow> (exn + req_task) \<times> balancer" where
  "to_await reg now q n tried last_error b =
     (case n of
        0 \<Rightarrow> (Inl (exhausted reg last_error), b)
      | Suc m \<Rightarrow>
          (case next_url reg now b of
             (Inl e, b1) \<Rightarrow> (Inl e, b1)
           | (Inr url, b1) \<Rightarrow>
               if url \<in> set tried then (Inl (exhausted reg last_error), b1)
               else (Inr \<lparr>rt_q = q, rt_left = m, rt_url = url, rt_tried = url # tried, rt_err = last_error\<rparr>, b1)))"

text \<open>From the answer of the upstream to the next \<open>await\<close>, the return or the exception.\<close>

definition on_answer ::
  "registry \<Rightarrow> real \<Rightarrow> http_result \<Rightarrow> req_task \<Rightarrow> balancer \<Rightarrow> ((exn + upstream_response) + req_task) \<times> balancer" where
  "on_answer reg t res tk b =
     (let url = rt_url tk;
          again = (\<lambda>err b2. case to_await reg t (rt_q tk) (rt_left tk) (rt_tried tk) (Some err) b2 of
                               (Inl e, b3) \<Rightarrow> (Inl (Inl e), b3) | (Inr tk', b3) \<Rightarrow> (Inr tk', b3))
      in case res of
           HTTPError msg \<Rightarrow>
             (case record_failure t url b of None \<Rightarrow> (Inl (Inl (KeyError url)), b) | Some b2 \<Rightarrow> again msg b2)
         | Response r \<Rightarrow>
             if 500 \<le> ur_status r then
               (case record_failure t url b of
                  None \<Rightarrow> (Inl (Inl (KeyError url)), b)
                | Some b2 \<Rightarrow> again (utf8 [0x4E0A, 0x6E38] @ '' '' @ url @ '' '' @ utf8 [0x8FD4, 0x56DE] @ '' '' @ show_int (ur_status r)) b2)
             else
               (case record_success url b of
                  None \<Rightarrow> (Inl (Inl (KeyError url)), b)
                | Some b2 \<Rightarrow> (Inl (Inr (r\<lparr>ur_headers := AList.update ''x-upstream'' url (ur_headers r)\<rparr>)), b2))
         | Uncaught e \<Rightarrow> (Inl (Inl e), b))"

record probe_task =
  pt_url :: string
  pt_rest :: "string list"
  pt_live :: bool

fun probe_next :: "string list \<Rightarrow> balancer \<Rightarrow> exn option + probe_task" where
  "probe_next [] b = Inl None"
| "probe_next (url # urls) b =
     (case map_of (b_states b) url of
        None \<Rightarrow> Inl (Some (KeyError url))
      | Some s \<Rightarrow>
          if healthy s then probe_next urls b
          else Inr \<lparr>pt_url = url, pt_rest = urls, pt_live = True\<rparr>)"

definition set_down :: "real \<Rightarrow> string \<Rightarrow> balancer \<Rightarrow> balancer" where
  "set_down t url b =
     (case map_of (b_states b) url of
        None \<Rightarrow> b
      | Some s \<Rightarrow> b\<lparr>b_states := AList.update url (s\<lparr>down_since := Some t\<rparr>) (b_states b)\<rparr>)"

definition on_probe_answer :: "real \<Rightarrow> http_result \<Rightarrow> probe_task \<Rightarrow> balancer \<Rightarrow> (exn option + probe_task) \<times> balancer" where
  "on_probe_answer t res pt b =
     (case res of
        Response r \<Rightarrow>
          if ur_status r < 500 then
            (case record_success (pt_url pt) b of
               None \<Rightarrow> (Inl (Some (KeyError (pt_url pt))), b)
             | Some b' \<Rightarrow> (probe_next (pt_rest pt) b', b'))
          else (probe_next (pt_rest pt) b, b)
      | HTTPError msg \<Rightarrow>
          (let b' = (if pt_live pt then set_down t (pt_url pt) b else b) in (probe_next (pt_rest pt) b', b'))
      | Uncaught e \<Rightarrow> (Inl (Some e), b))"

text \<open>The pool with its tasks; \<open>p_out\<close> are the results of the requests that ended, latest first. The end of the process
  cancels a probe round that waits (\<open>ProbeCancelled\<close>).\<close>

record pool =
  p_bal :: balancer
  p_tasks :: "req_task list"
  p_probes :: "probe_task list"
  p_out :: "(exn + upstream_response) list"

datatype pool_event =
    Arrive real outgoing
  | Answer nat real http_result
  | Refreshed "string list"
  | ProbeStart
  | ProbeAnswer nat real http_result
  | ProbeCancelled nat

definition drop_nth :: "nat \<Rightarrow> 'a list \<Rightarrow> 'a list" where
  "drop_nth i xs = take i xs @ drop (Suc i) xs"

fun pool_step :: "registry \<Rightarrow> pool_event \<Rightarrow> pool \<Rightarrow> pool" where
  "pool_step reg (Arrive now q) s =
     (case to_await reg now q (length (b_urls (p_bal s))) [] None (p_bal s) of
        (Inl e, b) \<Rightarrow> s\<lparr>p_bal := b, p_out := Inl e # p_out s\<rparr>
      | (Inr tk, b) \<Rightarrow> s\<lparr>p_bal := b, p_tasks := p_tasks s @ [tk]\<rparr>)"
| "pool_step reg (Answer i t res) s =
     (if i < length (p_tasks s) then
        (case on_answer reg t res (p_tasks s ! i) (p_bal s) of
           (Inl r, b) \<Rightarrow> s\<lparr>p_bal := b, p_tasks := drop_nth i (p_tasks s), p_out := r # p_out s\<rparr>
         | (Inr tk, b) \<Rightarrow> s\<lparr>p_bal := b, p_tasks := (p_tasks s)[i := tk]\<rparr>)
      else s)"
| "pool_step reg (Refreshed urls) s =
     s\<lparr>p_bal := refresh urls (p_bal s),
       p_probes := (if urls = [] then p_probes s
                    else map (\<lambda>pt. pt\<lparr>pt_live := pt_live pt \<and> pt_url pt \<in> set urls\<rparr>) (p_probes s))\<rparr>"
| "pool_step reg ProbeStart s =
     (case probe_next (b_urls (p_bal s)) (p_bal s) of
        Inl e \<Rightarrow> s
      | Inr pt \<Rightarrow> s\<lparr>p_probes := p_probes s @ [pt]\<rparr>)"
| "pool_step reg (ProbeAnswer i t res) s =
     (if i < length (p_probes s) then
        (case on_probe_answer t res (p_probes s ! i) (p_bal s) of
           (Inl e, b) \<Rightarrow> s\<lparr>p_bal := b, p_probes := drop_nth i (p_probes s)\<rparr>
         | (Inr pt, b) \<Rightarrow> s\<lparr>p_bal := b, p_probes := (p_probes s)[i := pt]\<rparr>)
      else s)"
| "pool_step reg (ProbeCancelled i) s = s\<lparr>p_probes := drop_nth i (p_probes s)\<rparr>"

definition pool_init :: "balancer \<Rightarrow> pool" where
  "pool_init b = \<lparr>p_bal = b, p_tasks = [], p_probes = [], p_out = []\<rparr>"

text \<open>\<open>X\<close> are the exceptions beside \<open>HTTPError\<close> that the client may raise.\<close>

definition raises_in :: "exn set \<Rightarrow> pool_event \<Rightarrow> bool" where
  "raises_in X e \<longleftrightarrow> (case e of Answer i t (Uncaught x) \<Rightarrow> x \<in> X | _ \<Rightarrow> True)"

inductive reachable :: "registry \<Rightarrow> exn set \<Rightarrow> balancer \<Rightarrow> pool \<Rightarrow> bool" for reg X b0 where
  start: "reachable reg X b0 (pool_init b0)"
| step: "reachable reg X b0 s \<Longrightarrow> raises_in X e \<Longrightarrow> reachable reg X b0 (pool_step reg e s)"

text \<open>A task whose upstreams answer at once, without steps of other tasks between.\<close>

function drive :: "registry \<Rightarrow> transport \<Rightarrow> nat \<Rightarrow> req_task \<Rightarrow> balancer \<Rightarrow> (exn + upstream_response) \<times> balancer" where
  "drive reg tx k tk b =
     (case tx k (request_to (rt_q tk) (rt_url tk)) of
        (t, res) \<Rightarrow>
          (case on_answer reg t res tk b of
             (Inl r, b') \<Rightarrow> (r, b')
           | (Inr tk', b') \<Rightarrow> drive reg tx (Suc k) tk' b'))"
  by pat_completeness auto

lemma on_answer_left: "on_answer reg t res tk b = (Inr tk', b') \<Longrightarrow> rt_left tk' < rt_left tk"
  by (auto simp: on_answer_def to_await_def Let_def
      split: http_result.splits if_splits option.splits sum.splits prod.splits nat.splits)

termination drive
  by (relation "measure (\<lambda>(reg, tx, k, tk, b). rt_left tk)") (auto dest: on_answer_left [OF sym])

declare drive.simps [simp del]

lemma request_loop_drive:
  "request_loop reg tx q n k now tried err b =
     (case to_await reg now q n tried err b of
        (Inl e, b1) \<Rightarrow> (Inl e, b1)
      | (Inr tk, b1) \<Rightarrow> drive reg tx k tk b1)"
proof (induction n arbitrary: k now tried err b)
  case 0
  then show ?case by (simp add: to_await_def)
next
  case (Suc m)
  obtain x b1 where nx: "next_url reg now b = (x, b1)" by fastforce
  show ?case
  proof (cases x)
    case (Inl e)
    then show ?thesis using nx by (simp add: to_await_def)
  next
    case (Inr u)
    obtain t res where tr: "tx k (request_to q u) = (t, res)" by fastforce
    show ?thesis using nx Inr tr
      by (cases res)
        (auto simp: to_await_def [of _ now] on_answer_def Let_def drive.simps [of reg tx k] Suc.IH
          split: option.splits sum.splits prod.splits)
  qed
qed


subsection \<open>The invariant under every interleaving\<close>

lemma inv_to_await:
  assumes "bal_inv b" "to_await reg now q n tried err b = (x, b1)"
  shows "bal_inv b1" "b_urls b1 = b_urls b" "x = Inr tk \<Longrightarrow> rt_url tk \<in> set (b_urls b)"
    "x = Inl e \<Longrightarrow> \<exists>msg. e = all_down reg msg"
proof -
  obtain y b2 where nx: "next_url reg now b = (y, b2)" by fastforce
  have inv: "bal_inv b2" using inv_next_url [OF assms(1), of reg now] nx by simp
  have b2: "b_urls b2 = b_urls b \<and> (\<forall>u. y = Inr u \<longrightarrow> u \<in> set (b_urls b))"
    using next_url_cases [OF assms(1), of reg now] nx
    by (cases "b_urls b = []") (auto simp: next_url_def)
  have ex: "\<And>e. y = Inl e \<Longrightarrow> \<exists>msg. e = all_down reg msg"
    using next_url_exn [OF assms(1)] nx by blast
  show "bal_inv b1" "b_urls b1 = b_urls b" "x = Inr tk \<Longrightarrow> rt_url tk \<in> set (b_urls b)"
    "x = Inl e \<Longrightarrow> \<exists>msg. e = all_down reg msg"
    using assms(2) assms(1) inv b2 ex nx
    by (auto simp: to_await_def exhausted_def split: nat.splits sum.splits if_splits)
qed

lemma record_None: "bal_inv b \<Longrightarrow> u \<notin> set (b_urls b) \<Longrightarrow> record_failure t u b = None \<and> record_success u b = None"
  using inv_known [of b u] by (auto simp: record_failure_def record_success_def split: option.split)

lemma record_success_urls: "record_success u b = Some b' \<Longrightarrow> b_urls b' = b_urls b"
  by (auto simp: record_success_def split: option.splits)

lemma on_answer_dropped:
  "bal_inv b \<Longrightarrow> rt_url tk \<notin> set (b_urls b) \<Longrightarrow>
     on_answer reg t res tk b = (Inl (Inl (case res of Uncaught e \<Rightarrow> e | _ \<Rightarrow> KeyError (rt_url tk))), b)"
  by (auto simp: on_answer_def Let_def record_None split: http_result.split)

lemma inv_on_answer:
  assumes "bal_inv b" "on_answer reg t res tk b = (x, b1)"
  shows "bal_inv b1" "b_urls b1 = b_urls b" "x = Inr tk' \<Longrightarrow> rt_url tk' \<in> set (b_urls b)"
    "x = Inl (Inl e) \<Longrightarrow> (\<exists>msg. e = all_down reg msg) \<or> e = KeyError (rt_url tk) \<and> rt_url tk \<notin> set (b_urls b) \<or> res = Uncaught e"
proof -
  have "bal_inv b1 \<and> b_urls b1 = b_urls b \<and> (\<forall>tk'. x = Inr tk' \<longrightarrow> rt_url tk' \<in> set (b_urls b)) \<and>
      (\<forall>e. x = Inl (Inl e) \<longrightarrow> (\<exists>msg. e = all_down reg msg) \<or> e = KeyError (rt_url tk) \<and> rt_url tk \<notin> set (b_urls b) \<or> res = Uncaught e)"
  proof (cases "rt_url tk \<in> set (b_urls b)")
    case False
    then show ?thesis using on_answer_dropped [OF assms(1) False] assms by (cases res) auto
  next
    case True
    obtain b2 where b2: "record_failure t (rt_url tk) b = Some b2" using record_known [OF assms(1) True] by blast
    obtain b3 where b3: "record_success (rt_url tk) b = Some b3" using record_known [OF assms(1) True] by blast
    note i2 = inv_record_failure [OF assms(1) b2] record_failure_frame(1) [OF b2]
    note i3 = inv_record_success [OF assms(1) b3] record_success_urls [OF b3]
    show ?thesis using assms(1,2) b2 b3 i2 i3
      by (auto simp: on_answer_def Let_def split: http_result.splits if_splits sum.splits prod.splits
          dest: inv_to_await [OF i2(1)])
  qed
  then show "bal_inv b1" "b_urls b1 = b_urls b" "x = Inr tk' \<Longrightarrow> rt_url tk' \<in> set (b_urls b)"
    "x = Inl (Inl e) \<Longrightarrow> (\<exists>msg. e = all_down reg msg) \<or> e = KeyError (rt_url tk) \<and> rt_url tk \<notin> set (b_urls b) \<or> res = Uncaught e"
    by blast+
qed

lemma inv_set_down: "bal_inv b \<Longrightarrow> bal_inv (set_down t u b)"
  by (auto simp: set_down_def split: option.split intro!: inv_update dest: inv_state)
    (auto simp: inst_ok_def dest: inv_state split: if_splits)

lemma inv_on_probe_answer:
  "bal_inv b \<Longrightarrow> on_probe_answer t res pt b = (x, b1) \<Longrightarrow> bal_inv b1 \<and> b_urls b1 = b_urls b"
  by (auto simp: on_probe_answer_def Let_def inv_set_down record_success_urls dest: inv_record_success
      split: http_result.splits if_splits option.splits)
    (auto simp: set_down_def split: option.split)

lemma set_drop_nth: "x \<in> set (drop_nth i xs) \<Longrightarrow> x \<in> set xs"
  by (auto simp: drop_nth_def dest: in_set_takeD in_set_dropD)

definition tasks_in_pool :: "pool \<Rightarrow> bool" where
  "tasks_in_pool s \<longleftrightarrow> list_all (\<lambda>tk. rt_url tk \<in> set (b_urls (p_bal s))) (p_tasks s)"

definition expected :: "registry \<Rightarrow> bool \<Rightarrow> exn set \<Rightarrow> pool \<Rightarrow> bool" where
  "expected reg keys X s \<longleftrightarrow> (\<forall>e. Inl e \<in> set (p_out s) \<longrightarrow>
     (\<exists>msg. e = all_down reg msg) \<or> keys \<and> (\<exists>u. e = KeyError u) \<or> e \<in> X)"

text \<open>A refresh that removes an instance.\<close>

definition drops :: "pool \<Rightarrow> pool_event \<Rightarrow> bool" where
  "drops s e = (case e of Refreshed us \<Rightarrow> us \<noteq> [] \<and> \<not> set (b_urls (p_bal s)) \<subseteq> set us | _ \<Rightarrow> False)"

lemma pool_step_inv:
  assumes "bal_inv (p_bal s)" "expected reg keys X s" "keys \<or> tasks_in_pool s \<and> \<not> drops s e" "raises_in X e"
  shows "bal_inv (p_bal (pool_step reg e s)) \<and> expected reg keys X (pool_step reg e s)
    \<and> (keys \<or> tasks_in_pool (pool_step reg e s))"
proof (cases e)
  case (Arrive now q)
  obtain x b where x: "to_await reg now q (length (b_urls (p_bal s))) [] None (p_bal s) = (x, b)" by fastforce
  show ?thesis using assms Arrive x inv_to_await [OF assms(1) x]
    by (cases x) (auto simp: expected_def tasks_in_pool_def list_all_iff)
next
  case (Answer i t res)
  show ?thesis
  proof (cases "i < length (p_tasks s)")
    case True
    obtain x b where x: "on_answer reg t res (p_tasks s ! i) (p_bal s) = (x, b)" by fastforce
    have i: "p_tasks s ! i \<in> set (p_tasks s)" using True by simp
    note inv = inv_on_answer [OF assms(1) x]
    show ?thesis
    proof (cases x)
      case (Inl r)
      have "r = Inl e \<Longrightarrow> (\<exists>msg. e = all_down reg msg) \<or> keys \<and> (\<exists>u. e = KeyError u) \<or> e \<in> X" for e
        using inv(4) [of e] Inl assms(3,4) i Answer by (auto simp: tasks_in_pool_def list_all_iff raises_in_def)
      then show ?thesis using assms Answer True x Inl inv(1,2)
        by (auto simp: expected_def tasks_in_pool_def list_all_iff dest: set_drop_nth)
    next
      case (Inr tk)
      then show ?thesis using assms Answer True x inv(1,2,3)
        by (auto simp: expected_def tasks_in_pool_def list_all_iff dest!: set_update_subset_insert [THEN subsetD])
    qed
  next
    case False
    then show ?thesis using assms Answer by auto
  qed
next
  case (Refreshed us)
  then show ?thesis using assms inv_refresh [OF assms(1), of us]
    by (auto simp: expected_def tasks_in_pool_def list_all_iff drops_def refresh_urls)
next
  case ProbeStart
  then show ?thesis using assms
    by (auto simp: expected_def tasks_in_pool_def split: sum.split)
next
  case (ProbeAnswer i t res)
  obtain x b where x: "on_probe_answer t res (p_probes s ! i) (p_bal s) = (x, b)" by fastforce
  show ?thesis using assms ProbeAnswer x inv_on_probe_answer [OF assms(1) x]
    by (cases x) (auto simp: expected_def tasks_in_pool_def)
next
  case (ProbeCancelled i)
  then show ?thesis using assms by (auto simp: expected_def tasks_in_pool_def)
qed

lemma pool_invariant_for:
  assumes "reachable reg X b0 s" "bal_inv b0"
  shows "bal_inv (p_bal s) \<and> expected reg True X s"
  using assms
proof (induction rule: reachable.induct)
  case start
  then show ?case by (simp add: pool_init_def expected_def)
next
  case (step s e)
  then show ?case using pool_step_inv [of s reg True X e] by auto
qed

text \<open>C5: In every reachable state of the pool, whatever requests, probes and refreshes interleave, the
  invariant holds, and a request ends with a response, the downstream error, a \<open>KeyError\<close> or an exception of the
  client that is no \<open>HTTPError\<close>.\<close>

theorem pool_invariant:
  assumes "reachable reg X b0 s" "bal_inv b0"
  shows "bal_inv (p_bal s) \<and>
    (\<forall>e. Inl e \<in> set (p_out s) \<longrightarrow> (\<exists>msg. e = all_down reg msg) \<or> (\<exists>u. e = KeyError u) \<or> e \<in> X)"
  using pool_invariant_for [OF assms] by (simp add: expected_def)

lemma pool_invariant_witness:
  "bal_inv (p_bal (pool_step builtin_registry (Refreshed [''http://c'']) (pool_step builtin_registry (Arrive 0 get_users) (pool_init two_hosts))))"
proof -
  let ?s = "pool_step builtin_registry (Refreshed [''http://c'']) (pool_step builtin_registry (Arrive 0 get_users) (pool_init two_hosts))"
  have "reachable builtin_registry {} two_hosts ?s" by (intro reachable.intros) (simp_all add: raises_in_def)
  from pool_invariant [OF this two_hosts_inv] show ?thesis by blast
qed

inductive reachable_keeping :: "registry \<Rightarrow> exn set \<Rightarrow> balancer \<Rightarrow> pool \<Rightarrow> bool" for reg X b0 where
  start: "reachable_keeping reg X b0 (pool_init b0)"
| step: "reachable_keeping reg X b0 s \<Longrightarrow> \<not> drops s e \<Longrightarrow> raises_in X e \<Longrightarrow> reachable_keeping reg X b0 (pool_step reg e s)"

lemma keeping_for:
  assumes "reachable_keeping reg X b0 s" "bal_inv b0"
  shows "bal_inv (p_bal s) \<and> expected reg False X s \<and> tasks_in_pool s"
  using assms
proof (induction rule: reachable_keeping.induct)
  case start
  then show ?case by (simp add: pool_init_def expected_def tasks_in_pool_def)
next
  case (step s e)
  then show ?case using pool_step_inv [of s reg False X e] by auto
qed

text \<open>As long as no refresh removes an instance, no request ends with a \<open>KeyError\<close> of the balancer, in any
  interleaving.\<close>

theorem no_key_error_without_removal:
  assumes "reachable_keeping reg X b0 s" "bal_inv b0" "Inl e \<in> set (p_out s)"
  shows "(\<exists>msg. e = all_down reg msg) \<or> e \<in> X"
  using keeping_for [OF assms(1,2)] assms(3) by (auto simp: expected_def)

lemma no_key_error_without_removal_witness:
  "\<exists>msg. exhausted builtin_registry None = all_down builtin_registry msg"
proof -
  let ?b = "balancer_init [] 3 30"
  let ?s = "pool_step builtin_registry (Arrive 0 get_users) (pool_init ?b)"
  have "reachable_keeping builtin_registry {} ?b ?s"
    by (rule reachable_keeping.step [OF reachable_keeping.start]) (simp_all add: drops_def raises_in_def)
  moreover have "bal_inv ?b" by (simp add: inv_init)
  moreover have "b_urls ?b = []" by (simp add: balancer_init_def)
  then have "Inl (exhausted builtin_registry None) \<in> set (p_out ?s)" by (simp add: pool_init_def to_await_def)
  ultimately show ?thesis using no_key_error_without_removal [of builtin_registry "{}"] by blast
qed

text \<open>A refresh that removes the instance a request waits for makes that request fail with a
  \<open>KeyError\<close>, whatever the instance answers, a success included: the failover is not tried.\<close>

theorem refresh_breaks_in_flight:
  assumes "bal_inv (p_bal s)" "i < length (p_tasks s)" "us \<noteq> []" "rt_url (p_tasks s ! i) \<notin> set us"
    and "\<forall>e. res \<noteq> Uncaught e"
  shows "p_out (pool_step reg (Answer i t res) (pool_step reg (Refreshed us) s))
    = Inl (KeyError (rt_url (p_tasks s ! i))) # p_out s"
proof -
  have "on_answer reg t res (p_tasks s ! i) (refresh us (p_bal s))
      = (Inl (Inl (KeyError (rt_url (p_tasks s ! i)))), refresh us (p_bal s))"
    using on_answer_dropped [of "refresh us (p_bal s)" "p_tasks s ! i" reg t res] assms inv_refresh [OF assms(1)]
    by (cases res) (simp_all add: refresh_urls)
  then show ?thesis using assms(2) by simp
qed

lemma refresh_breaks_in_flight_witness:
  "p_out (pool_step builtin_registry (Answer 0 1 (Response \<lparr>ur_status = 200, ur_headers = [], ur_content = ''ok''\<rparr>))
     (pool_step builtin_registry (Refreshed [''http://b'']) (pool_step builtin_registry (Arrive 0 get_users) (pool_init two_hosts))))
   = [Inl (KeyError ''http://a'')]"
proof -
  let ?s = "pool_step builtin_registry (Arrive 0 get_users) (pool_init two_hosts)"
  have "next_url builtin_registry 0 two_hosts = (Inr ''http://a'', two_hosts\<lparr>b_rr := 1\<rparr>)"
    by (simp add: next_url_def is_available_def fresh_state_def) (simp add: two_hosts_def balancer_init_def)
  then have s: "?s = \<lparr>p_bal = two_hosts\<lparr>b_rr := 1\<rparr>,
      p_tasks = [\<lparr>rt_q = get_users, rt_left = 1, rt_url = ''http://a'', rt_tried = [''http://a''], rt_err = None\<rparr>],
      p_probes = [], p_out = []\<rparr>"
    by (simp add: pool_init_def to_await_def)
  have "bal_inv (two_hosts\<lparr>b_rr := 1\<rparr>)" by (rule inv_rr [OF two_hosts_inv]) simp
  with refresh_breaks_in_flight [of ?s 0 "[''http://b'']" _ builtin_registry 1] show ?thesis unfolding s by simp
qed

subsection \<open>Every task ends\<close>

text \<open>
  The work of a pool: the answers its tasks may still wait for. A request has \<open>rt_left\<close> attempts beside
  the one in flight, a probe round the rest of its list.
\<close>

definition work :: "pool \<Rightarrow> nat" where
  "work s = sum_list (map (\<lambda>tk. Suc (rt_left tk)) (p_tasks s))
     + sum_list (map (\<lambda>pt. Suc (length (pt_rest pt))) (p_probes s))"

text \<open>The answers that a sequence of events delivers to waiting tasks, and the work it brings in.\<close>

fun pool_run :: "registry \<Rightarrow> pool_event list \<Rightarrow> pool \<Rightarrow> pool" where
  "pool_run reg [] s = s"
| "pool_run reg (e # es) s = pool_run reg es (pool_step reg e s)"

definition delivered :: "pool_event \<Rightarrow> pool \<Rightarrow> nat" where
  "delivered e s =
     (case e of
        Answer i t res \<Rightarrow> if i < length (p_tasks s) then 1 else 0
      | ProbeAnswer i t res \<Rightarrow> if i < length (p_probes s) then 1 else 0
      | _ \<Rightarrow> 0)"

definition brought :: "pool_event \<Rightarrow> pool \<Rightarrow> nat" where
  "brought e s =
     (case e of
        Arrive now q \<Rightarrow> length (b_urls (p_bal s))
      | ProbeStart \<Rightarrow> length (b_urls (p_bal s))
      | _ \<Rightarrow> 0)"

fun delivered_all :: "registry \<Rightarrow> pool_event list \<Rightarrow> pool \<Rightarrow> nat" where
  "delivered_all reg [] s = 0"
| "delivered_all reg (e # es) s = delivered e s + delivered_all reg es (pool_step reg e s)"

fun brought_all :: "registry \<Rightarrow> pool_event list \<Rightarrow> pool \<Rightarrow> nat" where
  "brought_all reg [] s = 0"
| "brought_all reg (e # es) s = brought e s + brought_all reg es (pool_step reg e s)"

definition arrival :: "pool_event \<Rightarrow> bool" where
  "arrival e = (case e of Arrive now q \<Rightarrow> True | _ \<Rightarrow> False)"

lemma to_await_left: "to_await reg now q n tried err b = (Inr tk, b') \<Longrightarrow> rt_left tk < n"
  by (auto simp: to_await_def split: nat.splits sum.splits prod.splits if_splits)

lemma probe_next_rest: "probe_next us b = Inr pt \<Longrightarrow> length (pt_rest pt) < length us"
  by (induction us) (auto split: option.splits if_splits)

lemma on_probe_answer_rest:
  "on_probe_answer t res pt b = (Inr pt', b') \<Longrightarrow> length (pt_rest pt') < length (pt_rest pt)"
  by (auto simp: on_probe_answer_def Let_def split: http_result.splits if_splits option.splits
      dest: probe_next_rest)

lemma sum_list_drop_nth:
  "i < length xs \<Longrightarrow> sum_list (map f xs) = sum_list (map f (drop_nth i xs)) + (f (xs ! i) :: nat)"
  by (subst (1) id_take_nth_drop [of i xs]) (simp_all add: drop_nth_def)

lemma sum_list_update_less:
  fixes f :: "'a \<Rightarrow> nat"
  assumes "i < length xs" "f x < f (xs ! i)"
  shows "Suc (sum_list (map f (xs[i := x]))) \<le> sum_list (map f xs)"
  using assms sum_list_drop_nth [of i xs f] sum_list_drop_nth [of i "xs[i := x]" f]
  by (simp add: drop_nth_def)

lemma length_drop_nth: "i < length xs \<Longrightarrow> Suc (length (drop_nth i xs)) = length xs"
  by (simp add: drop_nth_def)

lemma length_le_sum: "length xs \<le> sum_list (map (\<lambda>x. Suc (f x)) xs)"
  by (induction xs) auto

lemma step_work: "delivered e s + work (pool_step reg e s) \<le> work s + brought e s"
proof (cases e)
  case (Arrive now q)
  then show ?thesis
    by (auto simp: delivered_def brought_def work_def split: sum.split prod.split dest!: to_await_left)
next
  case (Answer i t res)
  show ?thesis
  proof (cases "i < length (p_tasks s)")
    case True
    obtain x b where x: "on_answer reg t res (p_tasks s ! i) (p_bal s) = (x, b)" by fastforce
    let ?f = "\<lambda>tk. Suc (rt_left tk)"
    have "Suc (sum_list (map ?f ((p_tasks s)[i := tk]))) \<le> sum_list (map ?f (p_tasks s))" if "x = Inr tk" for tk
      by (rule sum_list_update_less [OF True]) (use on_answer_left x that in auto)
    with sum_list_drop_nth [OF True, of ?f] Answer True x show ?thesis
      by (cases x) (auto simp: delivered_def work_def)
  qed (simp add: Answer delivered_def brought_def)
next
  case (Refreshed us)
  then show ?thesis by (simp add: delivered_def brought_def work_def comp_def)
next
  case ProbeStart
  then show ?thesis
    by (auto simp: delivered_def brought_def work_def split: sum.split dest!: probe_next_rest)
next
  case (ProbeAnswer i t res)
  show ?thesis
  proof (cases "i < length (p_probes s)")
    case True
    obtain x b where x: "on_probe_answer t res (p_probes s ! i) (p_bal s) = (x, b)" by fastforce
    let ?f = "\<lambda>pt. Suc (length (pt_rest pt))"
    have "Suc (sum_list (map ?f ((p_probes s)[i := pt]))) \<le> sum_list (map ?f (p_probes s))" if "x = Inr pt" for pt
      by (rule sum_list_update_less [OF True]) (use on_probe_answer_rest x that in auto)
    with sum_list_drop_nth [OF True, of ?f] ProbeAnswer True x show ?thesis
      by (cases x) (auto simp: delivered_def work_def)
  qed (simp add: ProbeAnswer delivered_def brought_def)
next
  case (ProbeCancelled i)
  then show ?thesis using sum_list_drop_nth [of i "p_probes s" "\<lambda>pt. Suc (length (pt_rest pt))"]
    by (cases "i < length (p_probes s)") (simp_all add: delivered_def brought_def work_def drop_nth_def)
qed

lemma step_results:
  "length (p_out (pool_step reg e s)) + length (p_tasks (pool_step reg e s))
     = length (p_out s) + length (p_tasks s) + (if arrival e then 1 else 0)"
  by (cases e) (auto simp: arrival_def length_drop_nth split: sum.split prod.split)

text \<open>C20: Requests and probe rounds terminate in every interleaving: the answers that waiting tasks receive, with
  those that they may still need, are at most the ones needed at the start and the size of the pool at each
  arrival and each start of a round. So a request waits for at most as many answers as the pool had instances
  when it came; and each request ends with exactly one result.\<close>

theorem tasks_terminate:
  "delivered_all reg es s + work (pool_run reg es s) \<le> work s + brought_all reg es s \<and>
   length (p_out (pool_run reg es s)) + length (p_tasks (pool_run reg es s))
     = length (p_out s) + length (p_tasks s) + length (filter arrival es) \<and>
   length (p_tasks (pool_run reg es s)) + length (p_probes (pool_run reg es s)) \<le> work (pool_run reg es s)"
proof (intro conjI)
  show "delivered_all reg es s + work (pool_run reg es s) \<le> work s + brought_all reg es s"
  proof (induction es arbitrary: s)
    case (Cons e es)
    from Cons.IH [of "pool_step reg e s"] step_work [of e s reg] show ?case by simp
  qed simp
  show "length (p_out (pool_run reg es s)) + length (p_tasks (pool_run reg es s))
      = length (p_out s) + length (p_tasks s) + length (filter arrival es)"
    by (induction es arbitrary: s) (simp_all add: step_results)
  show "length (p_tasks (pool_run reg es s)) + length (p_probes (pool_run reg es s))
      \<le> work (pool_run reg es s)"
    unfolding work_def by (intro add_mono length_le_sum)
qed

end
