(* ===== verification/Gateway_Process.thy ===== *)
theory Gateway_Process
  imports Gateway Pool Registry
begin

section \<open>The gateway as a process: the lifespan of gateway_app/main.py\<close>

text \<open>
  The load balancer of \<open>Pool\<close> with the tasks around it, as a step relation: the lifespan starts the probe loop and,
  if a service to discover is configured, the discovery loop; while they run requests come and the registry
  changes under other processes; at the end the lifespan cancels the tasks, waits for them, closes the client of the balancer
  and then the registry. The runs refine those of \<open>Pool\<close>, so what holds in every interleaving there holds for the
  process; the properties are about the addresses a gateway calls.
\<close>

declare pool_step.simps [simp del]

subsection \<open>The process\<close>

text \<open>\<open>Broken\<close>: closing the client or the registry raised. \<open>gp_listed\<close> is what the registry answered to the discovery
  loop, which the loop has not read yet; in between other tasks run.\<close>

datatype gateway_phase = Booting | Open | Draining | Client_closed | Shut | Broken

record 'r gateway_process =
  gp_phase :: gateway_phase
  gp_pool :: pool
  gp_tasks :: "background list"
  gp_listed :: "string list option"
  gp_registry :: 'r
  gp_now :: real

definition gateway_start :: "gateway_settings \<Rightarrow> 'r \<Rightarrow> real \<Rightarrow> 'r gateway_process" where
  "gateway_start s r now =
     \<lparr>gp_phase = Booting, gp_pool = pool_init (gateway_balancer s), gp_tasks = [], gp_listed = None, gp_registry = r, gp_now = now\<rparr>"

text \<open>
  \<open>reg\<close> are the error codes, \<open>X\<close> the exceptions beside \<open>HTTPError\<close> that the client may raise, \<open>list_urls\<close> and \<open>shut\<close> the
  registry's \<open>list\<close> and \<open>close\<close>, and \<open>others\<close> what other processes may do to the registry.
\<close>

inductive gateway_step ::
  "registry \<Rightarrow> exn set \<Rightarrow> gateway_settings \<Rightarrow> (real \<Rightarrow> string \<Rightarrow> 'r \<Rightarrow> string list \<times> 'r) \<Rightarrow> ('r \<Rightarrow> 'r) \<Rightarrow> ('r \<Rightarrow> 'r \<Rightarrow> bool)
    \<Rightarrow> 'r gateway_process \<Rightarrow> 'r gateway_process \<Rightarrow> bool"
  for reg X s list_urls shut others where
  start: "gp_phase a = Booting \<Longrightarrow>
    gateway_step reg X s list_urls shut others a (a\<lparr>gp_phase := Open, gp_tasks := lifespan_tasks s\<rparr>)"
| request: "gp_phase a = Open \<Longrightarrow>
    gateway_step reg X s list_urls shut others a (a\<lparr>gp_pool := pool_step reg (Arrive (gp_now a) q) (gp_pool a)\<rparr>)"
| answer: "raises_in X (Answer i (gp_now a) res) \<Longrightarrow>
    gateway_step reg X s list_urls shut others a (a\<lparr>gp_pool := pool_step reg (Answer i (gp_now a) res) (gp_pool a)\<rparr>)"
| probe: "ProbeLoop \<in> set (gp_tasks a) \<Longrightarrow> p_probes (gp_pool a) = [] \<Longrightarrow>
    gateway_step reg X s list_urls shut others a (a\<lparr>gp_pool := pool_step reg ProbeStart (gp_pool a)\<rparr>)"
| probed: "ProbeLoop \<in> set (gp_tasks a) \<Longrightarrow>
    gateway_step reg X s list_urls shut others a (a\<lparr>gp_pool := pool_step reg (ProbeAnswer 0 (gp_now a) res) (gp_pool a)\<rparr>)"
| listed: "DiscoveryLoop svc \<in> set (gp_tasks a) \<Longrightarrow> gp_listed a = None \<Longrightarrow> list_urls (gp_now a) svc (gp_registry a) = (urls, r) \<Longrightarrow>
    gateway_step reg X s list_urls shut others a (a\<lparr>gp_listed := Some urls, gp_registry := r\<rparr>)"
| refreshed: "DiscoveryLoop svc \<in> set (gp_tasks a) \<Longrightarrow> gp_listed a = Some urls \<Longrightarrow>
    gateway_step reg X s list_urls shut others a (a\<lparr>gp_listed := None, gp_pool := pool_step reg (Refreshed urls) (gp_pool a)\<rparr>)"
| listing_fails: "DiscoveryLoop svc \<in> set (gp_tasks a) \<Longrightarrow> gp_listed a = None \<Longrightarrow> gateway_step reg X s list_urls shut others a a"
| others: "others (gp_registry a) r \<Longrightarrow> gateway_step reg X s list_urls shut others a (a\<lparr>gp_registry := r\<rparr>)"
| time: "0 \<le> d \<Longrightarrow> gateway_step reg X s list_urls shut others a (a\<lparr>gp_now := gp_now a + d\<rparr>)"
| stop: "gp_phase a = Open \<Longrightarrow> gateway_step reg X s list_urls shut others a (a\<lparr>gp_phase := Draining\<rparr>)"
| probe_cancelled: "gp_phase a = Draining \<Longrightarrow>
    gateway_step reg X s list_urls shut others a
      (a\<lparr>gp_tasks := removeAll ProbeLoop (gp_tasks a), gp_pool := pool_step reg (ProbeCancelled 0) (gp_pool a)\<rparr>)"
| discovery_cancelled: "gp_phase a = Draining \<Longrightarrow>
    gateway_step reg X s list_urls shut others a (a\<lparr>gp_tasks := removeAll (DiscoveryLoop svc) (gp_tasks a), gp_listed := None\<rparr>)"
| close_client: "gp_phase a = Draining \<Longrightarrow> gp_tasks a = [] \<Longrightarrow> gateway_step reg X s list_urls shut others a (a\<lparr>gp_phase := Client_closed\<rparr>)"
| close_registry: "gp_phase a = Client_closed \<Longrightarrow>
    gateway_step reg X s list_urls shut others a (a\<lparr>gp_phase := Shut, gp_registry := shut (gp_registry a)\<rparr>)"
| closing_fails: "gp_phase a = Draining \<and> gp_tasks a = [] \<or> gp_phase a = Client_closed \<Longrightarrow>
    gateway_step reg X s list_urls shut others a (a\<lparr>gp_phase := Broken\<rparr>)"

inductive_cases gateway_stepE: "gateway_step reg X s list_urls shut others a b"

text \<open>The moves of the pool that a step of the process makes.\<close>

definition moves :: "registry \<Rightarrow> exn set \<Rightarrow> pool \<Rightarrow> pool \<Rightarrow> bool" where
  "moves reg X p p' \<longleftrightarrow> p' = p \<or> (\<exists>e. raises_in X e \<and> p' = pool_step reg e p)"

lemma moves_intros [intro]:
  "moves reg X p p"
  "raises_in X e \<Longrightarrow> moves reg X p (pool_step reg e p)"
  by (auto simp: moves_def)

lemma raises_in_others [simp]:
  "raises_in X (Arrive t q)" "raises_in X (Refreshed us)" "raises_in X ProbeStart" "raises_in X (ProbeAnswer i t res)"
  "raises_in X (ProbeCancelled i)"
  by (simp_all add: raises_in_def)

lemma gateway_step_moves: "gateway_step reg X s list_urls shut others a b \<Longrightarrow> moves reg X (gp_pool a) (gp_pool b)"
  by (induction rule: gateway_step.induct) (auto)

lemma gateway_refines_pool:
  "(gateway_step reg X s list_urls shut others)\<^sup>*\<^sup>* (gateway_start s r now) a \<Longrightarrow> reachable reg X (gateway_balancer s) (gp_pool a)"
proof (induction rule: rtranclp_induct)
  case base
  then show ?case by (simp add: gateway_start_def reachable.start)
next
  case (step b c)
  then show ?case using gateway_step_moves [OF step.hyps(2)] by (auto simp: moves_def intro: reachable.step)
qed

subsection \<open>The tasks\<close>

text \<open>Tasks live between the start and the end of the lifespan; there is at most one probe round, and none without the loop;
  a listing waits only while the discovery loop lives.\<close>

definition tasks_bounded :: "gateway_settings \<Rightarrow> 'r gateway_process \<Rightarrow> bool" where
  "tasks_bounded s a \<longleftrightarrow> set (gp_tasks a) \<subseteq> set (lifespan_tasks s) \<and>
     (gp_tasks a \<noteq> [] \<longrightarrow> gp_phase a = Open \<or> gp_phase a = Draining) \<and>
     length (p_probes (gp_pool a)) \<le> 1 \<and> (ProbeLoop \<notin> set (gp_tasks a) \<longrightarrow> p_probes (gp_pool a) = []) \<and>
     (gp_listed a \<noteq> None \<longrightarrow> (\<exists>svc. DiscoveryLoop svc \<in> set (gp_tasks a)))"

lemma probes_of_step:
  "length (p_probes (pool_step reg (Arrive t q) p)) = length (p_probes p)"
  "length (p_probes (pool_step reg (Answer i t res) p)) = length (p_probes p)"
  "length (p_probes (pool_step reg (Refreshed us) p)) = length (p_probes p)"
  "p_probes p = [] \<Longrightarrow> length (p_probes (pool_step reg ProbeStart p)) \<le> 1"
  "length (p_probes (pool_step reg (ProbeAnswer i t res) p)) \<le> length (p_probes p)"
  "length (p_probes p) \<le> 1 \<Longrightarrow> p_probes (pool_step reg (ProbeCancelled 0) p) = []"
  by (auto split: prod.split sum.split simp: drop_nth_def pool_step.simps)

lemma step_tasks_bounded:
  assumes "gateway_step reg X s list_urls shut others a b" "tasks_bounded s a"
  shows "tasks_bounded s b"
  using assms
proof (induction rule: gateway_step.induct)
  case (request a q)
  then show ?case using probes_of_step(1) [of reg "gp_now a" q "gp_pool a"] by (auto simp: tasks_bounded_def)
next
  case (answer i a res)
  then show ?case using probes_of_step(2) [of reg i "gp_now a" res "gp_pool a"] by (auto simp: tasks_bounded_def)
next
  case (probe a)
  then show ?case using probes_of_step(4) [of "gp_pool a" reg] by (auto simp: tasks_bounded_def)
next
  case (probed a res)
  then show ?case using probes_of_step(5) [of reg 0 "gp_now a" res "gp_pool a"] by (auto simp: tasks_bounded_def)
next
  case (refreshed svc a urls)
  then show ?case using probes_of_step(3) [of reg urls "gp_pool a"] by (auto simp: tasks_bounded_def)
next
  case (probe_cancelled a)
  then show ?case using probes_of_step(6) [of "gp_pool a" reg] by (auto simp: tasks_bounded_def)
qed (auto simp: tasks_bounded_def lifespan_tasks_def)

lemma tasks_bounded_start: "tasks_bounded s (gateway_start s r now)"
  by (simp add: tasks_bounded_def gateway_start_def pool_init_def)

lemma run_tasks_bounded:
  "(gateway_step reg X s list_urls shut others)\<^sup>*\<^sup>* (gateway_start s r now) a \<Longrightarrow> tasks_bounded s a"
  by (induction rule: rtranclp_induct) (auto intro: tasks_bounded_start step_tasks_bounded)

lemma discovered_service: "tasks_bounded s a \<Longrightarrow> DiscoveryLoop svc \<in> set (gp_tasks a) \<Longrightarrow> svc = discovery_service s \<and> discovery_service s \<noteq> []"
  by (auto simp: tasks_bounded_def lifespan_tasks_def split: if_splits)

text \<open>A gateway whose lifespan has ended has no task left that moves its pool: only answers to requests in flight do.\<close>

theorem ended_gateway_is_quiet:
  assumes run: "(gateway_step reg X s list_urls shut others)\<^sup>*\<^sup>* (gateway_start s r now) a"
    and ended: "gp_phase a \<in> {Client_closed, Shut, Broken}"
    and step: "gateway_step reg X s list_urls shut others a b"
  shows "p_probes (gp_pool a) = [] \<and>
    (gp_pool b = gp_pool a \<or> (\<exists>i res. gp_pool b = pool_step reg (Answer i (gp_now a) res) (gp_pool a)))"
proof -
  have "gp_tasks a = []" "p_probes (gp_pool a) = []"
    using run_tasks_bounded [OF run] ended by (auto simp: tasks_bounded_def)
  with step ended show ?thesis by (elim gateway_stepE) (auto)
qed

subsection \<open>The addresses that are called\<close>

text \<open>The addresses that a pool holds, and those that its requests and its probe round wait for or will try.\<close>

definition addresses :: "pool \<Rightarrow> string set" where
  "addresses p = set (b_urls (p_bal p)) \<union> rt_url ` set (p_tasks p) \<union>
     (\<Union>pt \<in> set (p_probes p). insert (pt_url pt) (set (pt_rest pt)))"

definition brings :: "pool_event \<Rightarrow> string set" where
  "brings e = (case e of Refreshed us \<Rightarrow> set us | _ \<Rightarrow> {})"

lemma probe_next_addresses: "probe_next us b = Inr pt \<Longrightarrow> insert (pt_url pt) (set (pt_rest pt)) \<subseteq> set us"
  by (induction us) (auto split: option.splits if_splits)

lemma on_probe_answer_addresses:
  "on_probe_answer t res pt b = (Inr pt', b') \<Longrightarrow> insert (pt_url pt') (set (pt_rest pt')) \<subseteq> set (pt_rest pt)"
  by (auto simp: on_probe_answer_def Let_def split: http_result.splits if_splits option.splits
      dest: probe_next_addresses [THEN subsetD, OF _ insertI1] probe_next_addresses [THEN subsetD, OF _ insertI2])

lemma step_addresses:
  assumes inv: "bal_inv (p_bal p)"
  shows "addresses (pool_step reg e p) \<subseteq> addresses p \<union> brings e"
  supply pool_step.simps [simp]
proof (cases e)
  case (Arrive t q)
  obtain x b where x: "to_await reg t q (length (b_urls (p_bal p))) [] None (p_bal p) = (x, b)" by fastforce
  show ?thesis using Arrive x inv_to_await [OF inv x] by (cases x) (auto simp: addresses_def)
next
  case (Answer i t res)
  obtain x b where x: "on_answer reg t res (p_tasks p ! i) (p_bal p) = (x, b)" by fastforce
  show ?thesis using Answer x inv_on_answer(2,3) [OF inv x]
    by (cases x) (auto simp: addresses_def dest: set_drop_nth dest!: set_update_subset_insert [THEN subsetD])
next
  case (Refreshed us)
  then show ?thesis by (auto simp: addresses_def brings_def refresh_urls)
next
  case ProbeStart
  then show ?thesis by (auto simp: addresses_def split: sum.split dest!: probe_next_addresses)
next
  case (ProbeAnswer i t res)
  show ?thesis
  proof (cases "i < length (p_probes p)")
    case True
    obtain x b where x: "on_probe_answer t res (p_probes p ! i) (p_bal p) = (x, b)" by fastforce
    have i: "p_probes p ! i \<in> set (p_probes p)" using True by simp
    have "b_urls b = b_urls (p_bal p)" using inv_on_probe_answer [OF inv x] by simp
    show ?thesis
    proof (cases x)
      case (Inl y)
      then show ?thesis using ProbeAnswer True x \<open>b_urls b = b_urls (p_bal p)\<close>
        by (auto simp: addresses_def dest: set_drop_nth)
    next
      case (Inr pt)
      then have "insert (pt_url pt) (set (pt_rest pt)) \<subseteq> addresses p"
        using on_probe_answer_addresses [of t res "p_probes p ! i" "p_bal p" pt b] x i unfolding addresses_def by blast
      then show ?thesis using ProbeAnswer True x Inr \<open>b_urls b = b_urls (p_bal p)\<close>
        by (auto simp: addresses_def dest!: set_update_subset_insert [THEN subsetD])
    qed
  qed (simp add: ProbeAnswer)
next
  case (ProbeCancelled i)
  then show ?thesis by (auto simp: addresses_def dest: set_drop_nth)
qed

text \<open>Where a step takes new addresses from.\<close>

definition noted :: "'r gateway_process \<Rightarrow> string set" where
  "noted a = addresses (gp_pool a) \<union> (case gp_listed a of None \<Rightarrow> {} | Some us \<Rightarrow> set us)"

lemma step_noted:
  assumes "gateway_step reg X s list_urls shut others a b" "bal_inv (p_bal (gp_pool a))"
  shows "noted b \<subseteq> noted a \<or>
    (\<exists>svc. DiscoveryLoop svc \<in> set (gp_tasks a) \<and> noted b \<subseteq> noted a \<union> set (fst (list_urls (gp_now a) svc (gp_registry a))))"
  using assms
proof (induction rule: gateway_step.induct)
  case (listed svc a urls r)
  then have "noted (a\<lparr>gp_listed := Some urls, gp_registry := r\<rparr>) \<subseteq> noted a \<union> set (fst (list_urls (gp_now a) svc (gp_registry a)))"
    by (auto simp: noted_def)
  then show ?case using listed.hyps(1) by blast
next
  case (refreshed svc a urls)
  then show ?case using step_addresses [of "gp_pool a" reg "Refreshed urls"] by (auto simp: noted_def brings_def)
next
  case (request a q)
  then show ?case using step_addresses [of "gp_pool a" reg "Arrive (gp_now a) q"] by (auto simp: noted_def brings_def)
next
  case (answer i a res)
  then show ?case using step_addresses [of "gp_pool a" reg "Answer i (gp_now a) res"] by (auto simp: noted_def brings_def)
next
  case (probe a)
  then show ?case using step_addresses [of "gp_pool a" reg ProbeStart] by (auto simp: noted_def brings_def)
next
  case (probed a res)
  then show ?case using step_addresses [of "gp_pool a" reg "ProbeAnswer 0 (gp_now a) res"] by (auto simp: noted_def brings_def)
next
  case (probe_cancelled a)
  then show ?case using step_addresses [of "gp_pool a" reg "ProbeCancelled 0"] by (auto simp: noted_def brings_def)
qed (auto simp: noted_def)

lemma start_noted: "noted (gateway_start s r now) \<subseteq> set (upstream_list s)"
  by (auto simp: noted_def gateway_start_def pool_init_def addresses_def gateway_balancer_def balancer_init_def)

lemma gateway_balancer_inv: "bal_inv (gateway_balancer s)"
  by (simp add: gateway_balancer_def inv_init)

lemma run_inv:
  "(gateway_step reg X s list_urls shut others)\<^sup>*\<^sup>* (gateway_start s r now) a \<Longrightarrow> bal_inv (p_bal (gp_pool a))"
  by (rule pool_invariant_for [OF gateway_refines_pool gateway_balancer_inv, THEN conjunct1])

text \<open>Over a registry that keeps its contract, an address that was not configured was registered for the service.\<close>

context closing_registry
begin

lemma step_registry_ok:
  assumes "gateway_step reg X s list_urls close_registry others a b" "tasks_bounded s a"
    and "ok (gp_registry a)" "named (discovery_service s)" "\<And>r r'. others r r' \<Longrightarrow> ok r \<Longrightarrow> ok r'"
  shows "ok (gp_registry b)"
  using assms(1-3)
proof (induction rule: gateway_step.induct)
  case (listed svc a urls r)
  then have "named svc" using discovered_service [of s a svc] assms(4) by simp
  then show ?case using list_keeps [of "gp_registry a" svc "gp_now a"] listed by simp
next
  case (others a r)
  then show ?case using assms(5) by simp
next
  case (close_registry a)
  then show ?case using close_live by simp
qed simp_all

lemma noted_was_registered:
  assumes run: "(gateway_step reg X s list_urls close_registry others)\<^sup>*\<^sup>* (gateway_start s r0 t0) a"
    and ok: "ok r0" and named: "named (discovery_service s)" and others: "\<And>r r'. others r r' \<Longrightarrow> ok r \<Longrightarrow> ok r'"
  shows "ok (gp_registry a) \<and> (\<forall>u \<in> noted a. u \<in> set (upstream_list s) \<or>
    (\<exists>b i t. (gateway_step reg X s list_urls close_registry others)\<^sup>*\<^sup>* (gateway_start s r0 t0) b \<and>
       (gateway_step reg X s list_urls close_registry others)\<^sup>*\<^sup>* b a \<and>
       live (gp_registry b) (discovery_service s) i = Some (u, t) \<and> gp_now b \<le> t))"
  using run
proof (induction rule: rtranclp_induct)
  case base
  have "gp_registry (gateway_start s r0 t0) = r0" by (simp add: gateway_start_def)
  then show ?case using ok subsetD [OF start_noted] by (intro conjI ballI disjI1) simp_all
next
  case (step b c)
  let ?R = "gateway_step reg X s list_urls close_registry others"
  note tb = run_tasks_bounded [OF step.hyps(1)]
  have okb: "ok (gp_registry b)" using step.IH by blast
  have okc: "ok (gp_registry c)" by (rule step_registry_ok [OF step.hyps(2) tb okb named]) (rule others)
  have old: "u \<in> set (upstream_list s) \<or> (\<exists>d i t. ?R\<^sup>*\<^sup>* (gateway_start s r0 t0) d \<and> ?R\<^sup>*\<^sup>* d c \<and>
      live (gp_registry d) (discovery_service s) i = Some (u, t) \<and> gp_now d \<le> t)" if u: "u \<in> noted b" for u
  proof (cases "u \<in> set (upstream_list s)")
    case False
    then obtain d i t where d: "?R\<^sup>*\<^sup>* (gateway_start s r0 t0) d" "?R\<^sup>*\<^sup>* d b"
      "live (gp_registry d) (discovery_service s) i = Some (u, t)" "gp_now d \<le> t"
      using step.IH u by (elim conjE) (drule (1) bspec, elim disjE exE conjE, simp_all)
    have "?R\<^sup>*\<^sup>* d c" using d(2) step.hyps(2) by (rule rtranclp.rtrancl_into_rtrancl)
    with d show ?thesis by (intro disjI2 exI conjI)
  qed simp
  have new: "\<exists>d i t. ?R\<^sup>*\<^sup>* (gateway_start s r0 t0) d \<and> ?R\<^sup>*\<^sup>* d c \<and>
      live (gp_registry d) (discovery_service s) i = Some (u, t) \<and> gp_now d \<le> t"
    if u: "u \<in> set (fst (list_urls (gp_now b) svc (gp_registry b)))" and task: "DiscoveryLoop svc \<in> set (gp_tasks b)" for u svc
  proof -
    have svc: "svc = discovery_service s" using discovered_service [OF tb task] by simp
    obtain i t where "live (gp_registry b) (discovery_service s) i = Some (u, t)" "gp_now b \<le> t"
      using u unfolding svc list_live [OF okb named] mem_Collect_eq by (elim exE conjE)
    moreover have "?R\<^sup>*\<^sup>* b c" using step.hyps(2) by (rule r_into_rtranclp)
    ultimately show ?thesis using step.hyps(1) by (intro exI conjI)
  qed
  from step_noted [OF step.hyps(2) run_inv [OF step.hyps(1)]] show ?case
  proof (elim disjE exE conjE)
    assume "noted c \<subseteq> noted b"
    then show ?thesis using old okc by (intro conjI ballI) (simp, drule (1) subsetD, simp)
  next
    fix svc assume svc: "DiscoveryLoop svc \<in> set (gp_tasks b)"
      and sub: "noted c \<subseteq> noted b \<union> set (fst (list_urls (gp_now b) svc (gp_registry b)))"
    show ?thesis
    proof (intro conjI ballI)
      fix u assume "u \<in> noted c"
      then consider "u \<in> noted b" | "u \<in> set (fst (list_urls (gp_now b) svc (gp_registry b)))" using sub by (elim subsetD [THEN UnE])
      then show "u \<in> set (upstream_list s) \<or> (\<exists>d i t. ?R\<^sup>*\<^sup>* (gateway_start s r0 t0) d \<and> ?R\<^sup>*\<^sup>* d c \<and>
          live (gp_registry d) (discovery_service s) i = Some (u, t) \<and> gp_now d \<le> t)"
        by cases (rule old, assumption, rule disjI2, rule new [OF _ svc])
    qed (rule okc)
  qed
qed

end

context registry_redis
begin

lemmas noted_redis = shared.noted_was_registered

end


text \<open>Without a registry that other processes share, the gateway keeps the pool it was configured with.\<close>

lemma pool_step_urls:
  assumes inv: "bal_inv (p_bal p)" and e: "brings e = {}"
  shows "b_urls (p_bal (pool_step reg e p)) = b_urls (p_bal p)"
  supply pool_step.simps [simp]
proof (cases e)
  case (Arrive t q)
  obtain x b where x: "to_await reg t q (length (b_urls (p_bal p))) [] None (p_bal p) = (x, b)" by fastforce
  show ?thesis using Arrive x inv_to_await(2) [OF inv x] by (cases x) simp_all
next
  case (Answer i t res)
  obtain x b where x: "on_answer reg t res (p_tasks p ! i) (p_bal p) = (x, b)" by fastforce
  show ?thesis using Answer x inv_on_answer(2) [OF inv x] by (cases x) simp_all
next
  case (Refreshed us)
  then show ?thesis using e by (simp add: refresh_urls brings_def)
next
  case (ProbeAnswer i t res)
  obtain x b where x: "on_probe_answer t res (p_probes p ! i) (p_bal p) = (x, b)" by fastforce
  show ?thesis using ProbeAnswer x inv_on_probe_answer [OF inv x] by (cases x) simp_all
qed (simp_all split: sum.split)

definition keeps :: "registry \<Rightarrow> exn set \<Rightarrow> pool \<Rightarrow> pool \<Rightarrow> bool" where
  "keeps reg X p p' \<longleftrightarrow> p' = p \<or> (\<exists>e. raises_in X e \<and> \<not> drops p e \<and> p' = pool_step reg e p)"

lemma keeps_intros [intro]:
  "keeps reg X p p"
  "raises_in X e \<Longrightarrow> \<not> drops p e \<Longrightarrow> keeps reg X p (pool_step reg e p)"
  by (auto simp: keeps_def)

lemma drops_simps [simp]:
  "\<not> drops p (Arrive t q)" "\<not> drops p (Answer i t res)" "\<not> drops p (Refreshed [])" "\<not> drops p ProbeStart"
  "\<not> drops p (ProbeAnswer i t res)" "\<not> drops p (ProbeCancelled i)"
  by (simp_all add: drops_def)

lemma step_keeps_pool:
  assumes "gateway_step reg X s list_urls shut others a b" "gp_listed a \<in> {None, Some []}"
    and "\<And>svc. DiscoveryLoop svc \<in> set (gp_tasks a) \<Longrightarrow> fst (list_urls (gp_now a) svc (gp_registry a)) = []"
    and "bal_inv (p_bal (gp_pool a))"
  shows "gp_listed b \<in> {None, Some []} \<and> b_urls (p_bal (gp_pool b)) = b_urls (p_bal (gp_pool a)) \<and>
    keeps reg X (gp_pool a) (gp_pool b)"
  using assms
proof (induction rule: gateway_step.induct)
  case (listed svc a urls r)
  then have "urls = []" using listed.prems(2) [OF listed.hyps(1)] by simp
  then show ?case by auto
next
  case (refreshed svc a urls)
  then have "urls = []" by simp
  then show ?case using pool_step_urls [of "gp_pool a" "Refreshed []" reg] refreshed.prems(3)
    by (auto simp: brings_def)
qed (auto simp: pool_step_urls brings_def)

lemma step_registry:
  assumes "gateway_step reg X s list_urls shut others a b" "tasks_bounded s a" "Q (gp_registry a)"
    and "\<And>now r. discovery_service s \<noteq> [] \<Longrightarrow> Q r \<Longrightarrow> Q (snd (list_urls now (discovery_service s) r))"
    and "\<And>r r'. others r r' \<Longrightarrow> Q r \<Longrightarrow> Q r'" "\<And>r. Q r \<Longrightarrow> Q (shut r)"
  shows "Q (gp_registry b)"
  using assms(1-3)
proof (induction rule: gateway_step.induct)
  case (listed svc a urls r)
  then have "svc = discovery_service s" "discovery_service s \<noteq> []" using discovered_service [of s a svc] by simp_all
  then show ?case using assms(4) [of "gp_registry a" "gp_now a"] listed by simp
qed (simp_all add: assms(5,6))

lemma run_keeps_pool:
  assumes run: "(gateway_step reg X s list_urls shut others)\<^sup>*\<^sup>* (gateway_start s r0 t0) a" and Q: "Q r0"
    and quiet: "\<And>now r. discovery_service s \<noteq> [] \<Longrightarrow> Q r \<Longrightarrow>
      fst (list_urls now (discovery_service s) r) = [] \<and> Q (snd (list_urls now (discovery_service s) r))"
    and others: "\<And>r r'. others r r' \<Longrightarrow> Q r \<Longrightarrow> Q r'" and shut: "\<And>r. Q r \<Longrightarrow> Q (shut r)"
  shows "reachable_keeping reg X (gateway_balancer s) (gp_pool a) \<and> b_urls (p_bal (gp_pool a)) = upstream_list s \<and>
    gp_listed a \<in> {None, Some []} \<and> Q (gp_registry a)"
  using run
proof (induction rule: rtranclp_induct)
  case base
  show ?case using Q
    by (simp add: gateway_start_def reachable_keeping.start)
      (simp add: pool_init_def gateway_balancer_def balancer_init_def)
next
  case (step b c)
  note tb = run_tasks_bounded [OF step.hyps(1)]
  have "Q (gp_registry c)"
    by (rule step_registry [where Q = Q, OF step.hyps(2) tb]) (use step.IH quiet others shut in auto)
  moreover have "fst (list_urls (gp_now b) svc (gp_registry b)) = []" if "DiscoveryLoop svc \<in> set (gp_tasks b)" for svc
    using discovered_service [OF tb that] quiet step.IH by simp
  ultimately show ?case
    using step_keeps_pool [OF step.hyps(2) _ _ run_inv [OF step.hyps(1)]] step.IH by (auto simp: keeps_def intro: reachable_keeping.step)
qed

text \<open>C19: A gateway whose registry is the one in its own process, the fallback when no Redis is configured or its address is
  refused, serves exactly the upstreams it was configured with, for its whole life, and never answers a request with
  a \<open>KeyError\<close>; the service to discover may be set or not, since no instance can register there.\<close>

theorem unshared_registry_keeps_pool:
  assumes run: "(gateway_step reg X s local_list local_close (=))\<^sup>*\<^sup>* (gateway_start s [] t0) a"
  shows "b_urls (p_bal (gp_pool a)) = upstream_list s \<and>
    (\<forall>e. Inl e \<in> set (p_out (gp_pool a)) \<longrightarrow> (\<exists>msg. e = all_down reg msg) \<or> e \<in> X)"
proof -
  have "reachable_keeping reg X (gateway_balancer s) (gp_pool a) \<and> b_urls (p_bal (gp_pool a)) = upstream_list s \<and>
    gp_listed a \<in> {None, Some []} \<and> gp_registry a = []"
    by (rule run_keeps_pool [where Q = "\<lambda>r. r = []", OF run]) (simp_all add: local_list_def local_close_def)
  then show ?thesis using keeping_for [of reg X "gateway_balancer s" "gp_pool a", OF _ gateway_balancer_inv] by (auto simp: expected_def)
qed

text \<open>Nor does one that discovers nothing, over any registry.\<close>

theorem undiscovered_pool_is_constant:
  assumes off: "discovery_service s = []" and run: "(gateway_step reg X s list_urls shut others)\<^sup>*\<^sup>* (gateway_start s r0 t0) a"
  shows "b_urls (p_bal (gp_pool a)) = upstream_list s \<and>
    (\<forall>e. Inl e \<in> set (p_out (gp_pool a)) \<longrightarrow> (\<exists>msg. e = all_down reg msg) \<or> e \<in> X)"
proof -
  have "reachable_keeping reg X (gateway_balancer s) (gp_pool a) \<and> b_urls (p_bal (gp_pool a)) = upstream_list s \<and>
    gp_listed a \<in> {None, Some []} \<and> True"
    by (rule run_keeps_pool [where Q = "\<lambda>r. True", OF run]) (simp_all add: off)
  then show ?thesis using keeping_for [of reg X "gateway_balancer s" "gp_pool a", OF _ gateway_balancer_inv] by (auto simp: expected_def)
qed

text \<open>A serving gateway can always end in order.\<close>

lemma gateway_shutdown_possible:
  assumes phase: "gp_phase a = Open" and tb: "tasks_bounded s a"
  shows "\<exists>b. (gateway_step reg X s list_urls shut others)\<^sup>*\<^sup>* a b \<and> gp_phase b = Shut"
proof -
  let ?R = "gateway_step reg X s list_urls shut others"
  define a1 where "a1 = a\<lparr>gp_phase := Draining\<rparr>"
  define a2 where "a2 = a1\<lparr>gp_tasks := removeAll ProbeLoop (gp_tasks a1), gp_pool := pool_step reg (ProbeCancelled 0) (gp_pool a1)\<rparr>"
  define a3 where "a3 = a2\<lparr>gp_tasks := removeAll (DiscoveryLoop (discovery_service s)) (gp_tasks a2), gp_listed := None\<rparr>"
  define a4 where "a4 = a3\<lparr>gp_phase := Client_closed\<rparr>"
  have "set (gp_tasks a3) = {}" using tb by (auto simp: a3_def a2_def a1_def tasks_bounded_def lifespan_tasks_def split: if_splits)
  then have none: "gp_tasks a3 = []" by simp
  have "?R a a1" unfolding a1_def using phase by (rule gateway_step.stop)
  moreover have "?R a1 a2" unfolding a2_def by (rule gateway_step.probe_cancelled) (simp add: a1_def)
  moreover have "?R a2 a3" unfolding a3_def by (rule gateway_step.discovery_cancelled) (simp add: a2_def a1_def)
  moreover have "?R a3 a4" unfolding a4_def using none by (intro gateway_step.close_client) (simp_all add: a3_def a2_def a1_def)
  moreover have "?R a4 (a4\<lparr>gp_phase := Shut, gp_registry := shut (gp_registry a4)\<rparr>)"
    by (rule gateway_step.close_registry) (simp add: a4_def)
  ultimately have "?R\<^sup>*\<^sup>* a (a4\<lparr>gp_phase := Shut, gp_registry := shut (gp_registry a4)\<rparr>)"
    by (meson rtranclp.rtrancl_refl rtranclp.rtrancl_into_rtrancl)
  then show ?thesis by (intro exI conjI) (assumption, simp)
qed

subsection \<open>Witnesses\<close>

text \<open>A gateway of one upstream that discovers \<open>users\<close>.\<close>

definition discovering :: gateway_settings where
  "discovering = default_gateway\<lparr>discovery_service := ''users''\<rparr>"

lemma discovering_values: "upstream_list discovering = [''http://localhost:8100'']" "discovery_service discovering = ''users''"
  by code_simp+

definition users_registry :: "(string, string \<times> real) pydict" where
  "users_registry = redis_register map_registry 0 ''users'' ''i'' ''http://h'' 30 []"

lemma users_registry_listed: "redis_list map_registry 10 ''users'' users_registry = [''http://h'']"
  by (simp add: users_registry_def redis_list_def redis_register_def map_registry_def registry_key_def Let_def starts_with_def butlast_append)


lemma unshared_registry_keeps_pool_witness:
  "\<exists>a. gp_phase a = Shut \<and> (gateway_step builtin_registry {} discovering local_list local_close (=))\<^sup>*\<^sup>* (gateway_start discovering [] 0) a
     \<and> b_urls (p_bal (gp_pool a)) = [''http://localhost:8100'']"
proof -
  let ?R = "gateway_step builtin_registry {} discovering local_list local_close (=)"
  define a where "a = (gateway_start discovering ([] :: local_registry) 0)\<lparr>gp_phase := Open, gp_tasks := lifespan_tasks discovering\<rparr>"
  have "?R (gateway_start discovering [] 0) a" unfolding a_def by (rule gateway_step.start) (simp add: gateway_start_def)
  then have run: "?R\<^sup>*\<^sup>* (gateway_start discovering [] 0) a" by (rule r_into_rtranclp)
  obtain b where b: "?R\<^sup>*\<^sup>* a b" "gp_phase b = Shut"
    using gateway_shutdown_possible [where a = a and s = discovering and reg = builtin_registry and X = "{}" and list_urls = local_list
        and shut = local_close and others = "(=)"] run_tasks_bounded [OF run] by (auto simp: a_def)
  have "?R\<^sup>*\<^sup>* (gateway_start discovering [] 0) b" using run b(1) by (rule rtranclp_trans)
  then show ?thesis using unshared_registry_keeps_pool b(2) by (auto simp: discovering_values)
qed

end
