(* ===== verification/Probes.thy ===== *)
theory Probes
  imports Balancer
begin

section \<open>Recovery of the pool: the probe loop of gateway_app/balancer.py\<close>

text \<open>
  The endless background loop by its rounds. A round that raises is logged and leaves what it has done; the
  lemmas show that on a well-formed pool a round raises only what the client does beside \<open>HTTPError\<close>, that probes
  never take an instance down, and that an instance that answers its probe is back at once.
\<close>

fun probe_rounds :: "(nat \<Rightarrow> string \<Rightarrow> real \<times> http_result) list \<Rightarrow> balancer \<Rightarrow> balancer" where
  "probe_rounds [] b = b"
| "probe_rounds (get # gets) b = probe_rounds gets (snd (probe_all get b))"

definition is_healthy :: "balancer \<Rightarrow> string \<Rightarrow> bool" where
  "is_healthy b u \<longleftrightarrow> (\<exists>s. map_of (b_states b) u = Some s \<and> healthy s)"

text \<open>An instance that answers its probes below 500.\<close>

definition recovered :: "(nat \<Rightarrow> string \<Rightarrow> real \<times> http_result) \<Rightarrow> string \<Rightarrow> bool" where
  "recovered get u \<longleftrightarrow> (\<forall>k. \<exists>t r. get k (probe_url u) = (t, Response r) \<and> ur_status r < 500)"

text \<open>The client raises nothing but \<open>HTTPError\<close> in the round.\<close>

definition round_caught :: "(nat \<Rightarrow> string \<Rightarrow> real \<times> http_result) \<Rightarrow> bool" where
  "round_caught get \<longleftrightarrow> (\<forall>k u e. snd (get k u) \<noteq> Uncaught e)"

text \<open>One instance of the loop.\<close>

lemma probe_step:
  assumes inv: "bal_inv b" and u: "u \<in> set (b_urls b)" and calm: "\<forall>e. snd (get k (probe_url u)) \<noteq> Uncaught e"
  shows "\<exists>k' b1. probe_loop get k (u # us) b = probe_loop get k' us b1 \<and> bal_inv b1 \<and> b_urls b1 = b_urls b \<and>
    (\<forall>v. is_healthy b v \<longrightarrow> is_healthy b1 v) \<and> (recovered get u \<longrightarrow> is_healthy b1 u)"
proof -
  obtain s where s: "map_of (b_states b) u = Some s" using inv_known [OF inv] u by blast
  obtain t a where get: "get k (probe_url u) = (t, a)" by fastforce
  consider (skip) "healthy s" | (up) r where "\<not> healthy s" "a = Response r" "ur_status r < 500"
    | (bad) r where "\<not> healthy s" "a = Response r" "\<not> ur_status r < 500" | (down) m where "\<not> healthy s" "a = HTTPError m"
    using calm get by (cases a) auto
  then show ?thesis
  proof cases
    case skip
    then show ?thesis using s inv by (intro exI [of _ k] exI [of _ b]) (simp add: is_healthy_def)
  next
    case up
    let ?b = "b\<lparr>b_states := AList.update u (succeeded s) (b_states b)\<rparr>"
    have rs: "record_success u b = Some ?b" using s by (simp add: record_success_def)
    have "is_healthy ?b u" by (simp add: is_healthy_def succeeded_def)
    moreover have "is_healthy b v \<longrightarrow> is_healthy ?b v" for v by (auto simp: is_healthy_def succeeded_def)
    ultimately show ?thesis using up s get rs inv_record_success [OF inv rs]
      by (intro exI [of _ "Suc k"] exI [of _ ?b]) simp
  next
    case bad
    have "\<not> recovered get u" using bad get by (auto simp: recovered_def intro!: exI [of _ k])
    then show ?thesis using bad s get inv by (intro exI [of _ "Suc k"] exI [of _ b]) simp
  next
    case down
    let ?b = "b\<lparr>b_states := AList.update u (s\<lparr>down_since := Some t\<rparr>) (b_states b)\<rparr>"
    have "\<not> recovered get u" using down get by (auto simp: recovered_def intro!: exI [of _ k])
    moreover have "bal_inv ?b"
      using inv_state [OF inv s] down by (intro inv_update [OF inv s]) (simp add: inst_ok_def)
    moreover have "is_healthy b v \<longrightarrow> is_healthy ?b v" for v using s down by (auto simp: is_healthy_def)
    ultimately show ?thesis using down s get by (intro exI [of _ "Suc k"] exI [of _ ?b]) simp
  qed
qed

lemma probe_loop_recovers:
  "bal_inv b \<Longrightarrow> set us \<subseteq> set (b_urls b) \<Longrightarrow> probe_loop get k us b = (x, b') \<Longrightarrow>
     bal_inv b' \<and> b_urls b' = b_urls b \<and> (\<forall>v. is_healthy b v \<longrightarrow> is_healthy b' v) \<and>
     (\<forall>e. x = Some e \<longrightarrow> (\<exists>i u. snd (get i u) = Uncaught e)) \<and>
     (x = None \<longrightarrow> (\<forall>u \<in> set us. recovered get u \<longrightarrow> is_healthy b' u))"
proof (induction us arbitrary: k b)
  case Nil
  then show ?case by simp
next
  case (Cons u us)
  show ?case
  proof (cases "(\<exists>e. snd (get k (probe_url u)) = Uncaught e) \<and> \<not> is_healthy b u")
    case True
    then obtain t e where e: "get k (probe_url u) = (t, Uncaught e)" by (metis prod.collapse)
    obtain s where "map_of (b_states b) u = Some s" using inv_known [OF Cons.prems(1)] Cons.prems(2) by auto
    then have "probe_loop get k (u # us) b = (Some e, b)" using True e by (auto simp: is_healthy_def)
    then have "x = Some e" "b' = b" using Cons.prems(3) by auto
    moreover have "\<exists>i u. snd (get i u) = Uncaught e" using e by (intro exI [of _ k] exI [of _ "probe_url u"]) simp
    ultimately show ?thesis using Cons.prems(1) by simp
  next
    case False
    obtain k' b1 where step: "probe_loop get k (u # us) b = probe_loop get k' us b1" "bal_inv b1" "b_urls b1 = b_urls b"
      "\<forall>v. is_healthy b v \<longrightarrow> is_healthy b1 v" "recovered get u \<longrightarrow> is_healthy b1 u"
    proof (cases "is_healthy b u")
      case True
      then have "probe_loop get k (u # us) b = probe_loop get k us b" by (auto simp: is_healthy_def)
      from that [OF this] True Cons.prems(1) show thesis by blast
    next
      case False': False
      with False have "\<forall>e. snd (get k (probe_url u)) \<noteq> Uncaught e" by blast
      from probe_step [where get = get and k = k and u = u and us = us, OF Cons.prems(1) _ this] Cons.prems(2) that
      show thesis by auto
    qed
    have "set us \<subseteq> set (b_urls b1)" using Cons.prems(2) step(3) by simp
    from Cons.IH [OF step(2) this] Cons.prems(3) step show ?thesis by simp
  qed
qed

lemma probe_all_recovers:
  assumes "bal_inv b"
  shows "bal_inv (snd (probe_all get b)) \<and> b_urls (snd (probe_all get b)) = b_urls b \<and>
    (\<forall>v. is_healthy b v \<longrightarrow> is_healthy (snd (probe_all get b)) v) \<and>
    (round_caught get \<longrightarrow> fst (probe_all get b) = None \<and>
       (\<forall>u \<in> set (b_urls b). recovered get u \<longrightarrow> is_healthy (snd (probe_all get b)) u))"
proof -
  obtain x b' where r: "probe_all get b = (x, b')" by fastforce
  note * = probe_loop_recovers [OF assms subset_refl r [unfolded probe_all_def]]
  then have "x = None" if "round_caught get" using that by (cases x) (auto simp: round_caught_def)
  with * r show ?thesis by auto
qed

lemma probe_rounds_keep:
  "bal_inv b \<Longrightarrow> bal_inv (probe_rounds gets b) \<and> b_urls (probe_rounds gets b) = b_urls b \<and>
     (\<forall>v. is_healthy b v \<longrightarrow> is_healthy (probe_rounds gets b) v)"
proof (induction gets arbitrary: b)
  case (Cons get gets)
  have "bal_inv (snd (probe_all get b))" using probe_all_recovers [OF Cons.prems] by blast
  from Cons.IH [OF this] probe_all_recovers [OF Cons.prems, of get] show ?case by simp
qed simp

lemma healthy_available: "is_healthy b u \<Longrightarrow> is_available now b u = Some True"
  by (auto simp: is_healthy_def is_available_def)


definition answering_probes :: "nat \<Rightarrow> string \<Rightarrow> real \<times> http_result" where
  "answering_probes k url = (60, Response \<lparr>ur_status = 200, ur_headers = [], ur_content = []\<rparr>)"


end
