(* ===== verification/Events.thy ===== *)
theory Events
  imports Idempotency
begin

section \<open>Domain events: contract_sdk/events.py and kernel/events.py\<close>

text \<open>
  The envelope, its JSON form, the in-process bus, the RabbitMQ bus and the consumer base. A
  handler is a function on the state of its service, with the exception it raised or \<open>None\<close>.
  Points in time are numbers of seconds; how pydantic writes and reads them are the
  arguments \<open>show_time\<close> and \<open>parse_time\<close>. The AMQP library is the list of messages
  that were published and the table of queues that were declared.
\<close>

subsection \<open>The envelope\<close>

record envelope =
  en_id :: string
  en_name :: string
  en_source :: string
  en_aggregate_type :: string
  en_aggregate_id :: string
  en_occurred_at :: real
  en_payload :: "(string \<times> json) list"
  en_trace :: "trace_context option"

definition trace_dump :: "trace_context \<Rightarrow> json" where
  "trace_dump t =
     JObj [(''trace_id'', JStr (trace_id t)), (''span_id'', JStr (span_id t)), (''trace_flags'', JStr (trace_flags t))]"

text \<open>\<open>TraceContext.model_validate\<close>: \<open>None\<close> is a validation error; further keys are ignored.\<close>

definition trace_validate :: "json \<Rightarrow> trace_context option" where
  "trace_validate j =
     (case j of
        JObj d \<Rightarrow>
          (case (map_of d ''trace_id'', map_of d ''span_id'') of
             (Some (JStr t), Some (JStr s)) \<Rightarrow>
               (case map_of d ''trace_flags'' of
                  None \<Rightarrow> make_trace_context t s ''01''
                | Some (JStr f) \<Rightarrow> make_trace_context t s f
                | Some _ \<Rightarrow> None)
           | _ \<Rightarrow> None)
      | _ \<Rightarrow> None)"

lemma trace_validate_dump: "trace_ok t \<Longrightarrow> trace_validate (trace_dump t) = Some t"
  by (simp add: trace_validate_def trace_dump_def make_trace_context_id)

text \<open>\<open>model_dump_json\<close> and \<open>model_validate_json\<close>; the validation forbids further keys.\<close>

definition envelope_dump :: "(real \<Rightarrow> string) \<Rightarrow> envelope \<Rightarrow> json" where
  "envelope_dump show_time e =
     JObj [(''event_id'', JStr (en_id e)), (''event_name'', JStr (en_name e)), (''source'', JStr (en_source e)),
           (''aggregate_type'', JStr (en_aggregate_type e)), (''aggregate_id'', JStr (en_aggregate_id e)),
           (''occurred_at'', JStr (show_time (en_occurred_at e))), (''payload'', JObj (en_payload e)),
           (''trace'', case en_trace e of None \<Rightarrow> JNull | Some t \<Rightarrow> trace_dump t)]"

definition envelope_keys :: "string list" where
  "envelope_keys = [''event_id'', ''event_name'', ''source'', ''aggregate_type'', ''aggregate_id'',
     ''occurred_at'', ''payload'', ''trace'']"

definition str_field :: "string \<Rightarrow> (string \<times> json) list \<Rightarrow> string option" where
  "str_field k d = (case map_of d k of Some (JStr s) \<Rightarrow> Some s | _ \<Rightarrow> None)"

definition envelope_validate :: "(string \<Rightarrow> real option) \<Rightarrow> real \<Rightarrow> json \<Rightarrow> envelope option" where
  "envelope_validate parse_time now j =
     (case j of
        JObj d \<Rightarrow>
          if \<not> list_all (\<lambda>(k, v). k \<in> set envelope_keys) d then None
          else
            (case (str_field ''event_id'' d, str_field ''event_name'' d, str_field ''source'' d,
                   str_field ''aggregate_type'' d, str_field ''aggregate_id'' d) of
               (Some i, Some n, Some s, Some aty, Some ai) \<Rightarrow>
                 (case (case map_of d ''occurred_at'' of
                          None \<Rightarrow> Some now | Some (JStr t) \<Rightarrow> parse_time t | Some _ \<Rightarrow> None) of
                    None \<Rightarrow> None
                  | Some t \<Rightarrow>
                      (case (case map_of d ''payload'' of None \<Rightarrow> Some [] | Some (JObj p) \<Rightarrow> Some p | Some _ \<Rightarrow> None) of
                         None \<Rightarrow> None
                       | Some p \<Rightarrow>
                           (case (case map_of d ''trace'' of
                                    None \<Rightarrow> Some None | Some JNull \<Rightarrow> Some None
                                  | Some tr \<Rightarrow> map_option Some (trace_validate tr)) of
                              None \<Rightarrow> None
                            | Some tr \<Rightarrow>
                                Some \<lparr>en_id = i, en_name = n, en_source = s, en_aggregate_type = aty,
                                      en_aggregate_id = ai, en_occurred_at = t, en_payload = p, en_trace = tr\<rparr>)))
             | _ \<Rightarrow> None)
      | _ \<Rightarrow> None)"

definition envelope_ok :: "envelope \<Rightarrow> bool" where
  "envelope_ok e \<longleftrightarrow> json_ok (JObj (en_payload e)) \<and> (case en_trace e of None \<Rightarrow> True | Some t \<Rightarrow> trace_ok t)"

lemma envelope_validate_dump:
  assumes "envelope_ok e" "parse_time (show_time (en_occurred_at e)) = Some (en_occurred_at e)"
  shows "envelope_validate parse_time now (envelope_dump show_time e) = Some e"
proof (cases "en_trace e")
  case None
  then show ?thesis using assms
    by (simp add: envelope_validate_def envelope_dump_def envelope_keys_def str_field_def)
next
  case (Some t)
  have "(case Some (trace_dump t) of None \<Rightarrow> Some None | Some JNull \<Rightarrow> Some None
      | Some tr \<Rightarrow> map_option Some (trace_validate tr)) = map_option Some (trace_validate (trace_dump t))"
    by (simp add: trace_dump_def)
  then have "(case Some (trace_dump t) of None \<Rightarrow> Some None | Some JNull \<Rightarrow> Some None
      | Some tr \<Rightarrow> map_option Some (trace_validate tr)) = Some (Some t)"
    using assms Some by (simp add: envelope_ok_def trace_validate_dump)
  then show ?thesis using assms Some
    by (simp add: envelope_validate_def envelope_dump_def envelope_keys_def str_field_def)
qed

lemma envelope_dump_ok: "envelope_ok e \<Longrightarrow> json_ok (envelope_dump show_time e)"
  by (auto simp: envelope_ok_def envelope_dump_def trace_dump_def split: option.split)

subsection \<open>The in-process bus\<close>

type_synonym 'w handler = "envelope \<Rightarrow> 'w \<Rightarrow> exn option \<times> 'w"

type_synonym 'w local_bus = "(string, 'w handler list) pydict"

definition local_subscribe :: "string \<Rightarrow> 'w handler \<Rightarrow> 'w local_bus \<Rightarrow> 'w local_bus" where
  "local_subscribe event_name h bus =
     (let bus' = dict_setdefault event_name [] bus
      in AList.update event_name (dict_get [] event_name bus' @ [h]) bus')"

fun run_handlers :: "'w handler list \<Rightarrow> 'w handler" where
  "run_handlers [] env w = (None, w)"
| "run_handlers (h # hs) env w =
     (case h env w of
        (Some e, w') \<Rightarrow> (Some e, w')
      | (None, w') \<Rightarrow> run_handlers hs env w')"

definition local_publish :: "'w local_bus \<Rightarrow> 'w handler" where
  "local_publish bus env w = run_handlers (dict_get [] (en_name env) bus) env w"

lemma subscribers_in_order:
  "dict_get [] n (local_subscribe m h bus) = (if n = m then dict_get [] n bus @ [h] else dict_get [] n bus)"
  by (auto simp: local_subscribe_def Let_def dict_setdefault_def dict_get_def split: option.split)

lemma run_handlers_append:
  "run_handlers (hs @ hs') env w =
     (case run_handlers hs env w of (Some e, w') \<Rightarrow> (Some e, w') | (None, w') \<Rightarrow> run_handlers hs' env w')"
  by (induction hs arbitrary: w) (auto split: prod.split option.split)

subsection \<open>The consumer base\<close>

text \<open>\<open>guarded\<close>: the state is the idempotency store with the state of the service. An \<open>acquire\<close> that raises leaves it
  before the handler; a \<open>put\<close> that raises in the \<open>finally\<close> takes the place of what the handler raised.\<close>

definition event_key :: "string \<Rightarrow> envelope \<Rightarrow> string" where
  "event_key event_name env = ''evt:'' @ event_name @ '':'' @ en_id env"

definition guarded :: "'s store_ops option \<Rightarrow> string \<Rightarrow> 'w handler \<Rightarrow> ('s \<times> 'w) handler" where
  "guarded store event_name h env sw =
     (case store of
        None \<Rightarrow> (case h env (snd sw) of (e, w') \<Rightarrow> (e, (fst sw, w')))
      | Some ops \<Rightarrow>
          (case st_acquire ops (event_key event_name env) 86400 (fst sw) of
             (Inl x, s1) \<Rightarrow> (Some x, (s1, snd sw))
           | (Inr False, s1) \<Rightarrow> (None, (s1, snd sw))
           | (Inr True, s1) \<Rightarrow>
               (case h env (snd sw) of
                  (e, w') \<Rightarrow>
                    (case st_put ops (event_key event_name env) ''done'' 86400 s1 of
                       (Some x, s2) \<Rightarrow> (Some x, (s2, w'))
                     | (None, s2) \<Rightarrow> (e, (s2, w'))))))"

subsection \<open>RabbitMQ\<close>

record amqp_message =
  am_body :: string
  am_content_type :: string
  am_message_id :: string
  am_headers :: "(string \<times> string) list"
  am_timestamp :: real

text \<open>
  The bus and the broker as the code sees them: which of the handles \<open>_connection\<close>, \<open>_channel\<close>, \<open>_exchange\<close>
  are set, the messages published with their routing keys, and the durable queues with their bindings and
  consumers. \<open>connect\<close> sets the handles one after the other; \<open>stage\<close> says where it raises.
\<close>

record 'c broker =
  br_connection :: bool
  br_channel :: bool
  br_exchange :: bool
  br_published :: "(string \<times> amqp_message) list"
  br_queues :: "(string, string list \<times> 'c list) pydict"

definition new_bus :: "'c broker" where
  "new_bus = \<lparr>br_connection = False, br_channel = False, br_exchange = False, br_published = [], br_queues = []\<rparr>"

datatype stage = AtConnection exn | AtChannel exn | AtExchange exn

definition rabbit_connect :: "stage option \<Rightarrow> 'c broker \<Rightarrow> exn option \<times> 'c broker" where
  "rabbit_connect st b =
     (case st of
        Some (AtConnection x) \<Rightarrow> (Some x, b)
      | Some (AtChannel x) \<Rightarrow> (Some x, b\<lparr>br_connection := True\<rparr>)
      | Some (AtExchange x) \<Rightarrow> (Some x, b\<lparr>br_connection := True, br_channel := True\<rparr>)
      | None \<Rightarrow> (None, b\<lparr>br_connection := True, br_channel := True, br_exchange := True\<rparr>))"

text \<open>\<open>close\<close>: whether the connection is closed. The handles stay as they are.\<close>

definition rabbit_close :: "'c broker \<Rightarrow> bool \<times> 'c broker" where
  "rabbit_close b = (br_connection b, b)"

definition rabbit_message :: "(real \<Rightarrow> string) \<Rightarrow> envelope \<Rightarrow> amqp_message" where
  "rabbit_message show_time env =
     \<lparr>am_body = json_compact (envelope_dump show_time env), am_content_type = ''application/json'',
      am_message_id = en_id env,
      am_headers = (case en_trace env of None \<Rightarrow> [] | Some t \<Rightarrow> [(''traceparent'', traceparent t)]),
      am_timestamp = en_occurred_at env\<rparr>"

text \<open>
  What the network does to one publication: where the connection that it may need fails, if anywhere, and whether
  the publication is confirmed, refused before the broker has the message, or lost on the way back, when the
  broker has the message and the publisher sees an exception.
\<close>

datatype network = Confirmed | Refused exn | Unconfirmed exn

definition rabbit_publish ::
  "stage option \<times> network \<Rightarrow> (real \<Rightarrow> string) \<Rightarrow> envelope \<Rightarrow> 'c broker \<Rightarrow> exn option \<times> 'c broker" where
  "rabbit_publish net show_time env b =
     (case (if br_exchange b then (None, b) else rabbit_connect (fst net) b) of
        (Some x, b1) \<Rightarrow> (Some x, b1)
      | (None, b1) \<Rightarrow>
          (let b2 = b1\<lparr>br_published := br_published b1 @ [(en_name env, rabbit_message show_time env)]\<rparr> in
           case snd net of
             Confirmed \<Rightarrow> (None, b2)
           | Refused x \<Rightarrow> (Some x, b1)
           | Unconfirmed x \<Rightarrow> (Some x, b2)))"

text \<open>
  \<open>subscribe\<close>: the queue is named after the event; it is declared (kept if it exists), bound to the exchange with
  the event name as routing key, and the consumer is added to it. \<open>no_exchange\<close> is what the library raises when
  it is asked to bind to \<open>None\<close>.
\<close>

definition rabbit_subscribe ::
  "stage option \<Rightarrow> exn \<Rightarrow> string \<Rightarrow> 'c \<Rightarrow> 'c broker \<Rightarrow> exn option \<times> 'c broker" where
  "rabbit_subscribe st no_exchange event_name c b =
     (case (if br_channel b then (None, b) else rabbit_connect st b) of
        (Some x, b1) \<Rightarrow> (Some x, b1)
      | (None, b1) \<Rightarrow>
          (let (keys, cs) = dict_get ([], []) event_name (br_queues b1) in
           if br_exchange b1
           then (None, b1\<lparr>br_queues := AList.update event_name
                    (if event_name \<in> set keys then keys else keys @ [event_name], cs @ [c]) (br_queues b1)\<rparr>)
           else (Some no_exchange, b1\<lparr>br_queues := AList.update event_name (keys, cs) (br_queues b1)\<rparr>)))"

text \<open>What happens to a delivered message: \<open>message.process()\<close> acknowledges it when the block returns and
  rejects it without requeueing when it raises.\<close>

datatype disposition = Acked | Rejected exn

definition on_message ::
  "(string \<Rightarrow> real option) \<Rightarrow> real \<Rightarrow> 's store_ops option \<Rightarrow> string \<Rightarrow> 'w handler \<Rightarrow> amqp_message \<Rightarrow> 's \<times> 'w
    \<Rightarrow> disposition \<times> ('s \<times> 'w)" where
  "on_message parse_time now store event_name h m sw =
     (case json_loads (am_body m) of
        None \<Rightarrow> (Rejected (ValidationExc JNull), sw)
      | Some j \<Rightarrow>
          (case envelope_validate parse_time now j of
             None \<Rightarrow> (Rejected (ValidationExc JNull), sw)
           | Some env \<Rightarrow>
               (case guarded store event_name h env sw of
                  (None, sw') \<Rightarrow> (Acked, sw')
                | (Some e, sw') \<Rightarrow> (Rejected e, sw'))))"

datatype bus_choice = UseRabbit string | UseLocal

definition build_event_bus :: "string option \<Rightarrow> bus_choice" where
  "build_event_bus amqp_url = (if truthy amqp_url then UseRabbit (the amqp_url) else UseLocal)"

text \<open>\<open>None\<close>: the trace id of the context does not fit the pattern and \<open>TraceContext\<close> raises.\<close>

definition envelope_trace_from_context :: "ctxvars \<Rightarrow> trace_context option option" where
  "envelope_trace_from_context c =
     (if get_trace_id c = [] then Some None
      else map_option Some (make_trace_context (get_trace_id c) (replicate 16 CHR ''0'') ''01''))"

lemma trace_from_request_context:
  "envelope_trace_from_context (set_request_context rid (hex_pad 32 n) sid c) \<noteq> None"
  using trace_of_request [of n] by (simp add: envelope_trace_from_context_def)

subsection \<open>Properties\<close>

lemma on_rabbit_message:
  assumes "envelope_ok e" "parse_time (show_time (en_occurred_at e)) = Some (en_occurred_at e)"
  shows "on_message parse_time now store n h (rabbit_message show_time e) sw =
    (case guarded store n h e sw of (None, sw') \<Rightarrow> (Acked, sw') | (Some x, sw') \<Rightarrow> (Rejected x, sw'))"
  using envelope_dump_ok [OF assms(1)] envelope_validate_dump [where now = now and parse_time = parse_time and show_time = show_time, OF assms]
  by (simp add: on_message_def rabbit_message_def)

text \<open>C25: What the RabbitMQ bus publishes, the consumer reads back: a well-formed event arrives as the
  envelope that was published, with its trace, for every event and any JSON payload; a bus that was not connected
  connects first.\<close>

theorem published_event_arrives:
  assumes "envelope_ok e" "parse_time (show_time (en_occurred_at e)) = Some (en_occurred_at e)"
  shows "\<exists>m. fst (rabbit_publish (None, Confirmed) show_time e b) = None
    \<and> br_published (snd (rabbit_publish (None, Confirmed) show_time e b)) = br_published b @ [(en_name e, m)]
    \<and> am_message_id m = en_id e
    \<and> json_loads (am_body m) = Some (envelope_dump show_time e)
    \<and> on_message parse_time now store n h m sw =
        (case guarded store n h e sw of (None, sw') \<Rightarrow> (Acked, sw') | (Some x, sw') \<Rightarrow> (Rejected x, sw'))"
proof -
  have "json_loads (am_body (rabbit_message show_time e)) = Some (envelope_dump show_time e)"
    using envelope_dump_ok [OF assms(1)] by (simp add: rabbit_message_def)
  then show ?thesis
    using on_rabbit_message [where now = now and parse_time = parse_time and show_time = show_time, OF assms]
    by (simp add: rabbit_publish_def rabbit_connect_def Let_def) (simp add: rabbit_message_def)
qed

definition sample_event :: envelope where
  "sample_event = \<lparr>en_id = ''e1'', en_name = ''user.created.v1'', en_source = ''users'', en_aggregate_type = ''user'',
     en_aggregate_id = ''u1'', en_occurred_at = 0, en_payload = [(''user_id'', JStr ''u1'')], en_trace = None\<rparr>"

lemma published_event_arrives_witness:
  "\<exists>m. br_published (snd (rabbit_publish (None, Confirmed) (\<lambda>t. ''0'') sample_event new_bus))
      = [(''user.created.v1'', m)] \<and> am_message_id m = ''e1''"
  using published_event_arrives [where e = sample_event and parse_time = "\<lambda>t. Some 0" and show_time = "\<lambda>t. ''0''"
      and b = new_bus]
  by (fastforce simp: sample_event_def envelope_ok_def new_bus_def)

text \<open>Consumption against the laws of a store.\<close>

lemma guarded_first:
  assumes laws: "idempotency_store ops look"
    and new: "look (event_key n env) s = None" and run: "h env w = (x, w')"
  shows "\<exists>s'. guarded (Some ops) n h env (s, w) = (x, (s', w')) \<and> look (event_key n env) s' = Some ''done''"
proof -
  have ttl: "(0::int) \<le> 86400" by simp
  obtain s1 where s1: "st_acquire ops (event_key n env) 86400 s = (Inr True, s1)"
    using idempotency_store.acquire_works [OF laws ttl new] .
  obtain s2 where "st_put ops (event_key n env) ''done'' 86400 s1 = (None, s2)" "look (event_key n env) s2 = Some ''done''"
    using idempotency_store.put_works [OF laws ttl] .
  then show ?thesis using run s1 by (simp add: guarded_def)
qed

lemma guarded_again:
  assumes laws: "idempotency_store ops look" and old: "look (event_key n env) s = Some v"
  shows "guarded (Some ops) n h env (s, w) = (None, (s, w))"
  using idempotency_store.acquire_taken [OF laws _ old, of 86400] by (simp add: guarded_def)

fun deliveries :: "'w handler \<Rightarrow> envelope \<Rightarrow> nat \<Rightarrow> 'w \<Rightarrow> exn option list \<times> 'w" where
  "deliveries h env 0 w = ([], w)"
| "deliveries h env (Suc k) w =
     (case h env w of (x, w') \<Rightarrow> (case deliveries h env k w' of (xs, w'') \<Rightarrow> (x # xs, w'')))"

lemma deliveries_again:
  assumes "idempotency_store ops look" "look (event_key n env) s = Some v"
  shows "deliveries (guarded (Some ops) n h) env k (s, w) = (replicate k None, (s, w))"
  by (induction k) (simp_all add: guarded_again [OF assms])

text \<open>C32: However often one event is delivered to a consumer with a store, its handler runs once. If that one
  run raised, the event is lost: the first delivery raises, every later one is taken for a duplicate and
  returns as if the event had been handled, since \<open>done\<close> is written on the failing path too.\<close>

theorem consumer_runs_once:
  assumes "idempotency_store ops look"
    and "look (event_key n env) s = None" and "h env w = (x, w')"
  shows "\<exists>s'. deliveries (guarded (Some ops) n h) env (Suc k) (s, w) = (x # replicate k None, (s', w'))"
proof -
  obtain s' where "guarded (Some ops) n h env (s, w) = (x, (s', w'))" "look (event_key n env) s' = Some ''done''"
    using guarded_first [OF assms(1,2), of h w x w'] assms(3) by blast
  then show ?thesis using deliveries_again [OF assms(1), of n env s' "''done''" h k w'] by simp
qed

definition failing :: "nat handler" where
  "failing env w = (Some (RuntimeError ''db down''), w + 1)"

lemma consumer_runs_once_witness:
  "\<exists>s'. deliveries (guarded (Some mem_ops) ''user.created.v1'' failing) sample_event 3 ([], 0)
     = ([Some (RuntimeError ''db down''), None, None], (s', 1))"
proof -
  have "mem_get (event_key ''user.created.v1'' sample_event) [] = None"
    by (simp add: mem_get_def)
  from consumer_runs_once [where ops = mem_ops and look = mem_get and n = "''user.created.v1''" and env = sample_event
      and s = "[]" and h = failing and k = 2, OF mem_laws this failing_def]
  show ?thesis by (simp add: numeral_3_eq_3 numeral_2_eq_2 del: deliveries.simps)
qed

text \<open>While the store is out of reach a consumer loses its events: \<open>acquire\<close> raises, the handler is not run, and the
  message is rejected without being put back into the queue. A \<open>put\<close> that raises after a run that succeeded has
  the message rejected as well.\<close>

theorem unreachable_store_loses_events:
  assumes e: "envelope_ok e" "parse_time (show_time (en_occurred_at e)) = Some (en_occurred_at e)"
    and down: "st_acquire ops (event_key n e) 86400 s = (Inl x, s1)"
  shows "on_message parse_time now (Some ops) n h (rabbit_message show_time e) (s, w) = (Rejected x, (s1, w))"
  using on_rabbit_message [where parse_time = parse_time and show_time = show_time and now = now and store = "Some ops" and n = n and h = h and sw = "(s, w)", OF e] down
  by (simp add: guarded_def)

theorem unconfirmed_run_is_rejected:
  assumes e: "envelope_ok e" "parse_time (show_time (en_occurred_at e)) = Some (en_occurred_at e)"
    and acquired: "st_acquire ops (event_key n e) 86400 s = (Inr True, s1)"
    and run: "h e w = (None, w')" and down: "st_put ops (event_key n e) ''done'' 86400 s1 = (Some x, s2)"
  shows "on_message parse_time now (Some ops) n h (rabbit_message show_time e) (s, w) = (Rejected x, (s2, w'))"
  using on_rabbit_message [where parse_time = parse_time and show_time = show_time and now = now and store = "Some ops" and n = n and h = h and sw = "(s, w)", OF e] acquired run down
  by (simp add: guarded_def)

text \<open>All consumers of one event name share one queue, whichever service they belong to: the broker hands
  each message to one of them only, so a second service subscribing the event takes messages from the first.\<close>

theorem consumers_share_queue:
  "let b = snd (rabbit_subscribe None x n c2 (snd (rabbit_subscribe None x n c1 new_bus)))
   in (\<exists>keys. map_of (br_queues b) n = Some (keys, [c1, c2])) \<and> length (br_queues b) = 1"
  by (simp add: rabbit_subscribe_def rabbit_connect_def new_bus_def dict_get_def)

text \<open>A connection attempt that fails at the exchange leaves the channel set. From then on \<open>subscribe\<close> takes the bus
  for connected and every attempt of it fails, however the broker has recovered; a publication looks at the
  exchange instead and connects anew.\<close>

theorem half_connected_bus_cannot_subscribe:
  assumes "snd (rabbit_connect (Some (AtExchange e)) new_bus) = b"
  shows "fst (rabbit_subscribe st x n c b) = Some x \<and>
    fst (rabbit_subscribe st' x n c (snd (rabbit_subscribe st x n c b))) = Some x \<and>
    fst (rabbit_publish (None, Confirmed) show_time env b) = None \<and>
    fst (rabbit_subscribe st x n c (snd (rabbit_publish (None, Confirmed) show_time env b))) = None"
  using assms by (auto simp: rabbit_connect_def rabbit_subscribe_def rabbit_publish_def new_bus_def Let_def split: prod.split)

subsection \<open>What a publisher promises\<close>

text \<open>
  The interface \<open>EventPublisher\<close> that the outbox relay publishes through. \<open>accepted\<close> is the abstract bus: the events it
  has taken charge of. A publication that returns was accepted; one that raises may have been.
\<close>

locale event_publisher =
  fixes publish :: "'w handler" and accepted :: "'w \<Rightarrow> envelope set"
  assumes publish_accepts: "publish e w = (None, w') \<Longrightarrow> e \<in> accepted w'"
    and publish_keeps: "publish e w = (x, w') \<Longrightarrow> accepted w \<subseteq> accepted w'"

text \<open>RabbitMQ over a network that gives the outcome of the \<open>n\<close>-th publication.\<close>

definition rabbit_bus :: "(nat \<Rightarrow> stage option \<times> network) \<Rightarrow> (real \<Rightarrow> string) \<Rightarrow> ('c broker \<times> nat) handler" where
  "rabbit_bus net show_time e bn =
     (case rabbit_publish (net (snd bn)) show_time e (fst bn) of (x, b) \<Rightarrow> (x, (b, Suc (snd bn))))"

definition on_broker :: "(real \<Rightarrow> string) \<Rightarrow> 'c broker \<times> nat \<Rightarrow> envelope set" where
  "on_broker show_time bn = {e. (en_name e, rabbit_message show_time e) \<in> set (br_published (fst bn))}"

lemma connect_keeps: "rabbit_connect st b = (x, b') \<Longrightarrow> br_published b' = br_published b \<and> br_queues b' = br_queues b"
  by (auto simp: rabbit_connect_def split: option.splits stage.splits)

lemma connect_without_trouble: "fst (rabbit_connect None b) = None"
  by (simp add: rabbit_connect_def)

lemma published_rabbit:
  assumes "rabbit_publish net show_time e b = (x, b')"
  shows "br_published b' = br_published b @ [(en_name e, rabbit_message show_time e)] \<or>
    x \<noteq> None \<and> br_published b' = br_published b"
proof -
  obtain y b1 where c: "(if br_exchange b then (None, b) else rabbit_connect (fst net) b) = (y, b1)" by fastforce
  then have "br_published b1 = br_published b" using connect_keeps by (auto split: if_splits)
  then show ?thesis using assms c
    by (auto simp: rabbit_publish_def Let_def split: option.splits network.splits)
qed

interpretation rabbit: event_publisher "rabbit_bus net show_time" "on_broker show_time"
  by unfold_locales
    (auto simp: rabbit_bus_def on_broker_def split: prod.splits dest!: published_rabbit)

text \<open>The in-process bus with the history of the events that all subscribers handled.\<close>

definition local_bus_run :: "'w local_bus \<Rightarrow> ('w \<times> envelope list) handler" where
  "local_bus_run bus e wh =
     (case local_publish bus e (fst wh) of
        (None, w') \<Rightarrow> (None, (w', snd wh @ [e]))
      | (Some x, w') \<Rightarrow> (Some x, (w', snd wh)))"

interpretation in_process: event_publisher "local_bus_run bus" "\<lambda>wh. set (snd wh)"
  by unfold_locales (auto simp: local_bus_run_def split: prod.splits option.splits)

end
