(* ===== verification/Outbox.thy ===== *)
theory Outbox
  imports Events
begin

section \<open>The transactional outbox: kernel/outbox.py\<close>

text \<open>
  The table \<open>outbox_messages\<close> is a list of rows; \<open>stage_outbox\<close> adds one within the caller's
  transaction, \<open>run_once\<close> is one batch of the relay. Points in time are seconds. The query orders by
  creation time; rows created at the same time keep their order in the table. The publisher is a
  handler on an environment (a bus with its consumers).
\<close>

datatype outbox_status = PENDING | SENT | FAILED

definition MAX_ATTEMPTS :: nat where
  "MAX_ATTEMPTS = 8"

definition BASE_BACKOFF_SECONDS :: real where
  "BASE_BACKOFF_SECONDS = 2"

record outbox_message =
  ob_id :: string
  ob_event_name :: string
  ob_aggregate_type :: string
  ob_aggregate_id :: string
  ob_payload :: "(string \<times> json) list"
  ob_headers :: "(string \<times> json) list"
  ob_status :: outbox_status
  ob_attempts :: nat
  ob_next_attempt_at :: "real option"
  ob_created_at :: real
  ob_sent_at :: "real option"

text \<open>\<open>new_id\<close> and \<open>now\<close> are what the column defaults produce at the flush.\<close>

definition stage_outbox :: "string \<Rightarrow> real \<Rightarrow> envelope \<Rightarrow> outbox_message list \<Rightarrow> outbox_message \<times> outbox_message list" where
  "stage_outbox new_id now e table =
     (let row = \<lparr>ob_id = new_id, ob_event_name = en_name e, ob_aggregate_type = en_aggregate_type e,
            ob_aggregate_id = en_aggregate_id e, ob_payload = en_payload e,
            ob_headers = [(''trace'', case en_trace e of None \<Rightarrow> JNull | Some t \<Rightarrow> trace_dump t)],
            ob_status = PENDING, ob_attempts = 0, ob_next_attempt_at = None, ob_created_at = now, ob_sent_at = None\<rparr>
      in (row, table @ [row]))"

definition to_envelope :: "outbox_message \<Rightarrow> envelope" where
  "to_envelope row =
     \<lparr>en_id = ob_id row, en_name = ob_event_name row, en_source = [],
      en_aggregate_type = ob_aggregate_type row, en_aggregate_id = ob_aggregate_id row,
      en_occurred_at = ob_created_at row, en_payload = ob_payload row,
      en_trace = (case map_of (ob_headers row) ''trace'' of
                    Some (JObj d) \<Rightarrow> trace_validate (JObj d)
                  | _ \<Rightarrow> None)\<rparr>"

subsection \<open>One batch of the relay\<close>

definition due :: "real \<Rightarrow> outbox_message \<Rightarrow> bool" where
  "due now row \<longleftrightarrow> ob_status row = PENDING \<and>
     (case ob_next_attempt_at row of None \<Rightarrow> True | Some t \<Rightarrow> t \<le> now)"

text \<open>The batch: with \<open>skip_locked\<close> the rows that another transaction has locked are left out.\<close>

definition select_batch :: "bool \<Rightarrow> string set \<Rightarrow> nat \<Rightarrow> real \<Rightarrow> outbox_message list \<Rightarrow> outbox_message list" where
  "select_batch use_skip_locked locked batch_size now table =
     take batch_size
       (sort_key ob_created_at
          (filter (\<lambda>r. due now r \<and> \<not> (use_skip_locked \<and> ob_id r \<in> locked)) table))"

definition backoff :: "nat \<Rightarrow> real" where
  "backoff attempts = BASE_BACKOFF_SECONDS * 2 ^ min attempts 6"

definition mark_sent :: "real \<Rightarrow> outbox_message \<Rightarrow> outbox_message" where
  "mark_sent t row = row\<lparr>ob_status := SENT, ob_sent_at := Some t, ob_attempts := ob_attempts row + 1\<rparr>"

definition mark_failed :: "real \<Rightarrow> outbox_message \<Rightarrow> outbox_message" where
  "mark_failed now row =
     (let row = row\<lparr>ob_attempts := ob_attempts row + 1\<rparr>
      in if MAX_ATTEMPTS \<le> ob_attempts row then row\<lparr>ob_status := FAILED\<rparr>
         else row\<lparr>ob_next_attempt_at := Some (now + backoff (ob_attempts row))\<rparr>)"

text \<open>The loop over the batch: each row with its new value, and the number delivered. \<open>clock\<close> reads the
  time after a publication.\<close>

fun deliver :: "'w handler \<Rightarrow> ('w \<Rightarrow> real) \<Rightarrow> real \<Rightarrow> outbox_message list \<Rightarrow> 'w \<Rightarrow> outbox_message list \<times> nat \<times> 'w" where
  "deliver publish clock now [] w = ([], 0, w)"
| "deliver publish clock now (row # rows) w =
     (case publish (to_envelope row) w of
        (None, w1) \<Rightarrow>
          (case deliver publish clock now rows w1 of
             (rows', n, w2) \<Rightarrow> (mark_sent (clock w1) row # rows', n + 1, w2))
      | (Some e, w1) \<Rightarrow>
          (case deliver publish clock now rows w1 of
             (rows', n, w2) \<Rightarrow> (mark_failed now row # rows', n, w2)))"

text \<open>The rows of the batch written back to the table, by primary key.\<close>

definition write_back :: "outbox_message list \<Rightarrow> outbox_message list \<Rightarrow> outbox_message list" where
  "write_back rows table =
     map (\<lambda>r. case map_of (map (\<lambda>x. (ob_id x, x)) rows) (ob_id r) of Some r' \<Rightarrow> r' | None \<Rightarrow> r) table"

record relay_config =
  rl_batch_size :: nat
  rl_use_skip_locked :: bool

definition default_relay :: relay_config where
  "default_relay = \<lparr>rl_batch_size = 100, rl_use_skip_locked = True\<rparr>"

record run_result =
  rr_delivered :: nat
  rr_table :: "outbox_message list"
  rr_pending :: nat

definition run_once ::
  "relay_config \<Rightarrow> 'w handler \<Rightarrow> ('w \<Rightarrow> real) \<Rightarrow> real \<Rightarrow> string set \<Rightarrow> outbox_message list \<Rightarrow> 'w \<Rightarrow> run_result \<times> 'w" where
  "run_once cfg publish clock now locked table w =
     (let rows = select_batch (rl_use_skip_locked cfg) locked (rl_batch_size cfg) now table
      in case deliver publish clock now rows w of
           (rows', n, w') \<Rightarrow>
             (let table' = write_back rows' table
              in (\<lparr>rr_delivered = n, rr_table = table',
                   rr_pending = length (filter (\<lambda>r. ob_status r = PENDING) table')\<rparr>, w')))"

subsection \<open>Batches\<close>

definition keys_ok :: "outbox_message list \<Rightarrow> bool" where
  "keys_ok table \<longleftrightarrow> distinct (map ob_id table)"

lemma select_batch_in:
  "r \<in> set (select_batch sl locked n now table) \<Longrightarrow> r \<in> set table \<and> due now r \<and> (sl \<longrightarrow> ob_id r \<notin> locked)"
  by (auto simp: select_batch_def dest!: in_set_takeD)

lemma select_batch_distinct: "keys_ok table \<Longrightarrow> distinct (map ob_id (select_batch sl locked n now table))"
proof -
  assume "keys_ok table"
  then have "distinct (map ob_id (filter P table))" for P
    by (simp add: keys_ok_def distinct_map_filter)
  moreover have "mset (map ob_id (sort_key ob_created_at xs)) = mset (map ob_id xs)" for xs :: "outbox_message list"
    by (simp add: mset_map)
  ultimately have "distinct (map ob_id (sort_key ob_created_at (filter P table)))" for P
    by (metis mset_eq_imp_distinct_iff)
  then show ?thesis by (simp add: select_batch_def take_map [symmetric])
qed

text \<open>What one publication does to its row.\<close>

definition row_step :: "'w handler \<Rightarrow> ('w \<Rightarrow> real) \<Rightarrow> real \<Rightarrow> outbox_message \<Rightarrow> outbox_message \<Rightarrow> bool" where
  "row_step publish clock now r r' \<longleftrightarrow>
     (\<exists>w w1. publish (to_envelope r) w = (None, w1) \<and> r' = mark_sent (clock w1) r) \<or>
     (\<exists>w w1 e. publish (to_envelope r) w = (Some e, w1) \<and> r' = mark_failed now r)"

lemma mark_id [simp]: "ob_id (mark_sent t r) = ob_id r" "ob_id (mark_failed now r) = ob_id r"
  by (simp_all add: mark_sent_def mark_failed_def Let_def)

lemma row_step_id: "row_step publish clock now r r' \<Longrightarrow> ob_id r' = ob_id r"
  by (auto simp: row_step_def)

lemma deliver_rows:
  "deliver publish clock now rows w = (rows', n, w') \<Longrightarrow> list_all2 (row_step publish clock now) rows rows'"
proof (induction rows arbitrary: rows' n w w')
  case Nil
  then show ?case by simp
next
  case (Cons r rows)
  obtain x w1 where p: "publish (to_envelope r) w = (x, w1)" by fastforce
  obtain rs k w2 where d: "deliver publish clock now rows w1 = (rs, k, w2)" by (metis prod_cases3)
  show ?case using Cons.prems Cons.IH [OF d] p d
    by (cases x) (auto simp: row_step_def)
qed

lemma map_of_rows:
  assumes "list_all2 (row_step publish clock now) rows rows'" "distinct (map ob_id rows)"
  shows "map_of (map (\<lambda>x. (ob_id x, x)) rows') i = Some r' \<Longrightarrow>
      \<exists>r \<in> set rows. ob_id r = i \<and> row_step publish clock now r r'"
    and "map_of (map (\<lambda>x. (ob_id x, x)) rows') i = None \<Longrightarrow> i \<notin> ob_id ` set rows"
  using assms
  by (induction rows rows' rule: list_all2_induct) (auto simp: row_step_id split: if_splits)

lemma keys_ok_eq: "keys_ok table \<Longrightarrow> r \<in> set table \<Longrightarrow> q \<in> set table \<Longrightarrow> ob_id r = ob_id q \<Longrightarrow> r = q"
  by (auto simp: keys_ok_def distinct_map inj_on_def)

text \<open>One batch changes exactly the rows it selected, each by its own publication.\<close>

lemma run_once_rows:
  assumes keys: "keys_ok table" and run: "run_once cfg publish clock now locked table w = (res, w')"
  defines "batch \<equiv> select_batch (rl_use_skip_locked cfg) locked (rl_batch_size cfg) now table"
  shows "list_all2 (\<lambda>r r'. if r \<in> set batch then row_step publish clock now r r' else r' = r) table (rr_table res)"
proof -
  obtain rows' n w1 where d: "deliver publish clock now batch w = (rows', n, w1)" by (metis prod_cases3)
  have t: "rr_table res = write_back rows' table" using run d by (auto simp: run_once_def batch_def Let_def)
  have dist: "distinct (map ob_id batch)" unfolding batch_def by (rule select_batch_distinct [OF keys])
  note rows = map_of_rows [OF deliver_rows [OF d] dist]
  have step: "if r \<in> set batch then row_step publish clock now r r' else r' = r"
    if r: "r \<in> set table" and r': "r' = (case map_of (map (\<lambda>x. (ob_id x, x)) rows') (ob_id r) of Some q \<Rightarrow> q | None \<Rightarrow> r)" for r r'
  proof (cases "map_of (map (\<lambda>x. (ob_id x, x)) rows') (ob_id r)")
    case None
    then show ?thesis using rows(2) [OF None] r' by auto
  next
    case (Some q)
    then obtain r0 where r0: "r0 \<in> set batch" "ob_id r0 = ob_id r" "row_step publish clock now r0 q"
      using rows(1) by blast
    have "r0 \<in> set table" using select_batch_in r0(1) unfolding batch_def by blast
    then have "r0 = r" using keys_ok_eq [OF keys _ r r0(2)] by simp
    then show ?thesis using r0 Some r' by simp
  qed
  show ?thesis unfolding t write_back_def list_all2_map2
    by (simp only: list_all2_same) (use step in blast)
qed

lemma write_back_id: "map ob_id (write_back rows table) = map ob_id table"
  by (auto simp: write_back_def split: option.split dest!: map_of_SomeD)

lemma run_once_keys: "run_once cfg publish clock now locked table w = (res, w') \<Longrightarrow> map ob_id (rr_table res) = map ob_id table"
  by (auto simp: run_once_def Let_def write_back_id split: prod.splits)

subsection \<open>The life of a row\<close>

definition row_ok :: "outbox_message \<Rightarrow> bool" where
  "row_ok r \<longleftrightarrow>
     (case ob_status r of
        PENDING \<Rightarrow> ob_attempts r < MAX_ATTEMPTS \<and> ob_sent_at r = None
      | SENT \<Rightarrow> 1 \<le> ob_attempts r \<and> ob_attempts r \<le> MAX_ATTEMPTS \<and> ob_sent_at r \<noteq> None
      | FAILED \<Rightarrow> ob_attempts r = MAX_ATTEMPTS \<and> ob_sent_at r = None)"

definition outbox_ok :: "outbox_message list \<Rightarrow> bool" where
  "outbox_ok table \<longleftrightarrow> keys_ok table \<and> list_all row_ok table"

lemma row_step_ok:
  "row_ok r \<Longrightarrow> ob_status r = PENDING \<Longrightarrow> row_step publish clock now r r' \<Longrightarrow> row_ok r'"
  by (auto simp: row_ok_def row_step_def mark_sent_def mark_failed_def MAX_ATTEMPTS_def Let_def)

lemma relay_keeps_outbox_for:
  assumes ok: "outbox_ok table" and run: "run_once cfg publish clock now locked table w = (res, w')"
  shows "outbox_ok (rr_table res) \<and>
    list_all2 (\<lambda>r r'. ob_id r' = ob_id r \<and> (ob_status r \<noteq> PENDING \<longrightarrow> r' = r)) table (rr_table res)"
proof -
  let ?b = "select_batch (rl_use_skip_locked cfg) locked (rl_batch_size cfg) now table"
  have keys: "keys_ok table" using ok by (simp add: outbox_ok_def)
  have pend: "ob_status r = PENDING" if "r \<in> set ?b" for r
    using select_batch_in [OF that] by (simp add: due_def)
  have all: "list_all2 (\<lambda>r r'. row_ok r \<longrightarrow> row_ok r' \<and> ob_id r' = ob_id r \<and> (ob_status r \<noteq> PENDING \<longrightarrow> r' = r)) table (rr_table res)"
    by (rule list_all2_mono [OF run_once_rows [OF keys run]])
      (use pend in \<open>auto dest: row_step_ok row_step_id split: if_splits\<close>)
  have rows: "list_all row_ok table" using ok by (simp add: outbox_ok_def)
  with all have "list_all row_ok (rr_table res)"
    by (auto simp: list_all2_conv_all_nth list_all_length)
  moreover have "keys_ok (rr_table res)" using keys run_once_keys [OF run] by (simp add: keys_ok_def)
  moreover have "list_all2 (\<lambda>r r'. ob_id r' = ob_id r \<and> (ob_status r \<noteq> PENDING \<longrightarrow> r' = r)) table (rr_table res)"
    using all rows by (auto simp: list_all2_conv_all_nth list_all_length)
  ultimately show ?thesis by (simp add: outbox_ok_def)
qed

text \<open>C7: A batch of the relay keeps the table well formed: same rows, at most eight attempts each, a row is
  failed exactly with its eighth failed attempt and sent only with a time of sending; rows that are sent or
  failed are never touched again.\<close>

theorem relay_keeps_outbox:
  assumes ok: "outbox_ok table" and run: "run_once cfg publish clock now locked table w = (res, w')"
  shows "outbox_ok (rr_table res) \<and>
    list_all2 (\<lambda>r r'. ob_id r' = ob_id r \<and> (ob_status r \<noteq> PENDING \<longrightarrow> r' = r)) table (rr_table res)"
  using assms by (rule relay_keeps_outbox_for)

definition sample_table :: "outbox_message list" where
  "sample_table = snd (stage_outbox ''m1'' 0 sample_event [])"

lemma sample_table_ok: "outbox_ok sample_table"
  by (simp add: sample_table_def stage_outbox_def outbox_ok_def keys_ok_def row_ok_def MAX_ATTEMPTS_def Let_def)

lemma relay_keeps_outbox_witness:
  "outbox_ok (rr_table (fst (run_once default_relay failing (\<lambda>w. 1) 1 {} sample_table 0)))"
  using relay_keeps_outbox [where cfg = default_relay and publish = failing and clock = "\<lambda>w. 1" and now = 1
      and locked = "{}" and w = 0, OF sample_table_ok surjective_pairing] by blast

text \<open>A message is marked as sent only after a publication of its event that raised nothing: the relay
  never marks what it did not hand to the bus.\<close>

theorem sent_was_published:
  assumes "keys_ok table" and run: "run_once cfg publish clock now locked table w = (res, w')"
    and i: "i < length table" "ob_status (table ! i) \<noteq> SENT" "ob_status (rr_table res ! i) = SENT"
  shows "\<exists>w1 w2. publish (to_envelope (table ! i)) w1 = (None, w2)"
  using list_all2_nthD [OF run_once_rows [OF assms(1) run] i(1)] i(2,3)
  by (auto simp: row_step_def mark_failed_def Let_def split: if_splits)

definition accepting :: "nat handler" where
  "accepting env w = (None, w + 1)"

lemma sent_was_published_witness:
  "\<exists>w1 w2. accepting (to_envelope (sample_table ! 0)) w1 = (None, w2)"
  by (rule sent_was_published [where table = sample_table and cfg = default_relay and clock = "\<lambda>w. 1" and now = 1
        and locked = "{}" and w = 0 and res = "fst (run_once default_relay accepting (\<lambda>w. 1) 1 {} sample_table 0)"
        and w' = "snd (run_once default_relay accepting (\<lambda>w. 1) 1 {} sample_table 0)"])
    (simp_all add: sample_table_def stage_outbox_def keys_ok_def run_once_def select_batch_def due_def
      default_relay_def accepting_def mark_sent_def write_back_def Let_def)

subsection \<open>Retries\<close>

text \<open>\<open>fails_at ts r\<close>: the row after publications that failed at the times \<open>ts\<close>.\<close>

definition fails_at :: "real list \<Rightarrow> outbox_message \<Rightarrow> outbox_message" where
  "fails_at ts r = fold mark_failed ts r"

lemma fails_at_snoc: "fails_at (ts @ [t]) r = mark_failed t (fails_at ts r)"
  by (simp add: fails_at_def)

lemma fails_at_attempts: "ob_attempts (fails_at ts r) = ob_attempts r + length ts"
  by (induction ts rule: rev_induct) (auto simp: fails_at_def mark_failed_def Let_def)

lemma backoff_values: "1 \<le> k \<Longrightarrow> k \<le> 7 \<Longrightarrow> backoff k \<in> {4, 8, 16, 32, 64, 128}"
proof -
  assume "1 \<le> k" "k \<le> 7"
  then have "k \<in> {1, 2, 3, 4, 5, 6, 7}" by auto
  then show ?thesis by (auto simp: backoff_def BASE_BACKOFF_SECONDS_def)
qed



text \<open>A batch whose size is not exceeded and whose publications all succeed sends every message that is
  due and not locked by another relay.\<close>

theorem due_messages_are_sent:
  assumes keys: "keys_ok table" and run: "run_once cfg publish clock now locked table w = (res, w')"
    and works: "\<And>e w. fst (publish e w) = None"
    and room: "length (filter (due now) table) \<le> rl_batch_size cfg"
    and i: "i < length table" "due now (table ! i)" "ob_id (table ! i) \<notin> locked"
  shows "ob_status (rr_table res ! i) = SENT"
proof -
  let ?f = "filter (\<lambda>r. due now r \<and> \<not> (rl_use_skip_locked cfg \<and> ob_id r \<in> locked)) table"
  have "length ?f \<le> length (filter (due now) table)" by (induction table) auto
  then have "take (rl_batch_size cfg) (sort_key ob_created_at ?f) = sort_key ob_created_at ?f"
    using room by simp
  then have "table ! i \<in> set (select_batch (rl_use_skip_locked cfg) locked (rl_batch_size cfg) now table)"
    using i by (simp add: select_batch_def)
  moreover have "publish e w \<noteq> (Some x, v)" for e w x v using works [of e w] by auto
  ultimately show ?thesis
    using list_all2_nthD [OF run_once_rows [OF keys run] i(1)] by (auto simp: row_step_def mark_sent_def)
qed

lemma due_messages_are_sent_witness:
  "ob_status (rr_table (fst (run_once default_relay accepting (\<lambda>w. 1) 1 {} sample_table 0)) ! 0) = SENT"
  by (rule due_messages_are_sent [where publish = accepting, OF _ surjective_pairing])
    (simp_all add: sample_table_def stage_outbox_def keys_ok_def due_def accepting_def default_relay_def Let_def)

text \<open>Two relays that run at the same time select disjoint batches when rows are locked and skipped; without
  it (SQLite) a second relay selects, and publishes, the very rows of the first.\<close>

theorem concurrent_batches:
  fixes table :: "outbox_message list" and sl :: bool and n :: nat and now :: real
  defines "batch \<equiv> select_batch sl {} n now table"
  shows "set batch \<inter> set (select_batch True (ob_id ` set batch) n now' table) = {}
    \<and> select_batch False (ob_id ` set batch) n now table = select_batch False {} n now table"
proof
  have "ob_id r \<notin> ob_id ` set batch" if "r \<in> set (select_batch True (ob_id ` set batch) n now' table)" for r
    using select_batch_in [OF that] by simp
  then show "set batch \<inter> set (select_batch True (ob_id ` set batch) n now' table) = {}" by blast
  show "select_batch False (ob_id ` set batch) n now table = select_batch False {} n now table"
    by (simp add: select_batch_def)
qed

subsection \<open>Staged events\<close>

text \<open>The event that the relay publishes has the name, aggregate, payload and trace of the one that was
  staged, but not its identity: its id is the row's, its source is empty, its time is the row's.\<close>

theorem staged_event_published:
  assumes "envelope_ok e" "stage_outbox i now e table = (row, table')"
  shows "to_envelope row = e\<lparr>en_id := i, en_source := [], en_occurred_at := now\<rparr>"
proof -
  have row: "row = fst (stage_outbox i now e table)" using assms(2) by simp
  have "(case Some (case en_trace e of None \<Rightarrow> JNull | Some t \<Rightarrow> trace_dump t) of
      Some (JObj d) \<Rightarrow> trace_validate (JObj d) | _ \<Rightarrow> None) = en_trace e"
  proof (cases "en_trace e")
    case None
    then show ?thesis by simp
  next
    case (Some t)
    then have "trace_validate (trace_dump t) = Some t"
      using assms(1) by (simp add: envelope_ok_def trace_validate_dump)
    then show ?thesis using Some by (simp add: trace_dump_def)
  qed
  then show ?thesis
    by (intro envelope.equality) (simp_all add: row stage_outbox_def to_envelope_def Let_def)
qed

lemma staged_event_published_witness:
  "to_envelope (hd sample_table) = sample_event\<lparr>en_id := ''m1'', en_source := [], en_occurred_at := 0\<rparr>"
proof -
  have "envelope_ok sample_event" by (simp add: envelope_ok_def sample_event_def)
  from staged_event_published [OF this surjective_pairing, of "''m1''" 0 "[]"]
  show ?thesis by (simp add: sample_table_def stage_outbox_def Let_def)
qed

subsection \<open>The outbox and a failing consumer\<close>

text \<open>A handler that fails once loses its event although the outbox retries it: the relay's first batch
  schedules the retry, the second one hands the event to the consumer again, which takes it for a
  duplicate and returns, and the message is marked as sent. The handler has run once, and failed.\<close>

theorem failed_event_is_marked_sent:
  fixes h :: "'w handler"
  assumes laws: "idempotency_store ops look"
    and row: "ob_status r = PENDING" "ob_attempts r = 0" "ob_next_attempt_at r = None"
    and new: "look (event_key n (to_envelope r)) s = None"
    and fail: "h (to_envelope r) w = (Some e, w')"
    and later: "t + 4 \<le> t2" and batch: "0 < rl_batch_size cfg"
    and first: "run_once cfg (guarded (Some ops) n h) clock t {} [r] (s, w) = (res, sw1)"
    and second: "run_once cfg (guarded (Some ops) n h) clock2 t2 {} (rr_table res) sw1 = (res2, sw2)"
  shows "map ob_status (rr_table res) = [PENDING] \<and> map ob_status (rr_table res2) = [SENT] \<and> snd sw2 = w'"
proof -
  obtain s' where g: "guarded (Some ops) n h (to_envelope r) (s, w) = (Some e, (s', w'))"
    "look (event_key n (to_envelope r)) s' = Some ''done''"
    using guarded_first [where h = h, OF laws new fail] by blast
  let ?r = "r\<lparr>ob_attempts := 1, ob_next_attempt_at := Some (t + 4)\<rparr>"
  have mf: "mark_failed t r = ?r"
    using row by (simp add: mark_failed_def MAX_ATTEMPTS_def backoff_def BASE_BACKOFF_SECONDS_def Let_def)
  obtain b where b: "rl_batch_size cfg = Suc b" using batch by (cases "rl_batch_size cfg") auto
  have 1: "rr_table res = [?r]" "sw1 = (s', w')"
    using first row g b mf by (auto simp: run_once_def select_batch_def due_def write_back_def Let_def)
  have e: "to_envelope ?r = to_envelope r" by (simp add: to_envelope_def)
  have again: "guarded (Some ops) n h (to_envelope ?r) (s', w') = (None, (s', w'))"
    using guarded_again [OF laws] g(2) e by simp
  show ?thesis
    using second 1 later row again b
    by (auto simp: run_once_def select_batch_def due_def write_back_def mark_sent_def Let_def)
qed

lemma failed_event_is_marked_sent_witness:
  "map ob_status (rr_table (fst (run_once default_relay (guarded (Some mem_ops) ''user.created.v1'' failing) (\<lambda>w. 9) 9 {}
      (rr_table (fst (run_once default_relay (guarded (Some mem_ops) ''user.created.v1'' failing) (\<lambda>w. 1) 1 {} sample_table ([], 0))))
      (snd (run_once default_relay (guarded (Some mem_ops) ''user.created.v1'' failing) (\<lambda>w. 1) 1 {} sample_table ([], 0)))))) = [SENT]"
proof -
  have t: "sample_table = [hd sample_table]" "ob_status (hd sample_table) = PENDING" "ob_attempts (hd sample_table) = 0"
    "ob_next_attempt_at (hd sample_table) = None"
    by (simp_all add: sample_table_def stage_outbox_def Let_def)
  have new: "mem_get (event_key ''user.created.v1'' (to_envelope (hd sample_table))) [] = None"
    by (simp add: mem_get_def)
  have cfg: "0 < rl_batch_size default_relay" "(1::real) + 4 \<le> 9" by (simp_all add: default_relay_def)
  show ?thesis
    by (subst (1 2) t(1), rule conjunct1 [OF conjunct2 [OF failed_event_is_marked_sent
      [where ops = mem_ops and look = mem_get and n = "''user.created.v1''" and s = "[]" and h = failing, OF mem_laws t(2-4) new failing_def cfg(2,1) surjective_pairing surjective_pairing]]])
qed

end
