(* ===== verification/Database.thy ===== *)
theory Database
  imports Middleware
begin

section \<open>Read/write splitting and health checks: kernel/db.py, kernel/health.py\<close>

text \<open>
  Engines are numbered in the order in which they are built, which is their object identity. A
  router holds the engine for writes, the engines for reads and the round-robin index. The database
  itself (SQLAlchemy, the drivers) is outside; whether an engine answers \<open>SELECT 1\<close> is an argument.
\<close>

record engine =
  eng_id :: nat
  eng_url :: string
  eng_same_thread :: "bool option"
  eng_static_pool :: bool

definition build_engine :: "nat \<Rightarrow> string \<Rightarrow> engine" where
  "build_engine i url =
     \<lparr>eng_id = i, eng_url = url,
      eng_same_thread = (if starts_with ''sqlite'' url then Some False else None),
      eng_static_pool = (starts_with ''sqlite'' url \<and> contains '':memory:'' url)\<rparr>"

definition build_engines :: "string \<Rightarrow> string option \<Rightarrow> engine \<times> engine option" where
  "build_engines db_url replica =
     (build_engine 0 db_url, if truthy replica then Some (build_engine 1 (the replica)) else None)"

record router =
  rt_write :: engine
  rt_reads :: "engine list"
  rt_index :: nat

definition router_init :: "engine \<Rightarrow> engine list option \<Rightarrow> router" where
  "router_init w reads =
     \<lparr>rt_write = w,
      rt_reads = (case reads of Some rs \<Rightarrow> if rs = [] then [w] else rs | None \<Rightarrow> [w]),
      rt_index = 0\<rparr>"

definition has_replica :: "router \<Rightarrow> bool" where
  "has_replica r \<longleftrightarrow> 1 < length (rt_reads r) \<or> eng_id (hd (rt_reads r)) \<noteq> eng_id (rt_write r)"

definition write_factory :: "router \<Rightarrow> engine" where
  "write_factory r = rt_write r"

text \<open>Each access to \<open>read_factory\<close> moves the index.\<close>

definition read_factory :: "router \<Rightarrow> engine option \<times> router" where
  "read_factory r =
     (case cycle_next (length (rt_reads r)) (rt_index r) of
        None \<Rightarrow> (None, r)
      | Some (i, j) \<Rightarrow> (Some (rt_reads r ! i), r\<lparr>rt_index := j\<rparr>))"

definition build_database_router :: "string \<Rightarrow> string option \<Rightarrow> string list \<Rightarrow> router" where
  "build_database_router db_url replica replicas =
     (let w = build_engine 0 db_url;
          read_urls = (if replicas \<noteq> [] then filter (\<lambda>u. u \<noteq> []) replicas
                       else if truthy replica then [the replica] else []);
          reads = (if read_urls \<noteq> []
                   then Some (map (\<lambda>(i, u). build_engine (Suc i) u) (enumerate 0 read_urls)) else None)
      in router_init w reads)"

text \<open>\<open>probe\<close> connects to an engine and runs \<open>SELECT 1\<close>; the checks turn any exception of it into a no.\<close>

definition engine_answers :: "(engine \<Rightarrow> exn option) \<Rightarrow> engine \<Rightarrow> bool" where
  "engine_answers probe e = (case probe e of None \<Rightarrow> True | Some x \<Rightarrow> False)"

definition make_engine_check :: "(engine \<Rightarrow> exn option) \<Rightarrow> engine \<Rightarrow> bool option" where
  "make_engine_check probe e = Some (engine_answers probe e)"

text \<open>A session of a factory runs on the factory's engine.\<close>

definition make_db_check :: "(engine \<Rightarrow> exn option) \<Rightarrow> engine \<Rightarrow> bool option" where
  "make_db_check probe session_factory = Some (case probe session_factory of None \<Rightarrow> True | Some x \<Rightarrow> False)"

definition check_write :: "(engine \<Rightarrow> bool) \<Rightarrow> router \<Rightarrow> bool" where
  "check_write engine_ok r = engine_ok (rt_write r)"

fun any_ok :: "(engine \<Rightarrow> bool) \<Rightarrow> engine list \<Rightarrow> bool" where
  "any_ok engine_ok [] = False"
| "any_ok engine_ok (e # es) = (if engine_ok e then True else any_ok engine_ok es)"

definition check_read :: "(engine \<Rightarrow> bool) \<Rightarrow> router \<Rightarrow> bool" where
  "check_read engine_ok r = any_ok engine_ok (rt_reads r)"

text \<open>\<open>dispose\<close>: the engines disposed, in order.\<close>

fun dispose_reads :: "nat list \<Rightarrow> engine list \<Rightarrow> engine list" where
  "dispose_reads seen [] = []"
| "dispose_reads seen (e # es) =
     (if eng_id e \<in> set seen then dispose_reads seen es else e # dispose_reads (eng_id e # seen) es)"

definition dispose :: "router \<Rightarrow> engine list" where
  "dispose r = rt_write r # dispose_reads [] (rt_reads r)"

subsection \<open>Slow queries\<close>

record slow_log =
  sl_duration_tenths :: int
  sl_sql :: string
  sl_engine :: string

text \<open>The listener pair on one engine: \<open>start_times\<close> by cursor, and what is logged. \<open>str(statement)[:500]\<close>
  counts characters; the statements are ASCII.\<close>

definition before_cursor_execute :: "nat \<Rightarrow> real \<Rightarrow> (nat, real) pydict \<Rightarrow> (nat, real) pydict" where
  "before_cursor_execute cursor now st = AList.update cursor now st"

definition after_cursor_execute ::
  "int \<Rightarrow> string \<Rightarrow> nat \<Rightarrow> string \<Rightarrow> real \<Rightarrow> (nat, real) pydict \<Rightarrow> slow_log list \<times> (nat, real) pydict" where
  "after_cursor_execute threshold_ms role cursor sql now st =
     (case map_of st cursor of
        None \<Rightarrow> ([], st)
      | Some started \<Rightarrow>
          (let duration_ms = (now - started) * 1000 in
           (if of_int threshold_ms \<le> duration_ms
            then [\<lparr>sl_duration_tenths = round_tenths duration_ms, sl_sql = take 500 sql, sl_engine = role\<rparr>]
            else [], AList.delete cursor st)))"

text \<open>The listeners of one engine, each with its role, threshold and start times; \<open>enable_slow_query_logging\<close>
  adds one. A query runs all of them.\<close>

type_synonym listeners = "(string \<times> int \<times> (nat, real) pydict) list"

definition enable_slow_query_logging :: "int \<Rightarrow> string \<Rightarrow> listeners \<Rightarrow> listeners" where
  "enable_slow_query_logging threshold_ms role ls =
     (if threshold_ms \<le> 0 then ls else ls @ [(role, threshold_ms, [])])"

definition run_query :: "nat \<Rightarrow> string \<Rightarrow> real \<Rightarrow> real \<Rightarrow> listeners \<Rightarrow> slow_log list \<times> listeners" where
  "run_query cursor sql start stop ls =
     (let rs = map (\<lambda>(role, th, st). (role, th, after_cursor_execute th role cursor sql stop (before_cursor_execute cursor start st))) ls
      in (concat (map (\<lambda>(role, th, out, st). out) rs), map (\<lambda>(role, th, out, st). (role, th, st)) rs))"

text \<open>What the service's \<open>create_app\<close> installs: the write engine's listener, then one for each read engine.
  The result gives the listeners by engine.\<close>

definition install_slow_logging :: "int \<Rightarrow> router \<Rightarrow> (nat, listeners) pydict" where
  "install_slow_logging ms r =
     (if 0 < ms then
        foldl (\<lambda>d (e, role). AList.update (eng_id e) (enable_slow_query_logging ms role (dict_get [] (eng_id e) d)) d) []
          ((rt_write r, ''write'') # map (\<lambda>e. (e, ''read'')) (rt_reads r))
      else [])"

subsection \<open>Health\<close>

text \<open>A readiness check answers or raises (\<open>None\<close>). The result is the status code and the document.\<close>

fun run_checks :: "(string \<times> bool option) list \<Rightarrow> (string, string) pydict \<times> bool \<Rightarrow> (string, string) pydict \<times> bool" where
  "run_checks [] acc = acc"
| "run_checks ((name, answer) # cs) (results, all_ok) =
     (let ok = (case answer of Some b \<Rightarrow> b | None \<Rightarrow> False)
      in run_checks cs (AList.update name (if ok then ''ok'' else ''unavailable'') results, all_ok \<and> ok))"

definition live :: json where
  "live = JObj [(''status'', JStr ''ok'')]"

definition ready_response :: "(string \<times> bool option) list \<Rightarrow> int \<times> json" where
  "ready_response checks =
     (case run_checks checks ([], True) of
        (results, all_ok) \<Rightarrow>
          (if all_ok then 200 else 503,
           JObj [(''status'', JStr (if all_ok then ''ok'' else ''degraded'')),
                 (''checks'', JObj (map (\<lambda>(k, v). (k, JStr v)) results))]))"

subsection \<open>Properties\<close>

fun reads :: "nat \<Rightarrow> router \<Rightarrow> engine list" where
  "reads 0 r = []"
| "reads (Suc k) r = (case read_factory r of (Some e, r') \<Rightarrow> e # reads k r' | (None, r') \<Rightarrow> [])"

lemma reads_eq:
  "rt_reads r \<noteq> [] \<Longrightarrow> reads k r = map (\<lambda>i. rt_reads r ! i) (cycle_take (length (rt_reads r)) (rt_index r) k)"
  by (induction k arbitrary: r) (auto simp: read_factory_def)

lemma router_without_replica:
  "build_database_router u None [] = \<lparr>rt_write = build_engine 0 u, rt_reads = [build_engine 0 u], rt_index = 0\<rparr>"
  by (simp add: build_database_router_def router_init_def Let_def)



lemma dispose_reads_spec:
  "eng_id ` set (dispose_reads seen es) = eng_id ` set es - set seen \<and> distinct (map eng_id (dispose_reads seen es))
   \<and> set (dispose_reads seen es) \<subseteq> set es"
  by (induction es arbitrary: seen) auto

text \<open>Closing the router disposes of the write engine and of each read engine once.\<close>

theorem dispose_covers_engines:
  "hd (dispose r) = rt_write r \<and> eng_id ` set (tl (dispose r)) = eng_id ` set (rt_reads r)
   \<and> distinct (map eng_id (tl (dispose r)))"
  using dispose_reads_spec [of "[]" "rt_reads r"] by (simp add: dispose_def)

lemma run_checks_spec:
  "snd (run_checks cs (res, b)) = (b \<and> list_all (\<lambda>(n, a). a = Some True) cs)"
proof (induction cs arbitrary: res b)
  case (Cons c cs)
  obtain n a where "c = (n, a)" by fastforce
  then show ?case using Cons by (cases a) (auto simp: Let_def)
qed simp

lemma run_checks_entry:
  "distinct (map fst cs) \<Longrightarrow> map_of (fst (run_checks cs (res, b))) n =
     (case map_of cs n of Some a \<Rightarrow> Some (if a = Some True then ''ok'' else ''unavailable'') | None \<Rightarrow> map_of res n)"
proof (induction cs arbitrary: res b)
  case Nil
  then show ?case by simp
next
  case (Cons c cs)
  obtain m a where c: "c = (m, a)" by fastforce
  have "m \<in> fst ` set cs \<longleftrightarrow> map_of cs m \<noteq> None" by (simp add: map_of_None_fst)
  then show ?case using Cons by (auto simp: c Let_def split: option.split)
qed

text \<open>The service is ready (200) exactly if every dependency check answers yes; a check that says no or
  raises makes it 503, and the document names every check with its own result.\<close>

theorem readiness_of_checks:
  assumes "distinct (map fst checks)"
  shows "fst (ready_response checks) = (if list_all (\<lambda>(n, a). a = Some True) checks then 200 else 503)
    \<and> (\<exists>st results. snd (ready_response checks) = JObj [(''status'', st), (''checks'', JObj (map (\<lambda>(k, v). (k, JStr v)) results))]
        \<and> (\<forall>n a. (n, a) \<in> set checks \<longrightarrow> map_of results n = Some (if a = Some True then ''ok'' else ''unavailable'')))"
proof -
  obtain results all_ok where r: "run_checks checks ([], True) = (results, all_ok)" by fastforce
  have "all_ok = list_all (\<lambda>(n, a). a = Some True) checks"
    using run_checks_spec [of checks "[]" True] r by simp
  moreover have "map_of results n = Some (if a = Some True then ''ok'' else ''unavailable'')" if "(n, a) \<in> set checks" for n a
    using run_checks_entry [OF assms, of "[]" True n] r that assms by (simp add: map_of_is_SomeI)
  ultimately show ?thesis by (auto simp: ready_response_def r)
qed

lemma readiness_of_checks_witness:
  "fst (ready_response [(''db_write'', Some True), (''db_read'', None)]) = 503"
  using readiness_of_checks [of "[(''db_write'', Some True), (''db_read'', None)]"] by simp

text \<open>Without a replica the service installs both listeners on the one engine, so that each of its slow
  queries is logged twice, once as a read.\<close>

theorem slow_queries_logged_twice:
  fixes db :: string and cursor :: nat and start stop :: real
  assumes "0 < ms" "of_int ms \<le> (stop - start) * 1000"
  defines "r \<equiv> build_database_router db None []"
  shows "map sl_engine (fst (run_query cursor sql start stop
      (dict_get [] (eng_id (write_factory r)) (install_slow_logging ms r)))) = [''write'', ''read'']"
  using assms(1,2)
  by (simp add: r_def router_without_replica build_engine_def write_factory_def install_slow_logging_def
      enable_slow_query_logging_def dict_get_def run_query_def before_cursor_execute_def after_cursor_execute_def Let_def)

lemma slow_queries_logged_twice_witness:
  "map sl_engine (fst (run_query 1 ''SELECT 1'' 0 1
      (dict_get [] (eng_id (write_factory (build_database_router ''sqlite://'' None [])))
        (install_slow_logging 200 (build_database_router ''sqlite://'' None []))))) = [''write'', ''read'']"
  by (rule slow_queries_logged_twice) simp_all

end
