(* ===== verification/Users.thy ===== *)
theory Users
  imports Outbox Database
begin

section \<open>The user service: services/service-template/app and the schemas of contract_sdk\<close>

text \<open>
  The service's error codes, its tables (the users and the outbox of one database), the domain service,
  and the two routes. A database is addressed by its engine; the primary and the replicas have their own
  contents, since replication is not the service's. What the column defaults produce (identifiers, times)
  is an argument. PostgreSQL's limits on column sizes are not modelled; the unique constraints are.
\<close>

subsection \<open>Error codes\<close>

definition USER_NOT_FOUND :: error_code where
  "USER_NOT_FOUND = \<lparr>ec_code = ''USER_NOT_FOUND'', ec_http_status = 404, ec_title = ''User Not Found'',
     ec_default_message = utf8 [0x7528, 0x6237, 0x4E0D, 0x5B58, 0x5728], ec_log_level = ''warning'', ec_retryable = False\<rparr>"

definition EMAIL_ALREADY_EXISTS :: error_code where
  "EMAIL_ALREADY_EXISTS = \<lparr>ec_code = ''EMAIL_ALREADY_EXISTS'', ec_http_status = 409, ec_title = ''Conflict'',
     ec_default_message = utf8 [0x90AE, 0x7BB1, 0x5DF2, 0x5B58, 0x5728], ec_log_level = ''warning'', ec_retryable = False\<rparr>"

definition USER_FORBIDDEN :: error_code where
  "USER_FORBIDDEN = \<lparr>ec_code = ''USER_FORBIDDEN'', ec_http_status = 403, ec_title = ''Forbidden'',
     ec_default_message = utf8 [0x65E0, 0x6743, 0x8BBF, 0x95EE, 0x8BE5, 0x7528, 0x6237], ec_log_level = ''warning'', ec_retryable = False\<rparr>"

definition service_registry :: registry where
  "service_registry = register_all [USER_NOT_FOUND, EMAIL_ALREADY_EXISTS, USER_FORBIDDEN] builtin_registry"

definition knows_users :: "registry \<Rightarrow> bool" where
  "knows_users reg \<longleftrightarrow> extends_builtin reg \<and> get_error_code reg ''USER_NOT_FOUND'' = Some USER_NOT_FOUND
     \<and> get_error_code reg ''EMAIL_ALREADY_EXISTS'' = Some EMAIL_ALREADY_EXISTS"

subsection \<open>Tables\<close>

record user =
  us_id :: string
  us_email :: string
  us_display_name :: string
  us_status :: string
  us_created_at :: real
  us_vip_level :: int
  us_updated_at :: real

record database =
  db_users :: "user list"
  db_outbox :: "outbox_message list"

text \<open>What the defaults of one creation produce.\<close>

record defaults =
  df_user_id :: string
  df_event_id :: string
  df_row_id :: string
  df_created :: real
  df_updated :: real
  df_occurred :: real
  df_staged :: real

record creation =
  cr_email :: string
  cr_display_name :: string
  cr_vip_level :: int

definition new_user :: "defaults \<Rightarrow> creation \<Rightarrow> user" where
  "new_user df c =
     \<lparr>us_id = df_user_id df, us_email = cr_email c, us_display_name = cr_display_name c, us_status = ''active'',
      us_created_at = df_created df, us_vip_level = cr_vip_level c, us_updated_at = df_updated df\<rparr>"

text \<open>\<open>session.flush()\<close>: the primary key and the unique index on the address.\<close>

definition flush_user :: "user \<Rightarrow> database \<Rightarrow> exn + database" where
  "flush_user u d =
     (if us_id u \<in> us_id ` set (db_users d) \<or> us_email u \<in> us_email ` set (db_users d) then Inl IntegrityError
      else Inr (d\<lparr>db_users := db_users d @ [u]\<rparr>))"

subsection \<open>Creating a user\<close>

text \<open>\<open>UserCreatedPayload(...).model_dump(mode="json")\<close>; \<open>None\<close> is the \<open>ValidationError\<close> of a name that is
  too long. \<open>show_time\<close> renders a time.\<close>

definition created_payload :: "(real \<Rightarrow> string) \<Rightarrow> user \<Rightarrow> (string \<times> json) list" where
  "created_payload show_time u =
     [(''user_id'', JStr (us_id u)), (''email'', JStr (us_email u)), (''display_name'', JStr (us_display_name u)),
      (''vip_level'', JInt (us_vip_level u)), (''created_at'', JStr (show_time (us_created_at u)))]"

definition make_payload :: "(real \<Rightarrow> string) \<Rightarrow> user \<Rightarrow> (string \<times> json) list option" where
  "make_payload show_time u =
     (if code_points (us_display_name u) \<le> 64 then Some (created_payload show_time u) else None)"

text \<open>\<open>scalar_one_or_none\<close> on the identifiers of the users with the address.\<close>

definition check_email :: "registry \<Rightarrow> string \<Rightarrow> database \<Rightarrow> exn option" where
  "check_email reg email d =
     (case map us_id (filter (\<lambda>u. us_email u = email) (db_users d)) of
        [] \<Rightarrow> None
      | [i] \<Rightarrow> if i \<noteq> [] then Some (AppExc (raise_code reg ConflictError ''EMAIL_ALREADY_EXISTS'' (utf8 [0x90AE, 0x7BB1, 0x5DF2, 0x5B58, 0x5728])))
               else None
      | _ \<Rightarrow> Some (RuntimeError ''MultipleResultsFound''))"

text \<open>From the insertion to the commit: one transaction, rolled back when anything raises.\<close>

definition store_user ::
  "(real \<Rightarrow> string) \<Rightarrow> ctxvars \<Rightarrow> defaults \<Rightarrow> creation \<Rightarrow> database \<Rightarrow> (exn + user) \<times> database" where
  "store_user show_time ctx df c d =
     (let u = new_user df c in
      case flush_user u d of
        Inl x \<Rightarrow> (Inl x, d)
      | Inr d1 \<Rightarrow>
          (case make_payload show_time u of
             None \<Rightarrow> (Inl (ValueError ''display_name''), d)
           | Some payload \<Rightarrow>
               (case envelope_trace_from_context ctx of
                  None \<Rightarrow> (Inl (ValueError ''trace_id''), d)
                | Some trace \<Rightarrow>
                    (let e = \<lparr>en_id = df_event_id df, en_name = ''user.created.v1'', en_source = ''service-template'',
                           en_aggregate_type = ''user'', en_aggregate_id = us_id u, en_occurred_at = df_occurred df,
                           en_payload = payload, en_trace = trace\<rparr>;
                         (row, table) = stage_outbox (df_row_id df) (df_staged df) e (db_outbox d1)
                     in if ob_id row \<in> ob_id ` set (db_outbox d1) then (Inl IntegrityError, d)
                        else (Inr u, d1\<lparr>db_outbox := table\<rparr>)))))"

definition create_user ::
  "registry \<Rightarrow> (real \<Rightarrow> string) \<Rightarrow> ctxvars \<Rightarrow> defaults \<Rightarrow> creation \<Rightarrow> database \<Rightarrow> (exn + user) \<times> database" where
  "create_user reg show_time ctx df c d =
     (case check_email reg (cr_email c) d of
        Some x \<Rightarrow> (Inl x, d)
      | None \<Rightarrow> store_user show_time ctx df c d)"

subsection \<open>The service over the router\<close>

record service_state =
  sv_router :: router
  sv_data :: "nat \<Rightarrow> database"

definition service_create_user ::
  "registry \<Rightarrow> (real \<Rightarrow> string) \<Rightarrow> ctxvars \<Rightarrow> defaults \<Rightarrow> creation \<Rightarrow> service_state \<Rightarrow> (exn + user) \<times> service_state" where
  "service_create_user reg show_time ctx df c s =
     (let i = eng_id (write_factory (sv_router s)) in
      case create_user reg show_time ctx df c (sv_data s i) of
        (res, d) \<Rightarrow> (res, s\<lparr>sv_data := (sv_data s)(i := d)\<rparr>))"

definition service_get_user :: "registry \<Rightarrow> string \<Rightarrow> service_state \<Rightarrow> (exn + user) \<times> service_state" where
  "service_get_user reg uid s =
     (case read_factory (sv_router s) of
        (None, r) \<Rightarrow> (Inl StopIteration, s\<lparr>sv_router := r\<rparr>)
      | (Some e, r) \<Rightarrow>
          ((case find (\<lambda>u. us_id u = uid) (db_users (sv_data s (eng_id e))) of
              None \<Rightarrow> Inl (AppExc (raise_code reg NotFoundError ''USER_NOT_FOUND'' (utf8 [0x7528, 0x6237, 0x4E0D, 0x5B58, 0x5728])))
            | Some u \<Rightarrow> Inr u), s\<lparr>sv_router := r\<rparr>))"

text \<open>Newest first; the order among equal times is the database's, here the order of insertion.\<close>

definition service_list_users :: "nat \<Rightarrow> service_state \<Rightarrow> (exn + user list) \<times> service_state" where
  "service_list_users limit s =
     (case read_factory (sv_router s) of
        (None, r) \<Rightarrow> (Inl StopIteration, s\<lparr>sv_router := r\<rparr>)
      | (Some e, r) \<Rightarrow>
          (Inr (take limit (sort_key (\<lambda>u. - us_created_at u) (db_users (sv_data s (eng_id e))))), s\<lparr>sv_router := r\<rparr>))"

subsection \<open>The routes\<close>

text \<open>
  \<open>UserCreate\<close>: further fields are refused. \<open>lax_int\<close> is pydantic's reading of an \<open>int\<close> field; of it the
  properties below use nothing. \<open>describe\<close> renders the field errors.
\<close>

definition user_create_validate :: "(json \<Rightarrow> int option) \<Rightarrow> json \<Rightarrow> creation option" where
  "user_create_validate lax_int j =
     (case j of
        JObj d \<Rightarrow>
          if fst ` set d \<subseteq> {''email'', ''display_name'', ''vip_level''} then
            (case (map_of d ''email'', map_of d ''display_name'') of
               (Some (JStr email), Some (JStr name)) \<Rightarrow>
                 if 64 < code_points name then None
                 else (case map_of d ''vip_level'' of
                         None \<Rightarrow> Some \<lparr>cr_email = email, cr_display_name = name, cr_vip_level = 0\<rparr>
                       | Some v \<Rightarrow>
                           map_option (\<lambda>n. \<lparr>cr_email = email, cr_display_name = name, cr_vip_level = n\<rparr>) (lax_int v))
             | _ \<Rightarrow> None)
          else None
      | _ \<Rightarrow> None)"

definition user_out :: "(real \<Rightarrow> string) \<Rightarrow> user \<Rightarrow> json" where
  "user_out show_time u =
     JObj [(''id'', JStr (us_id u)), (''email'', JStr (us_email u)), (''display_name'', JStr (us_display_name u)),
           (''status'', JStr (us_status u)), (''vip_level'', JInt (us_vip_level u)),
           (''created_at'', JStr (show_time (us_created_at u)))]"

text \<open>FastAPI runs the dependency on the roles before it validates the body.\<close>

definition create_user_route ::
  "registry \<Rightarrow> (real \<Rightarrow> string) \<Rightarrow> (json \<Rightarrow> int option) \<Rightarrow> (json \<Rightarrow> json) \<Rightarrow> ctxvars \<Rightarrow> defaults \<Rightarrow> json
    \<Rightarrow> service_state \<Rightarrow> (exn + int \<times> json) \<times> service_state" where
  "create_user_route reg show_time lax_int describe ctx df payload s =
     (case require_roles reg [''user'', ''admin''] ctx of
        Inl x \<Rightarrow> (Inl x, s)
      | Inr identity \<Rightarrow>
          (case user_create_validate lax_int payload of
             None \<Rightarrow> (Inl (ValidationExc (describe payload)), s)
           | Some c \<Rightarrow>
               (case service_create_user reg show_time ctx df c s of
                  (Inl x, s') \<Rightarrow> (Inl x, s')
                | (Inr u, s') \<Rightarrow> (Inr (201, user_out show_time u), s'))))"

definition get_user_route ::
  "registry \<Rightarrow> (real \<Rightarrow> string) \<Rightarrow> ctxvars \<Rightarrow> string \<Rightarrow> service_state \<Rightarrow> (exn + int \<times> json) \<times> service_state" where
  "get_user_route reg show_time ctx uid s =
     (case require_roles reg [''user'', ''admin''] ctx of
        Inl x \<Rightarrow> (Inl x, s)
      | Inr identity \<Rightarrow>
          (case service_get_user reg uid s of
             (Inl x, s') \<Rightarrow> (Inl x, s')
           | (Inr u, s') \<Rightarrow>
               (case ensure_owner reg (us_id u) (Some identity) ctx of
                  Inl x \<Rightarrow> (Inl x, s')
                | Inr _ \<Rightarrow> (Inr (200, user_out show_time u), s'))))"

subsection \<open>Well-formed databases\<close>

definition created_rows :: "database \<Rightarrow> outbox_message list" where
  "created_rows d = filter (\<lambda>r. ob_event_name r = ''user.created.v1'') (db_outbox d)"

text \<open>Keys and addresses are unique, and each user has its event: the same identifier and the user's data,
  in the order of creation.\<close>

definition event_of :: "(real \<Rightarrow> string) \<Rightarrow> user \<Rightarrow> outbox_message \<Rightarrow> bool" where
  "event_of show_time u r \<longleftrightarrow>
     ob_aggregate_id r = us_id u \<and> ob_payload r = created_payload show_time u \<and> ob_aggregate_type r = ''user''"

definition users_ok :: "(real \<Rightarrow> string) \<Rightarrow> database \<Rightarrow> bool" where
  "users_ok show_time d \<longleftrightarrow>
     distinct (map us_id (db_users d)) \<and> distinct (map us_email (db_users d)) \<and> keys_ok (db_outbox d) \<and>
     list_all (\<lambda>u. code_points (us_display_name u) \<le> 64) (db_users d) \<and>
     list_all2 (event_of show_time) (db_users d) (created_rows d)"

lemma users_ok_empty: "users_ok show_time \<lparr>db_users = [], db_outbox = []\<rparr>"
  by (simp add: users_ok_def keys_ok_def created_rows_def)

text \<open>What a transaction that commits has done.\<close>

lemma store_user_Inr:
  assumes "store_user show_time ctx df c d = (Inr u, d')"
  shows "u = new_user df c \<and> us_id u \<notin> us_id ` set (db_users d) \<and> us_email u \<notin> us_email ` set (db_users d) \<and>
    code_points (us_display_name u) \<le> 64 \<and> db_users d' = db_users d @ [u] \<and>
    (\<exists>r. db_outbox d' = db_outbox d @ [r] \<and> ob_id r \<notin> ob_id ` set (db_outbox d) \<and>
       ob_event_name r = ''user.created.v1'' \<and> ob_aggregate_type r = ''user'' \<and> ob_aggregate_id r = us_id u \<and>
       ob_payload r = created_payload show_time u \<and> ob_status r = PENDING \<and> ob_attempts r = 0)"
  using assms
  by (auto simp: store_user_def Let_def flush_user_def make_payload_def stage_outbox_def
      split: if_splits option.splits)

lemma store_user_Inl: "store_user show_time ctx df c d = (Inl x, d') \<Longrightarrow> d' = d"
  by (auto simp: store_user_def Let_def flush_user_def split: if_splits option.splits prod.splits)

lemma create_user_cases:
  assumes "create_user reg show_time ctx df c d = (res, d')"
  shows "check_email reg (cr_email c) d \<noteq> None \<and> d' = d \<and> res = Inl (the (check_email reg (cr_email c) d))
    \<or> check_email reg (cr_email c) d = None \<and> store_user show_time ctx df c d = (res, d')"
  using assms by (auto simp: create_user_def split: option.splits)

lemma store_user_ok: "users_ok show_time d \<Longrightarrow> store_user show_time ctx df c d = (res, d') \<Longrightarrow> users_ok show_time d'"
proof (cases res)
  case (Inl x)
  assume "users_ok show_time d" "store_user show_time ctx df c d = (res, d')"
  with Inl show ?thesis by (auto dest: store_user_Inl)
next
  case (Inr u)
  assume ok: "users_ok show_time d" and st: "store_user show_time ctx df c d = (res, d')"
  show ?thesis using ok store_user_Inr [OF st [unfolded Inr]]
    by (auto simp: users_ok_def keys_ok_def created_rows_def event_of_def intro!: list_all2_appendI)
qed

text \<open>A batch of the relay keeps the events.\<close>

lemma row_step_event:
  "row_step publish clock now r r' \<Longrightarrow>
     ob_event_name r' = ob_event_name r \<and> ob_aggregate_id r' = ob_aggregate_id r \<and> ob_payload r' = ob_payload r
     \<and> ob_aggregate_type r' = ob_aggregate_type r"
  by (auto simp: row_step_def mark_sent_def mark_failed_def Let_def)

lemma list_all2_filter:
  "list_all2 P xs ys \<Longrightarrow> (\<And>x y. P x y \<Longrightarrow> Q x = Q y) \<Longrightarrow> list_all2 P (filter Q xs) (filter Q ys)"
  by (induction rule: list_all2_induct) auto

lemma relay_keeps_users:
  assumes ok: "users_ok show_time d" and run: "run_once cfg publish clock now locked (db_outbox d) w = (res, w')"
  shows "users_ok show_time (d\<lparr>db_outbox := rr_table res\<rparr>)"
proof -
  let ?same = "\<lambda>r r'. ob_event_name r' = ob_event_name r \<and> ob_aggregate_id r' = ob_aggregate_id r
    \<and> ob_payload r' = ob_payload r \<and> ob_aggregate_type r' = ob_aggregate_type r"
  have keys: "keys_ok (db_outbox d)" using ok by (simp add: users_ok_def)
  have "list_all2 ?same (db_outbox d) (rr_table res)"
    by (rule list_all2_mono [OF run_once_rows [OF keys run]]) (auto dest: row_step_event split: if_splits)
  then have same: "list_all2 ?same (created_rows d) (created_rows (d\<lparr>db_outbox := rr_table res\<rparr>))"
    unfolding created_rows_def by (auto intro: list_all2_filter)
  have "list_all2 (event_of show_time) (db_users d) (created_rows (d\<lparr>db_outbox := rr_table res\<rparr>))"
    if "list_all2 (event_of show_time) (db_users d) (created_rows d)"
    by (rule list_all2_trans [OF _ that same]) (simp add: event_of_def)
  moreover have "keys_ok (rr_table res)" using keys run_once_keys [OF run] by (simp add: keys_ok_def)
  ultimately show ?thesis using ok by (simp add: users_ok_def)
qed

subsection \<open>Concurrent requests\<close>

text \<open>
  A request that has checked the address waits for the database with what it will insert; requests of
  other tasks and batches of the relay can run in between. The rest of the transaction is one step.
\<close>

record waiting =
  wt_defaults :: defaults
  wt_ctx :: ctxvars
  wt_creation :: creation

inductive users_step ::
  "registry \<Rightarrow> (real \<Rightarrow> string) \<Rightarrow> relay_config \<Rightarrow> 'w handler \<Rightarrow> ('w \<Rightarrow> real)
    \<Rightarrow> database \<times> waiting list \<Rightarrow> database \<times> waiting list \<Rightarrow> bool"
  for reg :: registry and show_time :: "real \<Rightarrow> string" and cfg :: relay_config
    and publish :: "'w handler" and clock :: "'w \<Rightarrow> real" where
  Checked: "check_email reg (cr_email (wt_creation t)) d = None \<Longrightarrow>
     users_step reg show_time cfg publish clock (d, ts) (d, ts @ [t])"
| Refused: "check_email reg email d = Some x \<Longrightarrow> users_step reg show_time cfg publish clock (d, ts) (d, ts)"
| Stored: "store_user show_time (wt_ctx t) (wt_defaults t) (wt_creation t) d = (res, d') \<Longrightarrow>
     users_step reg show_time cfg publish clock (d, ts @ t # us) (d', ts @ us)"
| Relayed: "run_once cfg publish clock now locked (db_outbox d) w = (res, w') \<Longrightarrow>
     users_step reg show_time cfg publish clock (d, ts) (d\<lparr>db_outbox := rr_table res\<rparr>, ts)"

lemma store_user_extends: "store_user show_time ctx df c d = (res, d') \<Longrightarrow> \<exists>us. db_users d' = db_users d @ us"
  by (cases res) (auto dest: store_user_Inl store_user_Inr)

lemma users_step_ok:
  assumes "users_step reg show_time cfg publish clock s s'"
  shows "users_ok show_time (fst s) \<Longrightarrow> users_ok show_time (fst s') \<and> (\<exists>us. db_users (fst s') = db_users (fst s) @ us)"
  using assms
proof cases
  case (Stored t d res d' ts us)
  moreover assume "users_ok show_time (fst s)"
  ultimately show ?thesis using store_user_ok store_user_extends by fastforce
next
  case (Relayed now locked d w res w' ts)
  moreover assume "users_ok show_time (fst s)"
  ultimately show ?thesis using relay_keeps_users by fastforce
qed auto

lemma users_steps_ok:
  "(users_step reg show_time cfg publish clock)\<^sup>*\<^sup>* s s' \<Longrightarrow> users_ok show_time (fst s) \<Longrightarrow>
     users_ok show_time (fst s') \<and> (\<exists>us. db_users (fst s') = db_users (fst s) @ us)"
proof (induction rule: rtranclp_induct)
  case (step y z)
  then show ?case using users_step_ok [OF step.hyps(2)] by fastforce
qed simp

subsection \<open>Properties\<close>

lemma raise_code_status:
  assumes "get_error_code reg code = Some ec" "code \<noteq> []"
  shows "ae_http_status (raise_code reg cls code msg) = ec_http_status ec"
  using assms by (simp add: raise_code_def app_error_init_def no_args_def Let_def)

lemma knows_users_codes:
  assumes "knows_users reg"
  shows "exn_code (AppExc (raise_code reg ConflictError ''EMAIL_ALREADY_EXISTS'' msg)) = Some ''EMAIL_ALREADY_EXISTS''"
    and "exn_code (AppExc (raise_code reg NotFoundError ''USER_NOT_FOUND'' msg)) = Some ''USER_NOT_FOUND''"
  using assms by (auto simp: knows_users_def extends_builtin_def exn_code_def)

lemma service_knows_users: "knows_users service_registry"
proof -
  have "get_error_code builtin_registry ''USER_NOT_FOUND'' = None" "get_error_code builtin_registry ''EMAIL_ALREADY_EXISTS'' = None"
    by (simp_all add: get_error_code_def builtin_registry_eq builtin_codes_def)
  then have "get_error_code service_registry ''USER_NOT_FOUND'' = Some USER_NOT_FOUND"
    "get_error_code service_registry ''EMAIL_ALREADY_EXISTS'' = Some EMAIL_ALREADY_EXISTS"
    by (simp_all add: service_registry_def register_all_def get_register_error_code)
      (simp_all add: USER_NOT_FOUND_def EMAIL_ALREADY_EXISTS_def USER_FORBIDDEN_def)
  then show ?thesis
    by (simp add: knows_users_def) (simp add: service_registry_def register_all_extends builtin_extends)
qed

text \<open>C3: In every interleaving of creations and batches of the relay each user has exactly one creation event
  with its data, in the same transaction: keys and addresses stay unique, no user without event, no
  event without user, and no user is ever lost.\<close>

theorem users_and_events_stay_together:
  assumes "(users_step reg show_time cfg publish clock)\<^sup>*\<^sup>* (d0, []) (d, ts)" "users_ok show_time d0"
  shows "distinct (map us_id (db_users d)) \<and> distinct (map us_email (db_users d)) \<and>
    list_all2 (\<lambda>u r. ob_aggregate_id r = us_id u \<and> ob_payload r = created_payload show_time u)
      (db_users d) (created_rows d) \<and>
    (\<exists>us. db_users d = db_users d0 @ us)"
proof -
  have ok: "users_ok show_time d" "\<exists>us. db_users d = db_users d0 @ us"
    using users_steps_ok [OF assms(1), unfolded fst_conv, OF assms(2)] by blast+
  then have "list_all2 (event_of show_time) (db_users d) (created_rows d)" by (simp add: users_ok_def)
  then have "list_all2 (\<lambda>u r. ob_aggregate_id r = us_id u \<and> ob_payload r = created_payload show_time u)
      (db_users d) (created_rows d)"
    by (rule list_all2_mono) (simp add: event_of_def)
  then show ?thesis using ok unfolding users_ok_def by blast
qed

definition no_database :: database where
  "no_database = \<lparr>db_users = [], db_outbox = []\<rparr>"

definition sample_defaults :: defaults where
  "sample_defaults = \<lparr>df_user_id = ''u-1'', df_event_id = ''e-1'', df_row_id = ''m-1'', df_created = 1, df_updated = 1, df_occurred = 1, df_staged = 1\<rparr>"

definition alice :: creation where
  "alice = \<lparr>cr_email = ''a@b.c'', cr_display_name = ''Alice'', cr_vip_level = 0\<rparr>"

definition sample_waiting :: waiting where
  "sample_waiting = \<lparr>wt_defaults = sample_defaults, wt_ctx = default_ctx, wt_creation = alice\<rparr>"

definition year :: "real \<Rightarrow> string" where
  "year t = ''2026-08-04T00:00:00Z''"

lemma alice_stored:
  "\<exists>d. store_user year default_ctx sample_defaults alice no_database = (Inr (new_user sample_defaults alice), d)"
  by (simp add: store_user_def flush_user_def no_database_def make_payload_def new_user_def alice_def sample_defaults_def
      code_points_def envelope_trace_from_context_def get_trace_id_def default_ctx_def stage_outbox_def Let_def)

lemma sample_run:
  assumes d: "store_user year default_ctx sample_defaults alice no_database = (Inr u, d)"
  shows "(users_step service_registry year default_relay accepting (\<lambda>w. 0))\<^sup>*\<^sup>* (no_database, []) (d, [])"
proof -
  let ?step = "users_step service_registry year default_relay accepting (\<lambda>w. 0)"
  have "check_email service_registry (cr_email (wt_creation sample_waiting)) no_database = None"
    by (simp add: check_email_def no_database_def)
  then have "?step (no_database, []) (no_database, [sample_waiting])"
    by (rule Checked [where ts = "[]", unfolded append_Nil])
  moreover have "?step (no_database, [] @ sample_waiting # []) (d, [] @ [])"
    by (rule Stored) (use d in \<open>simp add: sample_waiting_def\<close>)
  ultimately show ?thesis by simp
qed

lemma users_and_events_stay_together_witness:
  "\<exists>d. (users_step service_registry year default_relay accepting (\<lambda>w. 0))\<^sup>*\<^sup>* (no_database, []) (d, [])
     \<and> map us_email (db_users d) = [''a@b.c''] \<and> map ob_aggregate_id (created_rows d) = [''u-1'']"
proof -
  let ?step = "users_step service_registry year default_relay accepting (\<lambda>w. 0)"
  obtain d where d: "store_user year default_ctx sample_defaults alice no_database = (Inr (new_user sample_defaults alice), d)"
    using alice_stored by blast
  have r: "?step\<^sup>*\<^sup>* (no_database, []) (d, [])" using sample_run [OF d] .
  have "users_ok year no_database" using users_ok_empty by (simp add: no_database_def)
  from users_and_events_stay_together [OF r this] have "list_all2 (\<lambda>u r. ob_aggregate_id r = us_id u \<and> ob_payload r = created_payload year u)
      (db_users d) (created_rows d)" by blast
  moreover have "db_users d = [new_user sample_defaults alice]"
    using store_user_Inr [OF d] by (simp add: no_database_def)
  ultimately show ?thesis using r
    by (auto simp: list_all2_Cons1 new_user_def alice_def sample_defaults_def)
qed

lemma filter_email: "email \<notin> us_email ` set us \<Longrightarrow> filter (\<lambda>v. us_email v = email) us = []"
  by (induction us) auto

lemma check_email_found:
  assumes "users_ok show_time d" "[] \<notin> us_id ` set (db_users d)"
  shows "check_email reg email d =
    (if email \<in> us_email ` set (db_users d)
     then Some (AppExc (raise_code reg ConflictError ''EMAIL_ALREADY_EXISTS'' (utf8 [0x90AE, 0x7BB1, 0x5DF2, 0x5B58, 0x5728]))) else None)"
proof (cases "email \<in> us_email ` set (db_users d)")
  case True
  then obtain u where u: "u \<in> set (db_users d)" "us_email u = email" by blast
  then obtain xs ys where d: "db_users d = xs @ u # ys" by (meson split_list)
  have "filter (\<lambda>v. us_email v = email) (db_users d) = [u]"
    using assms(1) u(2) by (auto simp: users_ok_def d filter_email)
  moreover have "us_id u \<noteq> []" using imageI [OF u(1), of us_id] assms(2) by auto
  ultimately show ?thesis using True by (simp add: check_email_def)
next
  case False
  then have "filter (\<lambda>v. us_email v = email) (db_users d) = []" by (rule filter_email)
  then show ?thesis using False by (simp add: check_email_def)
qed

lemma store_user_fresh:
  assumes "df_user_id df \<notin> us_id ` set (db_users d)" "df_row_id df \<notin> ob_id ` set (db_outbox d)"
    and "cr_email c \<notin> us_email ` set (db_users d)" "code_points (cr_display_name c) \<le> 64"
    and "envelope_trace_from_context ctx \<noteq> None"
  shows "\<exists>d'. store_user show_time ctx df c d = (Inr (new_user df c), d')"
  using assms
  by (auto simp: store_user_def flush_user_def make_payload_def new_user_def stage_outbox_def Let_def)

text \<open>C21: Creating a user with fresh identifiers either refuses a taken address with 409
  \<open>EMAIL_ALREADY_EXISTS\<close> and changes nothing, or commits the user together with one pending event that
  carries the user's data.\<close>

theorem create_user_outcome:
  assumes reg: "knows_users reg" and ok: "users_ok show_time d" "[] \<notin> us_id ` set (db_users d)"
    and fresh: "df_user_id df \<notin> us_id ` set (db_users d)" "df_row_id df \<notin> ob_id ` set (db_outbox d)"
    and valid: "code_points (cr_display_name c) \<le> 64" "envelope_trace_from_context ctx \<noteq> None"
    and run: "create_user reg show_time ctx df c d = (res, d')"
  shows "if cr_email c \<in> us_email ` set (db_users d)
    then d' = d \<and> (\<exists>a. res = Inl (AppExc a) \<and> ae_error_code a = ''EMAIL_ALREADY_EXISTS'' \<and> ae_http_status a = 409)
    else res = Inr (new_user df c) \<and> db_users d' = db_users d @ [new_user df c] \<and>
      (\<exists>r. db_outbox d' = db_outbox d @ [r] \<and> ob_event_name r = ''user.created.v1'' \<and>
         ob_aggregate_id r = df_user_id df \<and> ob_payload r = created_payload show_time (new_user df c) \<and>
         ob_status r = PENDING)"
proof (cases "cr_email c \<in> us_email ` set (db_users d)")
  case True
  have "get_error_code reg ''EMAIL_ALREADY_EXISTS'' = Some EMAIL_ALREADY_EXISTS" using reg by (simp add: knows_users_def)
  then show ?thesis
    using True run check_email_found [OF ok, of reg "cr_email c"] knows_users_codes(1) [OF reg]
    by (auto simp: create_user_def raise_code_status exn_code_def EMAIL_ALREADY_EXISTS_def)
next
  case False
  then obtain d2 where d2: "store_user show_time ctx df c d = (Inr (new_user df c), d2)"
    using store_user_fresh [OF fresh _ valid] by blast
  then have "res = Inr (new_user df c)" "d' = d2"
    using False run check_email_found [OF ok, of reg "cr_email c"] by (simp_all add: create_user_def)
  then show ?thesis using False store_user_Inr [OF d2] by (auto simp: new_user_def)
qed

lemma create_user_outcome_witness:
  "\<exists>d. create_user service_registry year default_ctx sample_defaults alice no_database = (Inr (new_user sample_defaults alice), d)"
proof -
  obtain res d where r: "create_user service_registry year default_ctx sample_defaults alice no_database = (res, d)" by fastforce
  have "users_ok year no_database" using users_ok_empty by (simp add: no_database_def)
  moreover have "code_points (cr_display_name alice) \<le> 64" "envelope_trace_from_context default_ctx \<noteq> None"
    by (simp_all add: alice_def code_points_def envelope_trace_from_context_def get_trace_id_def default_ctx_def)
  ultimately show ?thesis
    using create_user_outcome [OF service_knows_users _ _ _ _ _ _ r] r by (simp add: no_database_def)
qed

text \<open>C37: Two requests that create one address at the same time: when both have checked before the first
  inserts, the second fails with the database's integrity error, which the client sees as 500
  \<open>INTERNAL_ERROR\<close>; a request that comes later is answered with 409.\<close>

theorem concurrent_duplicate_is_500:
  assumes reg: "knows_users reg" and ok: "users_ok show_time d"
    and checked: "check_email reg (cr_email c1) d = None" "cr_email c2 = cr_email c1" "df_user_id df1 \<noteq> []"
    and first: "store_user show_time ctx1 df1 c1 d = (Inr u, d1)"
  shows "\<exists>r logs. store_user show_time ctx2 df2 c2 d1 = (Inl IntegrityError, d1) \<and>
    handle_exception reg ctx2 meth path IntegrityError = (Some r, logs) \<and> resp_status r = 500 \<and>
    content_field ''code'' r = Some (JStr ''INTERNAL_ERROR'') \<and>
    (\<exists>x. check_email reg (cr_email c2) d1 = Some x \<and> exn_code x = Some ''EMAIL_ALREADY_EXISTS'')"
proof -
  note u = store_user_Inr [OF first]
  have email: "us_email u = cr_email c2" using u checked(2) by (simp add: new_user_def)
  then have "store_user show_time ctx2 df2 c2 d1 = (Inl IntegrityError, d1)"
    using u by (auto simp: store_user_def flush_user_def new_user_def Let_def)
  moreover have "filter (\<lambda>v. us_email v = cr_email c2) (db_users d1) = [u]"
    using u email by (auto simp: filter_email)
  then have "check_email reg (cr_email c2) d1 =
      Some (AppExc (raise_code reg ConflictError ''EMAIL_ALREADY_EXISTS'' (utf8 [0x90AE, 0x7BB1, 0x5DF2, 0x5B58, 0x5728])))"
    using u checked(3) by (simp add: check_email_def new_user_def)
  moreover have "get_error_code reg ''INTERNAL_ERROR'' = Some INTERNAL_ERROR"
    using reg builtin_lookup [of reg INTERNAL_ERROR] by (simp add: knows_users_def builtin_codes_def INTERNAL_ERROR_def)
  ultimately show ?thesis using knows_users_codes(1) [OF reg]
    by (simp add: handle_exception_def handle_unexpected_def)
qed

lemma concurrent_duplicate_is_500_witness:
  "\<exists>d1. store_user year default_ctx sample_defaults alice no_database = (Inr (new_user sample_defaults alice), d1)
    \<and> store_user year default_ctx (sample_defaults\<lparr>df_user_id := ''u-2'', df_row_id := ''m-2''\<rparr>) alice d1 = (Inl IntegrityError, d1)"
proof -
  obtain d where d: "store_user year default_ctx sample_defaults alice no_database = (Inr (new_user sample_defaults alice), d)"
    using alice_stored by blast
  have "users_ok year no_database" "check_email service_registry (cr_email alice) no_database = None" "df_user_id sample_defaults \<noteq> []"
    using users_ok_empty by (simp_all add: no_database_def check_email_def sample_defaults_def)
  from concurrent_duplicate_is_500 [OF service_knows_users this(1,2) refl this(3) d] d show ?thesis by blast
qed

lemma find_user:
  "distinct (map us_id us) \<Longrightarrow> u \<in> set us \<Longrightarrow> find (\<lambda>v. us_id v = us_id u) us = Some u"
proof (induction us)
  case (Cons v us)
  then show ?case using imageI [of u "set us" us_id] by auto
qed simp

lemma service_get_user_found:
  assumes "read_factory (sv_router s) = (Some e, r)" "distinct (map us_id (db_users (sv_data s (eng_id e))))"
  shows "service_get_user reg uid s =
    (case map_of (map (\<lambda>u. (us_id u, u)) (db_users (sv_data s (eng_id e)))) uid of
       None \<Rightarrow> Inl (AppExc (raise_code reg NotFoundError ''USER_NOT_FOUND'' (utf8 [0x7528, 0x6237, 0x4E0D, 0x5B58, 0x5728])))
     | Some u \<Rightarrow> Inr u, s\<lparr>sv_router := r\<rparr>)"
proof -
  have f: "find (\<lambda>u. us_id u = uid) us = map_of (map (\<lambda>u. (us_id u, u)) us) uid" for us
    by (induction us) auto
  show ?thesis using assms(1) by (simp add: service_get_user_def f)
qed

lemma roles_refused:
  assumes "extends_builtin reg" "require_roles reg rs ctx = Inl x"
  shows "exn_code x = Some (case get_identity ctx of None \<Rightarrow> ''UNAUTHORIZED''
    | Some i \<Rightarrow> if user_id i = None then ''UNAUTHORIZED'' else ''FORBIDDEN'')"
  using assms
  by (auto simp: require_roles_def get_current_identity_def exn_code_def split: option.splits if_splits)

text \<open>C22: Only the owner and administrators read a user: the route returns data exactly for a caller with a
  known role who is the user or an administrator; for any other caller with a role the answer is 403 when
  the user exists and 404 when it does not, so identifiers can be probed.\<close>

theorem user_data_is_protected:
  assumes reg: "knows_users reg" and e: "read_factory (sv_router s) = (Some e, r)"
    and dist: "distinct (map us_id (db_users (sv_data s (eng_id e))))"
  defines "view \<equiv> map_of (map (\<lambda>u. (us_id u, u)) (db_users (sv_data s (eng_id e))))"
  shows "(fst (get_user_route reg show_time ctx uid s) = Inr (st, j) \<longleftrightarrow>
      st = 200 \<and> (\<exists>i u. get_identity ctx = Some i \<and> user_id i \<noteq> None \<and>
        (''user'' \<in> set (roles i) \<or> ''admin'' \<in> set (roles i)) \<and> view uid = Some u \<and> j = user_out show_time u \<and>
        (user_id i = Some uid \<or> ''admin'' \<in> set (roles i)))) \<and>
    (\<forall>i. get_identity ctx = Some i \<longrightarrow> user_id i \<noteq> None \<longrightarrow> user_id i \<noteq> Some uid \<longrightarrow>
       ''user'' \<in> set (roles i) \<longrightarrow> ''admin'' \<notin> set (roles i) \<longrightarrow>
       map_sum exn_code id (fst (get_user_route reg show_time ctx uid s)) =
         Inl (Some (if view uid = None then ''USER_NOT_FOUND'' else ''FORBIDDEN'')))"
proof (cases "require_roles reg [''user'', ''admin''] ctx")
  case (Inl x)
  then have "\<nexists>i. get_identity ctx = Some i \<and> user_id i \<noteq> None \<and> (''user'' \<in> set (roles i) \<or> ''admin'' \<in> set (roles i))"
    using require_roles_Inr [of reg "[''user'', ''admin'']" ctx] by fastforce
  then show ?thesis using Inl by (auto simp: get_user_route_def)
next
  case (Inr i)
  then have i: "get_identity ctx = Some i" "user_id i \<noteq> None" "''user'' \<in> set (roles i) \<or> ''admin'' \<in> set (roles i)"
    using require_roles_Inr [of reg "[''user'', ''admin'']" ctx i] by auto
  have builtin: "extends_builtin reg" using reg by (simp add: knows_users_def)
  show ?thesis
  proof (cases "view uid")
    case None
    then show ?thesis
      using i Inr knows_users_codes(2) [OF reg] service_get_user_found [OF e dist, of reg uid]
      by (simp add: get_user_route_def view_def)
  next
    case (Some u)
    then have u: "us_id u = uid" unfolding view_def by (auto dest!: map_of_SomeD)
    have get: "get_user_route reg show_time ctx uid s =
      (case ensure_owner reg uid (Some i) ctx of Inl x \<Rightarrow> (Inl x, s\<lparr>sv_router := r\<rparr>)
       | Inr _ \<Rightarrow> (Inr (200, user_out show_time u), s\<lparr>sv_router := r\<rparr>))"
      using Inr Some u service_get_user_found [OF e dist, of reg uid] by (simp add: get_user_route_def view_def)
    show ?thesis
      using i Some get builtin by (auto simp: ensure_owner_def exn_code_def)
  qed
qed

definition primary_only :: "database \<Rightarrow> service_state" where
  "primary_only d = \<lparr>sv_router = build_database_router ''postgresql://p'' None [], sv_data = (\<lambda>i. d)\<rparr>"

lemma primary_only_read:
  "read_factory (sv_router (primary_only d)) = (Some (build_engine 0 ''postgresql://p''), sv_router (primary_only d))"
  by (simp add: primary_only_def router_without_replica read_factory_def cycle_next_def)

definition as_caller :: "string \<Rightarrow> string list \<Rightarrow> ctxvars" where
  "as_caller uid rs = set_identity (Some \<lparr>user_id = Some uid, roles = rs, tenant_id = None, is_service = False\<rparr>) default_ctx"

lemma user_data_is_protected_witness:
  "map_sum exn_code id (fst (get_user_route service_registry year (as_caller ''u-9'' [''user'']) ''u-1''
      (primary_only \<lparr>db_users = [new_user sample_defaults alice], db_outbox = []\<rparr>))) = Inl (Some ''FORBIDDEN'')"
  using user_data_is_protected [OF service_knows_users primary_only_read,
      of "\<lparr>db_users = [new_user sample_defaults alice], db_outbox = []\<rparr>" year "as_caller ''u-9'' [''user'']" "''u-1''"]
  by (simp add: as_caller_def primary_only_def new_user_def sample_defaults_def)

text \<open>Reading what was just written: on the primary a created user is found at once; on a replica that has
  not caught up the owner's request ends with 404 \<open>USER_NOT_FOUND\<close>.\<close>

theorem created_user_is_readable:
  assumes reg: "knows_users reg" and e: "read_factory (sv_router s) = (Some e, r)"
    and ok: "users_ok show_time (sv_data s (eng_id (write_factory (sv_router s))))"
    and run: "service_create_user reg show_time ctx df c s = (Inr u, s')"
    and lag: "eng_id e \<noteq> eng_id (write_factory (sv_router s)) \<Longrightarrow> us_id u \<notin> us_id ` set (db_users (sv_data s (eng_id e)))"
  shows "if eng_id e = eng_id (write_factory (sv_router s))
    then fst (service_get_user reg (us_id u) s') = Inr u
    else map_sum exn_code id (fst (service_get_user reg (us_id u) s')) = Inl (Some ''USER_NOT_FOUND'')"
proof -
  let ?i = "eng_id (write_factory (sv_router s))"
  obtain d' where d': "create_user reg show_time ctx df c (sv_data s ?i) = (Inr u, d')"
    and s': "s' = s\<lparr>sv_data := (sv_data s)(?i := d')\<rparr>"
    using run by (auto simp: service_create_user_def Let_def split: prod.splits)
  then have st: "store_user show_time ctx df c (sv_data s ?i) = (Inr u, d')"
    using create_user_cases [OF d'] by auto
  have e': "read_factory (sv_router s') = (Some e, r)" using e by (simp add: s')
  show ?thesis
  proof (cases "eng_id e = ?i")
    case True
    have "distinct (map us_id (db_users d'))" using store_user_ok [OF ok st] by (simp add: users_ok_def)
    moreover have "u \<in> set (db_users d')" using store_user_Inr [OF st] by simp
    ultimately have "find (\<lambda>v. us_id v = us_id u) (db_users d') = Some u" by (rule find_user)
    then show ?thesis using True e' by (simp add: service_get_user_def s')
  next
    case False
    have "us_id u \<notin> us_id ` set us \<Longrightarrow> find (\<lambda>v. us_id v = us_id u) us = None" for us
      by (induction us) auto
    then have "find (\<lambda>v. us_id v = us_id u) (db_users (sv_data s (eng_id e))) = None"
      using lag [OF False] by blast
    then show ?thesis using False e' knows_users_codes(2) [OF reg] by (simp add: service_get_user_def s')
  qed
qed

lemma created_user_is_readable_witness:
  "\<exists>s'. service_create_user service_registry year default_ctx sample_defaults alice (primary_only no_database)
      = (Inr (new_user sample_defaults alice), s')
    \<and> fst (service_get_user service_registry ''u-1'' s') = Inr (new_user sample_defaults alice)"
proof -
  let ?s = "primary_only no_database" and ?u = "new_user sample_defaults alice"
  obtain d where "store_user year default_ctx sample_defaults alice no_database = (Inr ?u, d)"
    using alice_stored by blast
  then obtain s' where s': "service_create_user service_registry year default_ctx sample_defaults alice ?s = (Inr ?u, s')"
    by (simp add: service_create_user_def create_user_def check_email_def primary_only_def no_database_def Let_def)
  have w: "eng_id (write_factory (sv_router ?s)) = eng_id (build_engine 0 ''postgresql://p'')"
    by (simp add: primary_only_def router_without_replica write_factory_def)
  have "users_ok year (sv_data ?s (eng_id (write_factory (sv_router ?s))))"
    using users_ok_empty by (simp add: primary_only_def no_database_def)
  from created_user_is_readable [OF service_knows_users primary_only_read this s'] w
  show ?thesis using s' by (auto simp: new_user_def sample_defaults_def)
qed

text \<open>
  The contract \<open>contracts/events/user.created.schema.json\<close> that \<open>UserCreatedPayload\<close> mirrors: an object with
  these properties and no others, all but \<open>vip_level\<close> required. Its \<open>format\<close> keywords (uuid, email,
  date-time) are annotations, which a validator does not check.
\<close>

definition json_string :: "json \<Rightarrow> bool" where
  "json_string j \<longleftrightarrow> (case j of JStr s \<Rightarrow> True | _ \<Rightarrow> False)"

definition user_created_contract :: "json \<Rightarrow> bool" where
  "user_created_contract j \<longleftrightarrow>
     (case j of
        JObj d \<Rightarrow>
          fst ` set d \<subseteq> {''user_id'', ''email'', ''display_name'', ''vip_level'', ''created_at''} \<and>
          list_all (\<lambda>k. case map_of d k of Some v \<Rightarrow> json_string v | None \<Rightarrow> False)
            [''user_id'', ''email'', ''display_name'', ''created_at''] \<and>
          (case map_of d ''display_name'' of Some (JStr s) \<Rightarrow> code_points s \<le> 64 | _ \<Rightarrow> True) \<and>
          (case map_of d ''vip_level'' of None \<Rightarrow> True | Some (JInt n) \<Rightarrow> True | Some _ \<Rightarrow> False)
      | _ \<Rightarrow> False)"

lemma created_payload_contract:
  "user_created_contract (JObj (created_payload show_time u)) \<longleftrightarrow> code_points (us_display_name u) \<le> 64"
  by (auto simp: user_created_contract_def created_payload_def json_string_def)

text \<open>C30: Events keep their contract: in every interleaving of creations and batches of the relay the payload of
  each creation event has the type \<open>contracts/events/user.created.schema.json\<close> prescribes, in the table
  and in the envelope the relay publishes.\<close>

theorem events_conform_to_contract:
  assumes "(users_step reg show_time cfg publish clock)\<^sup>*\<^sup>* (d0, []) (d, ts)" "users_ok show_time d0"
  shows "\<forall>r \<in> set (created_rows d). user_created_contract (JObj (ob_payload r)) \<and>
    user_created_contract (JObj (en_payload (to_envelope r)))"
proof
  fix r assume "r \<in> set (created_rows d)"
  moreover have ok: "users_ok show_time d"
    using users_steps_ok [OF assms(1), unfolded fst_conv, OF assms(2)] by blast
  ultimately obtain u where u: "u \<in> set (db_users d)" "event_of show_time u r"
    unfolding users_ok_def by (metis in_set_conv_nth list_all2_conv_all_nth)
  then have "user_created_contract (JObj (ob_payload r))"
    using ok by (auto simp: event_of_def created_payload_contract users_ok_def list_all_iff)
  then show "user_created_contract (JObj (ob_payload r)) \<and> user_created_contract (JObj (en_payload (to_envelope r)))"
    by (simp add: to_envelope_def)
qed

lemma events_conform_to_contract_witness:
  "\<exists>d. (users_step service_registry year default_relay accepting (\<lambda>w. 0))\<^sup>*\<^sup>* (no_database, []) (d, [])
     \<and> db_outbox d \<noteq> [] \<and> (\<forall>r \<in> set (created_rows d). user_created_contract (JObj (ob_payload r)))"
proof -
  let ?step = "users_step service_registry year default_relay accepting (\<lambda>w. 0)"
  obtain d where d: "store_user year default_ctx sample_defaults alice no_database = (Inr (new_user sample_defaults alice), d)"
    using alice_stored by blast
  have r: "?step\<^sup>*\<^sup>* (no_database, []) (d, [])" using sample_run [OF d] .
  have "users_ok year no_database" using users_ok_empty by (simp add: no_database_def)
  from events_conform_to_contract [OF r this] r store_user_Inr [OF d] show ?thesis by fastforce
qed

text \<open>The address of a new user is not checked against the contract's \<open>format\<close>: any string is accepted.\<close>

lemma any_email_is_accepted:
  "user_create_validate lax_int (JObj [(''email'', JStr email), (''display_name'', JStr ''A'')])
     = Some \<lparr>cr_email = email, cr_display_name = ''A'', cr_vip_level = 0\<rparr>"
  by (simp add: user_create_validate_def code_points_def)

end
