(* ===== verification/Relay.thy ===== *)
theory Relay
  imports Outbox
begin

section \<open>The relay's endless loop: kernel/outbox.py\<close>

text \<open>
  \<open>OutboxRelay.run_forever\<close> by its rounds. Each round is a batch that is committed, or one whose transaction fails
  and is rolled back after its messages were published, or one that does not reach the database; both failures
  are logged and the loop goes on. The result is about any number of rounds: no message waits forever.
\<close>

subsection \<open>Rounds\<close>

datatype outcome = Committed | Rolled_back | Unreachable

record round =
  ro_now :: real
  ro_locked :: "string set"
  ro_outcome :: outcome

fun run_forever ::
  "relay_config \<Rightarrow> 'w handler \<Rightarrow> ('w \<Rightarrow> real) \<Rightarrow> round list \<Rightarrow> outbox_message list \<Rightarrow> 'w \<Rightarrow> outbox_message list \<times> 'w" where
  "run_forever cfg publish clock [] table w = (table, w)"
| "run_forever cfg publish clock (r # rs) table w =
     (case ro_outcome r of
        Unreachable \<Rightarrow> run_forever cfg publish clock rs table w
      | Rolled_back \<Rightarrow>
          run_forever cfg publish clock rs table (snd (run_once cfg publish clock (ro_now r) (ro_locked r) table w))
      | Committed \<Rightarrow>
          (case run_once cfg publish clock (ro_now r) (ro_locked r) table w of
             (res, w') \<Rightarrow> run_forever cfg publish clock rs (rr_table res) w'))"

text \<open>
  The longest delay between two attempts, and the number of rounds that come in turn at least that delay after
  the one before and find no row locked: \<open>epochs t rs\<close> counts from the deadline \<open>t\<close> on.
\<close>

definition max_delay :: real where
  "max_delay = backoff (MAX_ATTEMPTS - 1)"

definition clear_round :: "real \<Rightarrow> round \<Rightarrow> bool" where
  "clear_round t r \<longleftrightarrow> ro_outcome r = Committed \<and> ro_locked r = {} \<and> t \<le> ro_now r"

fun epochs :: "real \<Rightarrow> round list \<Rightarrow> nat" where
  "epochs t [] = 0"
| "epochs t (r # rs) = (if clear_round t r then Suc (epochs (ro_now r + max_delay) rs) else epochs t rs)"

fun in_order :: "real \<Rightarrow> round list \<Rightarrow> bool" where
  "in_order t [] \<longleftrightarrow> True"
| "in_order t (r # rs) \<longleftrightarrow> t \<le> ro_now r \<and> in_order (ro_now r) rs"

subsection \<open>Progress\<close>

definition next_by :: "real \<Rightarrow> outbox_message \<Rightarrow> bool" where
  "next_by t r \<longleftrightarrow> (case ob_next_attempt_at r of None \<Rightarrow> True | Some u \<Rightarrow> u \<le> t)"

text \<open>At time \<open>now\<close> with deadline \<open>t\<close>: a pending row has made more than \<open>k\<close> attempts, or \<open>k\<close> and is due by the deadline.\<close>

definition progress :: "nat \<Rightarrow> real \<Rightarrow> real \<Rightarrow> outbox_message \<Rightarrow> bool" where
  "progress k t now r \<longleftrightarrow> ob_status r = PENDING \<longrightarrow>
     (k < ob_attempts r \<or> k = ob_attempts r \<and> next_by t r) \<and> next_by (now + max_delay) r"

lemma next_by_mono: "next_by t r \<Longrightarrow> t \<le> u \<Longrightarrow> next_by u r"
  by (auto simp: next_by_def split: option.splits)

lemma backoff_le: "k < MAX_ATTEMPTS \<Longrightarrow> backoff k \<le> max_delay"
  using power_increasing [of "min k 6" 6 "2 :: real"]
  by (simp add: backoff_def max_delay_def MAX_ATTEMPTS_def BASE_BACKOFF_SECONDS_def)

lemma mark_failed_pending:
  assumes "ob_status (mark_failed now r) = PENDING"
  shows "ob_attempts (mark_failed now r) = Suc (ob_attempts r)" "next_by (now + max_delay) (mark_failed now r)"
proof -
  have a: "Suc (ob_attempts r) < MAX_ATTEMPTS" using assms by (auto simp: mark_failed_def Let_def split: if_splits)
  then have m: "mark_failed now r
      = r\<lparr>ob_attempts := Suc (ob_attempts r), ob_next_attempt_at := Some (now + backoff (Suc (ob_attempts r)))\<rparr>"
    by (simp add: mark_failed_def Let_def)
  show "ob_attempts (mark_failed now r) = Suc (ob_attempts r)" "next_by (now + max_delay) (mark_failed now r)"
    using backoff_le [OF a] by (simp_all add: m next_by_def)
qed

text \<open>What a committed round does to a row.\<close>

lemma round_row:
  assumes keys: "keys_ok table" and run: "run_once cfg publish clock now locked table w = (res, w')" and i: "i < length table"
  shows "rr_table res ! i = table ! i \<or> ob_status (rr_table res ! i) = SENT \<or>
      (due now (table ! i) \<and> rr_table res ! i = mark_failed now (table ! i))"
    and "locked = {} \<Longrightarrow> length table \<le> rl_batch_size cfg \<Longrightarrow> due now (table ! i) \<Longrightarrow>
      ob_status (rr_table res ! i) = SENT \<or> rr_table res ! i = mark_failed now (table ! i)"
proof -
  let ?b = "select_batch (rl_use_skip_locked cfg) locked (rl_batch_size cfg) now table"
  note row = list_all2_nthD [OF run_once_rows [OF keys run] i]
  show "rr_table res ! i = table ! i \<or> ob_status (rr_table res ! i) = SENT \<or>
      (due now (table ! i) \<and> rr_table res ! i = mark_failed now (table ! i))"
    using row select_batch_in [of "table ! i"] by (auto simp: row_step_def mark_sent_def split: if_splits)
  assume a: "locked = {}" "length table \<le> rl_batch_size cfg" "due now (table ! i)"
  have "length (filter (due now) table) \<le> rl_batch_size cfg" using a(2) length_filter_le [of "due now" table] by linarith
  then have "table ! i \<in> set ?b" using a i by (simp add: select_batch_def)
  then show "ob_status (rr_table res ! i) = SENT \<or> rr_table res ! i = mark_failed now (table ! i)"
    using row by (auto simp: row_step_def mark_sent_def)
qed

lemma progress_step:
  assumes keys: "keys_ok table" and run: "run_once cfg publish clock now locked table w = (res, w')"
    and p: "list_all (progress k t u) table" and u: "u \<le> now"
  shows "list_all (progress k t now) (rr_table res)"
    and "locked = {} \<Longrightarrow> length table \<le> rl_batch_size cfg \<Longrightarrow> t \<le> now \<Longrightarrow>
      list_all (progress (Suc k) (now + max_delay) now) (rr_table res)"
proof -
  have len: "length (rr_table res) = length table" using run_once_rows [OF keys run] by (simp add: list_all2_lengthD)
  have later: "next_by (u + max_delay) r \<Longrightarrow> next_by (now + max_delay) r" for r
    using u by (auto elim: next_by_mono)
  have pi: "progress k t u (table ! i)" if "i < length table" for i
    using p that by (simp add: list_all_length)
  show "list_all (progress k t now) (rr_table res)"
    unfolding list_all_length len
  proof (intro allI impI)
    fix i assume i: "i < length table"
    show "progress k t now (rr_table res ! i)"
      using round_row(1) [OF keys run i] pi [OF i] later mark_failed_pending [of now "table ! i"]
      by (auto simp: progress_def due_def)
  qed
  assume a: "locked = {}" "length table \<le> rl_batch_size cfg" "t \<le> now"
  show "list_all (progress (Suc k) (now + max_delay) now) (rr_table res)"
    unfolding list_all_length len
  proof (intro allI impI)
    fix i assume i: "i < length table"
    have "due now (table ! i)" if "ob_status (table ! i) = PENDING" "ob_attempts (table ! i) \<le> k"
      using pi [OF i] that a(3) next_by_mono by (auto simp: progress_def due_def next_by_def split: option.splits)
    then show "progress (Suc k) (now + max_delay) now (rr_table res ! i)"
      using round_row(1) [OF keys run i] round_row(2) [OF keys run i a(1,2)] pi [OF i] later
        mark_failed_pending [of now "table ! i"]
      by (auto simp: progress_def due_def)
  qed
qed

lemma run_forever_progress:
  "outbox_ok table \<Longrightarrow> list_all (progress k t u) table \<Longrightarrow> in_order u rs \<Longrightarrow> length table \<le> rl_batch_size cfg \<Longrightarrow>
     run_forever cfg publish clock rs table w = (table', w') \<Longrightarrow>
     outbox_ok table' \<and> length table' = length table \<and> (\<exists>t' u'. list_all (progress (k + epochs t rs) t' u') table')"
proof (induction rs arbitrary: table w k t u)
  case Nil
  then show ?case by auto
next
  case (Cons r rs)
  have wait: "list_all (progress k t (ro_now r)) table"
    using Cons.prems(2,3) by (auto simp: list_all_iff progress_def elim!: next_by_mono)
  show ?case
  proof (cases "ro_outcome r = Committed")
    case False
    then show ?thesis using Cons.IH [OF Cons.prems(1) wait] Cons.prems
      by (cases "ro_outcome r") (auto simp: clear_round_def)
  next
    case True
    obtain res w1 where run: "run_once cfg publish clock (ro_now r) (ro_locked r) table w = (res, w1)" by fastforce
    have ok: "outbox_ok (rr_table res)" "keys_ok table" "length (rr_table res) = length table"
      using relay_keeps_outbox_for [OF Cons.prems(1) run] Cons.prems(1)
      by (auto simp: outbox_ok_def list_all2_lengthD)
    note step = progress_step [OF ok(2) run Cons.prems(2)]
    have order: "u \<le> ro_now r" "in_order (ro_now r) rs" using Cons.prems(3) by simp_all
    have rest: "run_forever cfg publish clock rs (rr_table res) w1 = (table', w')"
      using Cons.prems(5) True run by simp
    show ?thesis
    proof (cases "clear_round t r")
      case True
      then have "list_all (progress (Suc k) (ro_now r + max_delay) (ro_now r)) (rr_table res)"
        using step(2) order Cons.prems(4) by (simp add: clear_round_def)
      from Cons.IH [OF ok(1) this order(2) _ rest] True Cons.prems(4) ok(3) show ?thesis by simp
    next
      case False
      from Cons.IH [OF ok(1) step(1) [OF order(1)] order(2) _ rest] False Cons.prems(4) ok(3) show ?thesis by simp
    qed
  qed
qed



subsection \<open>What is marked as sent was accepted\<close>

lemma mark_envelope [simp]: "to_envelope (mark_sent t r) = to_envelope r" "to_envelope (mark_failed now r) = to_envelope r"
  by (simp_all add: to_envelope_def mark_sent_def mark_failed_def Let_def)

lemma write_back_in: "r \<in> set (write_back rows table) \<Longrightarrow> r \<in> set table \<or> r \<in> set rows"
  by (auto simp: write_back_def split: option.splits dest!: map_of_SomeD)

context event_publisher
begin

definition sent_accepted :: "outbox_message list \<Rightarrow> 'w \<Rightarrow> bool" where
  "sent_accepted rows w \<longleftrightarrow> (\<forall>r \<in> set rows. ob_status r = SENT \<longrightarrow> to_envelope r \<in> accepted w)"

lemma sent_accepted_mono: "sent_accepted rows w \<Longrightarrow> accepted w \<subseteq> accepted w' \<Longrightarrow> sent_accepted rows w'"
  by (auto simp: sent_accepted_def)

lemma deliver_accepted:
  "deliver publish clock now rows w = (rows', n, w') \<Longrightarrow> sent_accepted rows w \<Longrightarrow>
     accepted w \<subseteq> accepted w' \<and> sent_accepted rows' w'"
proof (induction rows arbitrary: rows' n w w')
  case Nil
  then show ?case by (simp add: sent_accepted_def)
next
  case (Cons r rows)
  obtain x w1 where p: "publish (to_envelope r) w = (x, w1)" by fastforce
  obtain rs k w2 where d: "deliver publish clock now rows w1 = (rs, k, w2)" by (metis prod_cases3)
  have keep: "accepted w \<subseteq> accepted w1" by (rule publish_keeps [OF p])
  have "sent_accepted rows w" using Cons.prems(2) by (simp add: sent_accepted_def)
  note ih = Cons.IH [OF d sent_accepted_mono [OF this keep]]
  show ?case
  proof (cases x)
    case None
    then have "to_envelope r \<in> accepted w2" using publish_accepts p ih by blast
    then show ?thesis using Cons.prems(1) p d None ih keep by (auto simp: sent_accepted_def)
  next
    case (Some e)
    have "ob_status (mark_failed now r) = SENT \<Longrightarrow> to_envelope r \<in> accepted w2"
      using Cons.prems(2) ih keep
      by (auto simp: sent_accepted_def mark_failed_def Let_def split: if_splits)
    then show ?thesis using Cons.prems(1) p d Some ih keep by (auto simp: sent_accepted_def)
  qed
qed

lemma run_once_accepted:
  assumes "run_once cfg publish clock now locked table w = (res, w')" "sent_accepted table w"
  shows "accepted w \<subseteq> accepted w' \<and> sent_accepted (rr_table res) w'"
proof -
  let ?b = "select_batch (rl_use_skip_locked cfg) locked (rl_batch_size cfg) now table"
  obtain rows' n w1 where d: "deliver publish clock now ?b w = (rows', n, w1)" by (metis prod_cases3)
  then have r: "w' = w1" "rr_table res = write_back rows' table" using assms(1) by (auto simp: run_once_def Let_def)
  have "sent_accepted ?b w" using assms(2) select_batch_in by (fastforce simp: sent_accepted_def)
  from deliver_accepted [OF d this] assms(2) show ?thesis
    unfolding r by (auto simp: sent_accepted_def dest!: write_back_in)
qed

lemma run_forever_accepted:
  "run_forever cfg publish clock rs table w = (table', w') \<Longrightarrow> sent_accepted table w \<Longrightarrow> sent_accepted table' w'"
proof (induction rs arbitrary: table w)
  case Nil
  then show ?case by simp
next
  case (Cons r rs)
  obtain res w1 where run: "run_once cfg publish clock (ro_now r) (ro_locked r) table w = (res, w1)" by fastforce
  note once = run_once_accepted [OF run Cons.prems(2)]
  show ?case using Cons.prems(1) run once Cons.IH sent_accepted_mono [OF Cons.prems(2)] Cons.prems(2)
    by (cases "ro_outcome r") auto
qed

end

text \<open>What the relay marks as sent is on the broker, however its rounds and the network fail: for each sent row
  the broker has the message of the row's event under the routing key of its name.\<close>

theorem sent_messages_are_on_the_broker:
  assumes run: "run_forever cfg (rabbit_bus net show_time) clock rs table bn = (table', (b, n))"
    and fresh: "\<forall>r \<in> set table. ob_status r \<noteq> SENT" and r: "r \<in> set table'" "ob_status r = SENT"
  shows "(ob_event_name r, rabbit_message show_time (to_envelope r)) \<in> set (br_published b)"
proof -
  have "rabbit.sent_accepted show_time table bn" using fresh by (simp add: rabbit.sent_accepted_def)
  from rabbit.run_forever_accepted [OF run this] r show ?thesis
    by (auto simp: rabbit.sent_accepted_def on_broker_def) (simp add: to_envelope_def)
qed

definition no_broker :: "nat broker" where
  "no_broker = new_bus"

lemma sent_messages_are_on_the_broker_witness:
  "\<exists>r b n. run_forever default_relay (rabbit_bus (\<lambda>k. if k = 0 then (None, Unconfirmed (RuntimeError ''reset'')) else (None, Confirmed)) (\<lambda>t. ''0''))
       (\<lambda>w. 1) [\<lparr>ro_now = 0, ro_locked = {}, ro_outcome = Committed\<rparr>, \<lparr>ro_now = 4, ro_locked = {}, ro_outcome = Committed\<rparr>]
       sample_table (no_broker, 0) = ([r], (b, n))
     \<and> ob_status r = SENT \<and> (ob_event_name r, rabbit_message (\<lambda>t. ''0'') (to_envelope r)) \<in> set (br_published b)"
proof -
  let ?net = "\<lambda>k :: nat. if k = 0 then (None, Unconfirmed (RuntimeError ''reset'')) else (None, Confirmed)"
  let ?run = "run_forever default_relay (rabbit_bus ?net (\<lambda>t. ''0'')) (\<lambda>w. 1)
    [\<lparr>ro_now = 0, ro_locked = {}, ro_outcome = Committed\<rparr>, \<lparr>ro_now = 4, ro_locked = {}, ro_outcome = Committed\<rparr>]
    sample_table (no_broker, 0)"
  obtain r b n where run: "?run = ([r], (b, n))" "ob_status r = SENT"
    by (simp add: sample_table_def stage_outbox_def run_once_def select_batch_def due_def default_relay_def
        rabbit_bus_def rabbit_publish_def rabbit_connect_def no_broker_def new_bus_def mark_sent_def mark_failed_def write_back_def backoff_def BASE_BACKOFF_SECONDS_def MAX_ATTEMPTS_def Let_def)
  have "\<forall>r \<in> set sample_table. ob_status r \<noteq> SENT" by (simp add: sample_table_def stage_outbox_def Let_def)
  from sent_messages_are_on_the_broker [OF run(1) this] run show ?thesis by auto
qed

end
