(* ===== verification/Flow.thy ===== *)
theory Flow
  imports Users Relay
begin

section \<open>From a created user to its consumer\<close>

text \<open>
  The path of \<open>user.created.v1\<close> through the program: the transaction of the user service stages it, a batch of
  the relay publishes it through the RabbitMQ bus, and the consumer base of another service receives it.
\<close>

lemma trace_validate_ok: "trace_validate j = Some t \<Longrightarrow> trace_ok t"
  by (auto simp: trace_validate_def dest: make_trace_context_ok split: json.splits option.splits)

lemma context_trace_ok: "envelope_trace_from_context c = Some (Some t) \<Longrightarrow> trace_ok t"
  by (auto simp: envelope_trace_from_context_def dest: make_trace_context_ok split: if_splits)

text \<open>The event that a committed creation has staged, as the relay publishes it.\<close>

lemma store_user_staged:
  assumes "store_user show_time ctx df c d = (Inr u, d')"
  shows "\<exists>r. db_outbox d' = db_outbox d @ [r] \<and> ob_status r = PENDING \<and> ob_next_attempt_at r = None \<and>
    envelope_ok (to_envelope r) \<and> en_id (to_envelope r) = df_row_id df \<and> en_name (to_envelope r) = ''user.created.v1'' \<and>
    en_aggregate_id (to_envelope r) = us_id u \<and> en_payload (to_envelope r) = created_payload show_time u \<and>
    en_occurred_at (to_envelope r) = df_staged df"
proof -
  let ?u = "new_user df c"
  obtain trace r where trace: "envelope_trace_from_context ctx = Some trace" and u: "u = ?u"
    and st: "stage_outbox (df_row_id df) (df_staged df)
      \<lparr>en_id = df_event_id df, en_name = ''user.created.v1'', en_source = ''service-template'', en_aggregate_type = ''user'',
        en_aggregate_id = us_id u, en_occurred_at = df_occurred df, en_payload = created_payload show_time u, en_trace = trace\<rparr>
      (db_outbox d) = (r, db_outbox d')"
    using assms
    by (auto simp: store_user_def Let_def flush_user_def make_payload_def split: if_splits option.splits prod.splits)
  define e where "e = \<lparr>en_id = df_event_id df, en_name = ''user.created.v1'', en_source = ''service-template'', en_aggregate_type = ''user'',
        en_aggregate_id = us_id u, en_occurred_at = df_occurred df, en_payload = created_payload show_time u, en_trace = trace\<rparr>"
  have "envelope_ok e" using trace context_trace_ok
    by (auto simp: envelope_ok_def e_def created_payload_def split: option.split)
  note env = staged_event_published [OF this st [folded e_def]]
  moreover have "envelope_ok (to_envelope r)" using \<open>envelope_ok e\<close> by (simp add: env envelope_ok_def)
  moreover have "db_outbox d' = db_outbox d @ [r]" "ob_status r = PENDING" "ob_next_attempt_at r = None"
    using st by (auto simp: stage_outbox_def Let_def)
  ultimately show ?thesis by (intro exI [of _ r]) (simp add: env, simp add: e_def)
qed

text \<open>A batch over a network that confirms every publication leaves the event of each due row on the broker.\<close>

lemma rabbit_confirms: "\<forall>k. net k = (None, Confirmed) \<Longrightarrow> fst (rabbit_bus net show_time e bn) = None"
  by (simp add: rabbit_bus_def rabbit_publish_def rabbit_connect_def split: prod.split)

lemma due_row_is_published:
  assumes keys: "keys_ok table" and net: "\<forall>k. net k = (None, Confirmed)"
    and run: "run_once cfg (rabbit_bus net show_time) clock now {} table bn = (res, bn')"
    and before: "rabbit.sent_accepted show_time table bn" and room: "length table \<le> rl_batch_size cfg"
    and r: "r \<in> set table" "due now r"
  shows "(ob_event_name r, rabbit_message show_time (to_envelope r)) \<in> set (br_published (fst bn'))"
proof -
  obtain i where i: "i < length table" "table ! i = r" using r(1) by (auto simp: in_set_conv_nth)
  have room': "length (filter (due now) table) \<le> rl_batch_size cfg" using room length_filter_le [of "due now" table] by linarith
  have len: "length (rr_table res) = length table" using run_once_rows [OF keys run] by (simp add: list_all2_lengthD)
  have sent: "ob_status (rr_table res ! i) = SENT"
    using due_messages_are_sent [OF keys run rabbit_confirms [OF net] room' i(1)] i r(2) by simp
  have same: "to_envelope (rr_table res ! i) = to_envelope r"
    using list_all2_nthD [OF run_once_rows [OF keys run] i(1)] i(2) by (auto simp: row_step_def split: if_splits)
  have "rr_table res ! i \<in> set (rr_table res)" using i(1) len by simp
  with rabbit.run_once_accepted [OF run before] sent same have "to_envelope r \<in> on_broker show_time bn'"
    by (auto simp: rabbit.sent_accepted_def)
  then show ?thesis by (simp add: on_broker_def) (simp add: to_envelope_def)
qed



subsection \<open>The consumer base on the in-process bus, and the example consumer\<close>

definition consumer_subscribe ::
  "'s store_ops option \<Rightarrow> string \<Rightarrow> 'w handler \<Rightarrow> ('s \<times> 'w) local_bus \<Rightarrow> ('s \<times> 'w) local_bus" where
  "consumer_subscribe store event_name h bus = local_subscribe event_name (guarded store event_name h) bus"

text \<open>\<open>app/consumers/order_events.py\<close>: the state is the lines it logs.\<close>

definition handle_order_created :: "(string \<times> string) list handler" where
  "handle_order_created e lines = (None, lines @ [(en_name e, en_aggregate_id e)])"

lemma single_subscriber: "local_publish (local_subscribe (en_name e) h []) e w = h e w"
proof -
  have "dict_get [] (en_name e) (local_subscribe (en_name e) h []) = [h]"
    unfolding subscribers_in_order by (simp add: dict_get_def)
  then show ?thesis by (simp add: local_publish_def split: prod.split option.split)
qed

lemma deliveries_cong: "(\<And>w. f e w = g e w) \<Longrightarrow> deliveries f e k w = deliveries g e k w"
  by (induction k arbitrary: w) simp_all

text \<open>However often the bus delivers an order event, the example consumer logs it once.\<close>

theorem order_is_logged_once:
  assumes laws: "idempotency_store ops look"
    and e: "en_name e = ''order.created.v1''" and new: "look (event_key ''order.created.v1'' e) s = None"
  shows "\<exists>s'. deliveries (local_publish (consumer_subscribe (Some ops) ''order.created.v1'' handle_order_created [])) e (Suc k) (s, lines)
    = (replicate (Suc k) None, (s', lines @ [(''order.created.v1'', en_aggregate_id e)]))"
proof -
  let ?g = "guarded (Some ops) ''order.created.v1'' handle_order_created"
  let ?bus = "local_publish (consumer_subscribe (Some ops) ''order.created.v1'' handle_order_created [])"
  have "?bus e w = ?g e w" for w
    using single_subscriber [of e ?g w] by (simp add: consumer_subscribe_def e)
  then have bus: "deliveries ?bus e n w = deliveries ?g e n w" for n w by (rule deliveries_cong)
  obtain s' where "?g e (s, lines) = (None, (s', lines @ [(''order.created.v1'', en_aggregate_id e)]))"
    "look (event_key ''order.created.v1'' e) s' = Some ''done''"
    using guarded_first [where ops = ops and look = look and n = "''order.created.v1''" and env = e and s = s
        and h = handle_order_created and w = lines, OF laws new]
    by (auto simp: handle_order_created_def e)
  then show ?thesis
    using deliveries_again [where ops = ops and look = look and n = "''order.created.v1''" and env = e and s = s'
        and v = "''done''" and h = handle_order_created and k = k and w = "lines @ [(''order.created.v1'', en_aggregate_id e)]", OF laws]
    unfolding bus by simp
qed

lemma order_is_logged_once_witness:
  "\<exists>s'. deliveries (local_publish (consumer_subscribe (Some mem_ops) ''order.created.v1'' handle_order_created []))
      (sample_event\<lparr>en_name := ''order.created.v1''\<rparr>) 3 ([], []) = (replicate 3 None, (s', [(''order.created.v1'', ''u1'')]))"
proof -
  let ?e = "sample_event\<lparr>en_name := ''order.created.v1''\<rparr>"
  have "en_name ?e = ''order.created.v1''" "mem_get (event_key ''order.created.v1'' ?e) [] = None"
    by (simp_all add: mem_get_def)
  from order_is_logged_once [where ops = mem_ops and look = mem_get and s = "[]" and k = 2 and lines = "[]", OF mem_laws this] show ?thesis
    by (simp add: numeral_3_eq_3 numeral_2_eq_2 sample_event_def del: deliveries.simps replicate.simps)
qed

end
