(* ===== verification/Autoscaler.thy ===== *)
theory Autoscaler
  imports Balancer Settings
begin

section \<open>The autoscaler: services/autoscaler\<close>

text \<open>
  Scraping and parsing the targets' metrics (\<open>metrics.py\<close>), the policy (\<open>policy.py\<close>), the scalers
  (\<open>scaler.py\<close>) and the controller's \<open>tick\<close> (\<open>main.py\<close>). Numbers are reals, where the code has
  floats; the reason of a decision is the case it comes from, not its text. The HTTP client and the
  process that runs \<open>docker compose\<close> are arguments.
\<close>

subsection \<open>Settings\<close>

record autoscaler_settings = settings +
  target_service :: string
  target_urls :: string
  interval_seconds :: real
  scale_up_rps :: real
  scale_down_rps :: real
  error_rate_threshold :: real
  sustain_up :: int
  sustain_down :: int
  cooldown_seconds :: real
  min_replicas :: int
  max_replicas :: int
  dry_run :: bool
  compose_dir :: string
  compose_file :: string
  compose_env_file :: string

definition default_autoscaler :: autoscaler_settings where
  "default_autoscaler =
     settings.extend (default_settings\<lparr>service_name := ''autoscaler''\<rparr>)
       (autoscaler_settings.fields ''service-template'' [] 5 20 5 (5/100) 3 6 60 1 6 True
          ''.'' ''docker-compose.prod.yml'' ''.env.prod'')"

definition target_url_list :: "autoscaler_settings \<Rightarrow> string list" where
  "target_url_list s = comma_list (target_urls s)"

subsection \<open>Prometheus text\<close>

text \<open>\<open>splitlines()\<close>, on the line ends of ASCII; empty lines are dropped by the caller.\<close>

definition line_end :: "char \<Rightarrow> bool" where
  "line_end c \<longleftrightarrow> (of_char c :: nat) \<in> {10, 11, 12, 13, 28, 29, 30}"

fun splitlines :: "string \<Rightarrow> string list" where
  "splitlines [] = []"
| "splitlines (c # cs) =
     (if line_end c then [] # splitlines cs
      else (case splitlines cs of [] \<Rightarrow> [[c]] | l # ls \<Rightarrow> (c # l) # ls))"

text \<open>\<open>s.split(c, 1)\<close> and \<open>s.rsplit(c, 1)\<close> with their two parts; \<open>None\<close>: only one part, and the
  assignment to two names raises \<open>ValueError\<close>.\<close>

definition split_once :: "char \<Rightarrow> string \<Rightarrow> (string \<times> string) option" where
  "split_once d s =
     (case dropWhile (\<lambda>c. c \<noteq> d) s of [] \<Rightarrow> None | _ # r \<Rightarrow> Some (takeWhile (\<lambda>c. c \<noteq> d) s, r))"

definition rsplit_once :: "char \<Rightarrow> string \<Rightarrow> (string \<times> string) option" where
  "rsplit_once d s = map_option (\<lambda>(a, b). (rev b, rev a)) (split_once d (rev s))"

text \<open>\<open>float(s)\<close> on decimal literals (sign, digits, fraction, exponent); \<open>None\<close> is \<open>ValueError\<close>.\<close>

definition digit :: "char \<Rightarrow> bool" where
  "digit c \<longleftrightarrow> 48 \<le> (of_char c :: nat) \<and> (of_char c :: nat) \<le> 57"

definition dec_val :: "string \<Rightarrow> nat" where
  "dec_val ds = foldl (\<lambda>n c. 10 * n + (of_char c - 48)) 0 ds"

definition read_sign :: "string \<Rightarrow> bool \<times> string" where
  "read_sign s = (case s of c # r \<Rightarrow> if c = CHR ''-'' then (True, r) else if c = CHR ''+'' then (False, r) else (False, s)
                  | [] \<Rightarrow> (False, []))"

definition read_exponent :: "string \<Rightarrow> int option" where
  "read_exponent s =
     (case s of
        [] \<Rightarrow> Some 0
      | e # r \<Rightarrow>
          if e \<in> {CHR ''e'', CHR ''E''} then
            (case read_sign r of
               (neg, ds) \<Rightarrow>
                 if ds \<noteq> [] \<and> list_all digit ds then Some (if neg then - int (dec_val ds) else int (dec_val ds)) else None)
          else None)"

definition py_float :: "string \<Rightarrow> real option" where
  "py_float s =
     (case read_sign s of
        (neg, r) \<Rightarrow>
          (let ip = takeWhile digit r; r1 = dropWhile digit r;
               (fp, r2) = (case r1 of c # r' \<Rightarrow> if c = CHR ''.'' then (takeWhile digit r', dropWhile digit r') else ([], r1)
                           | [] \<Rightarrow> ([], []))
           in if ip = [] \<and> fp = [] then None
              else
                (case read_exponent r2 of
                   None \<Rightarrow> None
                 | Some x \<Rightarrow>
                     (let v = real (dec_val (ip @ fp)) * 10 powi (x - int (length fp))
                      in Some (if neg then - v else v)))))"

type_synonym parsed = "(string, (string, real) pydict) pydict"

text \<open>One line; \<open>None\<close> is the \<open>ValueError\<close> that leaves the function. The right-hand side \<open>float(...)\<close> is
  evaluated before \<open>setdefault\<close>, so a value that is no number leaves the dictionary as it was.\<close>

definition parse_line :: "string \<Rightarrow> parsed \<Rightarrow> parsed option" where
  "parse_line raw result =
     (let line = strip raw in
      if line = [] \<or> starts_with ''#'' line then Some result
      else
        (case (if CHR ''{'' \<in> set line
               then (case split_once CHR ''{'' line of
                       None \<Rightarrow> None
                     | Some (name, rest) \<Rightarrow>
                         map_option (\<lambda>(labels, v). (name, labels, v)) (rsplit_once CHR ''}'' rest))
               else map_option (\<lambda>(name, v). (name, [], v)) (rsplit_once CHR '' '' line)) of
           None \<Rightarrow> None
         | Some (name, labels, v) \<Rightarrow>
             Some (case py_float (strip v) of
                     None \<Rightarrow> result
                   | Some x \<Rightarrow>
                       (let result' = dict_setdefault (strip name) [] result
                        in AList.update (strip name)
                             (AList.update (strip labels) x (dict_get [] (strip name) result')) result'))))"

fun parse_lines :: "string list \<Rightarrow> parsed \<Rightarrow> parsed option" where
  "parse_lines [] result = Some result"
| "parse_lines (l # ls) result =
     (case parse_line l result of None \<Rightarrow> None | Some r \<Rightarrow> parse_lines ls r)"

definition parse_prometheus_text :: "string \<Rightarrow> parsed option" where
  "parse_prometheus_text text = parse_lines (splitlines text) []"

record service_sample =
  requests_total :: real
  error_total :: real

definition no_sample :: service_sample where
  "no_sample = \<lparr>requests_total = 0, error_total = 0\<rparr>"

text \<open>\<open>re.search(r'status="5\d\d"', label_key)\<close>.\<close>

definition quoted :: "string \<Rightarrow> string" where
  "quoted s = CHR 0x22 # s @ [CHR 0x22]"

fun status_5xx :: "string \<Rightarrow> bool" where
  "status_5xx [] = False"
| "status_5xx (c # cs) =
     (starts_with (''status='' @ [CHR 0x22, CHR ''5'']) (c # cs)
        \<and> (case drop 9 (c # cs) of
              a # b # q # r \<Rightarrow> digit a \<and> digit b \<and> q = CHR 0x22
            | _ \<Rightarrow> False)
      \<or> status_5xx cs)"

definition add_counter :: "string \<Rightarrow> service_sample \<Rightarrow> string \<times> real \<Rightarrow> service_sample" where
  "add_counter service_label sample kv =
     (if contains service_label (fst kv) then
        \<lparr>requests_total = requests_total sample + snd kv,
         error_total = error_total sample + (if status_5xx (fst kv) then snd kv else 0)\<rparr>
      else sample)"

definition extract_sample :: "parsed \<Rightarrow> string \<Rightarrow> service_sample" where
  "extract_sample parsed service =
     foldl (add_counter (''service='' @ quoted service)) no_sample (dict_get [] ''http_requests_total'' parsed)"

definition compute_rps :: "service_sample option \<Rightarrow> service_sample \<Rightarrow> real \<Rightarrow> real \<times> real" where
  "compute_rps prev cur window_seconds =
     (case prev of
        None \<Rightarrow> (0, 0)
      | Some p \<Rightarrow>
          (let total_delta = requests_total cur - requests_total p;
               error_delta = error_total cur - error_total p
           in if window_seconds \<le> 0 \<or> total_delta < 0 then (0, 0)
              else (total_delta / window_seconds,
                    min (if 0 < total_delta then error_delta / total_delta else 0) 1)))"

subsection \<open>The policy\<close>

datatype action = Up | Down | Hold

datatype reason = Cooling real | AtMaximum | ConfirmUp int | Overload | AtMinimum | ConfirmDown int | Underload | Normal

record decision =
  dc_action :: action
  dc_reason :: reason

record policy_state =
  up_streak :: int
  down_streak :: int
  last_action_at :: real

definition fresh_policy :: policy_state where
  "fresh_policy = \<lparr>up_streak = 0, down_streak = 0, last_action_at = 0\<rparr>"

definition reset_streaks :: "policy_state \<Rightarrow> policy_state" where
  "reset_streaks st = st\<lparr>up_streak := 0, down_streak := 0\<rparr>"

definition decide ::
  "autoscaler_settings \<Rightarrow> policy_state \<Rightarrow> int \<Rightarrow> real \<Rightarrow> real \<Rightarrow> real \<Rightarrow> decision \<times> policy_state" where
  "decide s st current_replicas rps_per_instance error_rate now =
     (let cooldown_left = cooldown_seconds s - (now - last_action_at st) in
      if 0 < cooldown_left then (\<lparr>dc_action = Hold, dc_reason = Cooling cooldown_left\<rparr>, st)
      else if scale_up_rps s < rps_per_instance \<or> error_rate_threshold s < error_rate then
        (let st = st\<lparr>down_streak := 0\<rparr> in
         if max_replicas s \<le> current_replicas
         then (\<lparr>dc_action = Hold, dc_reason = AtMaximum\<rparr>, st\<lparr>up_streak := 0\<rparr>)
         else
           (let st = st\<lparr>up_streak := up_streak st + 1\<rparr> in
            if sustain_up s \<le> up_streak st
            then (\<lparr>dc_action = Up, dc_reason = Overload\<rparr>, st\<lparr>up_streak := 0, last_action_at := now\<rparr>)
            else (\<lparr>dc_action = Hold, dc_reason = ConfirmUp (up_streak st)\<rparr>, st)))
      else if rps_per_instance < scale_down_rps s then
        (let st = st\<lparr>up_streak := 0\<rparr> in
         if current_replicas \<le> min_replicas s
         then (\<lparr>dc_action = Hold, dc_reason = AtMinimum\<rparr>, st\<lparr>down_streak := 0\<rparr>)
         else
           (let st = st\<lparr>down_streak := down_streak st + 1\<rparr> in
            if sustain_down s \<le> down_streak st
            then (\<lparr>dc_action = Down, dc_reason = Underload\<rparr>, st\<lparr>down_streak := 0, last_action_at := now\<rparr>)
            else (\<lparr>dc_action = Hold, dc_reason = ConfirmDown (down_streak st)\<rparr>, st)))
      else (\<lparr>dc_action = Hold, dc_reason = Normal\<rparr>, reset_streaks st))"

subsection \<open>Scalers\<close>

type_synonym 'k scaler = "string \<Rightarrow> int \<Rightarrow> 'k \<Rightarrow> exn option \<times> 'k"

definition noop_scaler :: "'k scaler" where
  "noop_scaler service n k = (None, k)"

definition compose_command :: "string \<Rightarrow> string \<Rightarrow> string \<Rightarrow> int \<Rightarrow> string list" where
  "compose_command file env_file service n =
     [''docker'', ''compose'', ''-f'', file, ''--env-file'', env_file, ''up'', ''-d'', ''--scale'',
      service @ ''='' @ show_int n]"

text \<open>\<open>run\<close> is \<open>subprocess.run\<close> in the directory: the return code and what the process wrote to its
  standard error. The exception carries its last 200 characters.\<close>

definition last_n :: "nat \<Rightarrow> 'a list \<Rightarrow> 'a list" where
  "last_n n xs = drop (length xs - n) xs"

definition compose_scaler ::
  "(string list \<Rightarrow> string \<Rightarrow> 'k \<Rightarrow> (int \<times> string) \<times> 'k) \<Rightarrow> string \<Rightarrow> string \<Rightarrow> string \<Rightarrow> 'k scaler" where
  "compose_scaler run dir file env_file service n k =
     (case run (compose_command file env_file service n) dir k of
        ((code, err), k') \<Rightarrow>
          (if code \<noteq> 0
           then (Some (RuntimeError (''docker compose --scale '' @ utf8 [0x5931, 0x8D25] @ '': '' @ last_n 200 err)), k')
           else (None, k')))"

definition choose_scaler ::
  "(string list \<Rightarrow> string \<Rightarrow> 'k \<Rightarrow> (int \<times> string) \<times> 'k) \<Rightarrow> autoscaler_settings \<Rightarrow> 'k scaler" where
  "choose_scaler run s =
     (if dry_run s then noop_scaler else compose_scaler run (compose_dir s) (compose_file s) (compose_env_file s))"

subsection \<open>The controller\<close>

record controller =
  c_prev :: "service_sample option"
  c_state :: policy_state
  c_replicas :: int
  c_decisions :: "action list"

definition controller_init :: "autoscaler_settings \<Rightarrow> controller" where
  "controller_init s =
     \<lparr>c_prev = None, c_state = fresh_policy,
      c_replicas = max (int (length (target_url_list s))) (min_replicas s), c_decisions = []\<rparr>"

text \<open>The scraping loop: an answer other than 200 and an \<open>HTTPError\<close> are skipped; a \<open>ValueError\<close> of the
  parser and any other exception of the client (\<open>InvalidURL\<close> of a malformed target) leave the tick.\<close>

definition metrics_url :: "string \<Rightarrow> string" where
  "metrics_url url = rstrip_char CHR ''/'' url @ ''/metrics''"

fun scrape :: "(string \<Rightarrow> http_result) \<Rightarrow> string \<Rightarrow> string list \<Rightarrow> service_sample \<Rightarrow> exn + service_sample" where
  "scrape get service [] totals = Inr totals"
| "scrape get service (url # urls) totals =
     (case get (metrics_url url) of
        HTTPError msg \<Rightarrow> scrape get service urls totals
      | Uncaught e \<Rightarrow> Inl e
      | Response r \<Rightarrow>
          if ur_status r \<noteq> 200 then scrape get service urls totals
          else
            (case parse_prometheus_text (ur_content r) of
               None \<Rightarrow> Inl (ValueError ''not enough values to unpack'')
             | Some parsed \<Rightarrow>
                 (let sample = extract_sample parsed service
                  in scrape get service urls
                       \<lparr>requests_total = requests_total totals + requests_total sample,
                        error_total = error_total totals + error_total sample\<rparr>)))"

definition apply_target :: "'k scaler \<Rightarrow> string \<Rightarrow> int \<Rightarrow> controller \<Rightarrow> 'k \<Rightarrow> exn option \<times> controller \<times> 'k" where
  "apply_target set_replicas service target c k =
     (case set_replicas service target k of
        (Some e, k') \<Rightarrow> (Some e, c, k')
      | (None, k') \<Rightarrow> (None, c\<lparr>c_replicas := target\<rparr>, k'))"

definition per_instance :: "real \<Rightarrow> int \<Rightarrow> real" where
  "per_instance rps_total replicas = (if replicas \<noteq> 0 then rps_total / of_int replicas else 0)"

definition tick ::
  "autoscaler_settings \<Rightarrow> 'k scaler \<Rightarrow> (string \<Rightarrow> http_result) \<Rightarrow> real \<Rightarrow> controller \<Rightarrow> 'k \<Rightarrow> exn option \<times> controller \<times> 'k" where
  "tick s set_replicas get now c k =
     (let urls = target_url_list s in
      if urls = [] then (None, c, k)
      else
        (case scrape get (target_service s) urls no_sample of
           Inl e \<Rightarrow> (Some e, c, k)
         | Inr totals \<Rightarrow>
             (let (rps_total, error_rate) = compute_rps (c_prev c) totals (interval_seconds s);
                  rps_per_instance = per_instance rps_total (c_replicas c);
                  (d, st) = decide s (c_state c) (c_replicas c) rps_per_instance error_rate now;
                  c1 = c\<lparr>c_prev := Some totals, c_state := st, c_decisions := c_decisions c @ [dc_action d]\<rparr>
              in case dc_action d of
                   Up \<Rightarrow> apply_target set_replicas (target_service s) (min (c_replicas c + 1) (max_replicas s)) c1 k
                 | Down \<Rightarrow> apply_target set_replicas (target_service s) (max (c_replicas c - 1) (min_replicas s)) c1 k
                 | Hold \<Rightarrow> (None, c1, k))))"

text \<open>\<open>_run_loop\<close>: the ticks one after the other, each with its time and what the targets answer; an
  exception of a tick is logged and the loop goes on.\<close>

fun run_loop ::
  "autoscaler_settings \<Rightarrow> 'k scaler \<Rightarrow> (real \<times> (string \<Rightarrow> http_result)) list \<Rightarrow> controller \<Rightarrow> 'k \<Rightarrow> controller \<times> 'k" where
  "run_loop s set_replicas [] c k = (c, k)"
| "run_loop s set_replicas ((now, get) # ts) c k =
     (case tick s set_replicas get now c k of (e, c', k') \<Rightarrow> run_loop s set_replicas ts c' k')"

subsection \<open>The policy's behaviour\<close>

definition high_load :: "autoscaler_settings \<Rightarrow> real \<times> real \<Rightarrow> bool" where
  "high_load s o1 \<longleftrightarrow> scale_up_rps s < fst o1 \<or> error_rate_threshold s < snd o1"

definition low_load :: "autoscaler_settings \<Rightarrow> real \<times> real \<Rightarrow> bool" where
  "low_load s o1 \<longleftrightarrow> \<not> high_load s o1 \<and> fst o1 < scale_down_rps s"

definition cooling :: "autoscaler_settings \<Rightarrow> policy_state \<Rightarrow> real \<Rightarrow> bool" where
  "cooling s st now \<longleftrightarrow> now - last_action_at st < cooldown_seconds s"

lemma decide_action:
  "decide s st r a b now = (d, st') \<Longrightarrow>
     (dc_action d = Up \<longleftrightarrow> \<not> cooling s st now \<and> high_load s (a, b) \<and> r < max_replicas s \<and> sustain_up s \<le> up_streak st + 1)
   \<and> (dc_action d = Down \<longleftrightarrow> \<not> cooling s st now \<and> low_load s (a, b) \<and> min_replicas s < r \<and> sustain_down s \<le> down_streak st + 1)"
  by (auto simp: decide_def Let_def cooling_def high_load_def low_load_def not_less not_le split: if_splits)

lemma decide_cooling: "cooling s st now \<Longrightarrow> dc_action (fst (decide s st r a b now)) = Hold \<and> snd (decide s st r a b now) = st"
  by (simp add: decide_def cooling_def Let_def)

lemma decide_hold_streaks:
  "decide s st r a b now = (d, st') \<Longrightarrow> dc_action d = Hold \<Longrightarrow> \<not> cooling s st now \<Longrightarrow>
     min_replicas s < r \<Longrightarrow> r < max_replicas s \<Longrightarrow>
     last_action_at st' = last_action_at st
   \<and> up_streak st' = (if high_load s (a, b) then up_streak st + 1 else 0)
   \<and> down_streak st' = (if low_load s (a, b) then down_streak st + 1 else 0)"
  by (auto simp: decide_def Let_def cooling_def high_load_def low_load_def reset_streaks_def split: if_splits)

text \<open>A run of decisions at a constant number of replicas.\<close>

fun decisions :: "autoscaler_settings \<Rightarrow> policy_state \<Rightarrow> int \<Rightarrow> (real \<times> real \<times> real) list \<Rightarrow> action list \<times> policy_state" where
  "decisions s st r [] = ([], st)"
| "decisions s st r ((now, a, b) # obs) =
     (case decide s st r a b now of
        (d, st') \<Rightarrow> (case decisions s st' r obs of (ds, st'') \<Rightarrow> (dc_action d # ds, st'')))"

lemma decisions_snoc:
  "decisions s st r (obs @ [(now, a, b)]) =
     (case decisions s st r obs of
        (ds, st') \<Rightarrow> (case decide s st' r a b now of (d, st'') \<Rightarrow> (ds @ [dc_action d], st'')))"
  by (induction obs arbitrary: st) (auto split: prod.split)

definition trailing :: "('a \<Rightarrow> bool) \<Rightarrow> 'a list \<Rightarrow> nat" where
  "trailing P xs = length (takeWhile P (rev xs))"

lemma trailing_snoc: "trailing P (xs @ [x]) = (if P x then trailing P xs + 1 else 0)"
  by (simp add: trailing_def)

lemma streaks_count:
  assumes st: "up_streak st = 0" "down_streak st = 0"
    and r: "min_replicas s < r" "r < max_replicas s"
    and cool: "\<forall>(now, a, b) \<in> set obs. \<not> cooling s st now"
    and run: "decisions s st r obs = (ds, st')" "set ds \<subseteq> {Hold}"
  shows "up_streak st' = int (trailing (\<lambda>(now, l). high_load s l) obs)
    \<and> down_streak st' = int (trailing (\<lambda>(now, l). low_load s l) obs) \<and> last_action_at st' = last_action_at st"
  using cool run
proof (induction obs arbitrary: ds st' rule: rev_induct)
  case Nil
  then show ?case using st by (simp add: trailing_def)
next
  case (snoc x obs)
  obtain now a b where x: "x = (now, a, b)" by (cases x)
  obtain ds1 st1 where run1: "decisions s st r obs = (ds1, st1)" by fastforce
  obtain d st2 where d: "decide s st1 r a b now = (d, st2)" by fastforce
  have ds: "ds = ds1 @ [dc_action d]" "st' = st2"
    using snoc.prems(2) run1 d by (auto simp: x decisions_snoc)
  then have ih: "up_streak st1 = int (trailing (\<lambda>(now, l). high_load s l) obs)"
    "down_streak st1 = int (trailing (\<lambda>(now, l). low_load s l) obs)" "last_action_at st1 = last_action_at st"
    using snoc.IH [OF _ run1] snoc.prems(1,3) by auto
  have "\<not> cooling s st1 now" using snoc.prems(1) ih(3) by (simp add: x cooling_def)
  moreover have "dc_action d = Hold" using snoc.prems(3) ds by simp
  ultimately show ?case using decide_hold_streaks [OF d _ _ r] ih ds(2)
    by (simp add: x trailing_snoc)
qed

text \<open>C13: After any run of observations without an action, outside the cooldown, the next observation scales up
  exactly if it is an overload and, with it, as many consecutive observations as \<open>sustain_up\<close> asks for
  were; and down exactly if it completes \<open>sustain_down\<close> consecutive underloads. One observation of
  another kind starts the count again.\<close>

theorem acts_exactly_when_sustained:
  assumes st: "up_streak st = 0" "down_streak st = 0"
    and r: "min_replicas s < r" "r < max_replicas s"
    and cool: "\<forall>(now, a, b) \<in> set (obs @ [(now, a, b)]). \<not> cooling s st now"
    and run: "decisions s st r obs = (ds, st')" "set ds \<subseteq> {Hold}"
    and d: "decide s st' r a b now = (d, st'')"
  shows "(dc_action d = Up \<longleftrightarrow> high_load s (a, b) \<and>
        sustain_up s \<le> int (trailing (\<lambda>(now, l). high_load s l) (obs @ [(now, a, b)])))
    \<and> (dc_action d = Down \<longleftrightarrow> low_load s (a, b) \<and>
        sustain_down s \<le> int (trailing (\<lambda>(now, l). low_load s l) (obs @ [(now, a, b)])))"
proof -
  note c = streaks_count [OF st r _ run]
  have c': "up_streak st' = int (trailing (\<lambda>(now, l). high_load s l) obs)"
    "down_streak st' = int (trailing (\<lambda>(now, l). low_load s l) obs)" "last_action_at st' = last_action_at st"
    using c cool by auto
  have "\<not> cooling s st' now" using cool c'(3) by (simp add: cooling_def)
  then show ?thesis using decide_action [OF d] c' r by (auto simp: trailing_snoc)
qed

lemma autoscaler_defaults [simp]:
  "sustain_up default_autoscaler = 3" "sustain_down default_autoscaler = 6" "scale_up_rps default_autoscaler = 20"
  "scale_down_rps default_autoscaler = 5" "error_rate_threshold default_autoscaler = 5/100"
  "cooldown_seconds default_autoscaler = 60" "min_replicas default_autoscaler = 1" "max_replicas default_autoscaler = 6"
  "interval_seconds default_autoscaler = 5" "target_service default_autoscaler = ''service-template''"
  by (simp_all add: default_autoscaler_def autoscaler_settings.defs default_settings_def settings.defs)

lemma acts_exactly_when_sustained_witness:
  "dc_action (fst (decide default_autoscaler (snd (decisions default_autoscaler fresh_policy 2 [(100, 30, 0), (105, 30, 0)])) 2 30 0 110)) = Up"
proof -
  let ?obs = "[(100, 30, 0), (105, 30, 0)] :: (real \<times> real \<times> real) list"
  have run: "decisions default_autoscaler fresh_policy 2 ?obs = ([Hold, Hold], snd (decisions default_autoscaler fresh_policy 2 ?obs))"
    by (simp add: decide_def fresh_policy_def)
  have "up_streak fresh_policy = 0" "down_streak fresh_policy = 0" "min_replicas default_autoscaler < 2"
    "2 < max_replicas default_autoscaler"
    "\<forall>(now, a, b) \<in> set (?obs @ [(110, 30, 0)]). \<not> cooling default_autoscaler fresh_policy now"
    by (simp_all add: fresh_policy_def cooling_def)
  from acts_exactly_when_sustained [OF this run _ surjective_pairing]
  show ?thesis by (simp add: high_load_def trailing_def)
qed

subsection \<open>The controller's bounds\<close>

lemma per_instance_0: "per_instance 0 n = 0"
  by (simp add: per_instance_def)

lemma tick_eq:
  assumes "target_url_list s \<noteq> []" "scrape get (target_service s) (target_url_list s) no_sample = Inr totals"
    and "compute_rps (c_prev c) totals (interval_seconds s) = (rps, er)"
    and "decide s (c_state c) (c_replicas c) (per_instance rps (c_replicas c)) er now = (d, st)"
    and "c1 = c\<lparr>c_prev := Some totals, c_state := st, c_decisions := c_decisions c @ [dc_action d]\<rparr>"
  shows "tick s set_replicas get now c k =
      (case dc_action d of
         Up \<Rightarrow> apply_target set_replicas (target_service s) (min (c_replicas c + 1) (max_replicas s)) c1 k
       | Down \<Rightarrow> apply_target set_replicas (target_service s) (max (c_replicas c - 1) (min_replicas s)) c1 k
       | Hold \<Rightarrow> (None, c1, k))"
  unfolding tick_def Let_def assms(5) using assms(1-4) by simp

lemma apply_target_cases:
  "apply_target set_replicas service t c k = (e, c', k') \<Longrightarrow>
     \<exists>x. set_replicas service t k = (x, k') \<and> c_replicas c' = (if x = None then t else c_replicas c)"
  by (auto simp: apply_target_def split: prod.splits option.splits)

lemma tick_cases:
  assumes "tick s set_replicas get now c k = (e, c', k')"
  shows "(c_replicas c' = c_replicas c \<and> k' = k) \<or>
    (\<exists>t x. set_replicas (target_service s) t k = (x, k') \<and> c_replicas c' = (if x = None then t else c_replicas c)
       \<and> (t = c_replicas c + 1 \<and> t \<le> max_replicas s \<or> t = c_replicas c - 1 \<and> min_replicas s \<le> t))"
proof (cases "target_url_list s = [] \<or> (\<exists>x. scrape get (target_service s) (target_url_list s) no_sample = Inl x)")
  case True
  then obtain x where "tick s set_replicas get now c k = (x, c, k)"
  proof (elim disjE exE)
    assume "target_url_list s = []"
    from that [of None] this show thesis by (simp add: tick_def)
  next
    fix x assume "scrape get (target_service s) (target_url_list s) no_sample = Inl x"
    from that [of "if target_url_list s = [] then None else Some x"] this show thesis by (simp add: tick_def)
  qed
  then show ?thesis using assms by simp
next
  case False
  then obtain totals where totals: "scrape get (target_service s) (target_url_list s) no_sample = Inr totals"
    and urls: "target_url_list s \<noteq> []" by (metis sum.exhaust)
  obtain rps er where ce: "compute_rps (c_prev c) totals (interval_seconds s) = (rps, er)" by fastforce
  obtain d st where d: "decide s (c_state c) (c_replicas c) (per_instance rps (c_replicas c)) er now = (d, st)" by fastforce
  define c1 where "c1 = c\<lparr>c_prev := Some totals, c_state := st, c_decisions := c_decisions c @ [dc_action d]\<rparr>"
  note t = tick_eq [OF urls totals ce d c1_def, of set_replicas k]
  have r1: "c_replicas c1 = c_replicas c" by (simp add: c1_def)
  show ?thesis
  proof (cases "dc_action d")
    case Up
    then have l: "c_replicas c < max_replicas s" using decide_action [OF d] by simp
    then have "min (c_replicas c + 1) (max_replicas s) = c_replicas c + 1" by simp
    then have "apply_target set_replicas (target_service s) (c_replicas c + 1) c1 k = (e, c', k')"
      using t Up assms by simp
    then obtain x where "set_replicas (target_service s) (c_replicas c + 1) k = (x, k')"
      "c_replicas c' = (if x = None then c_replicas c + 1 else c_replicas c)"
      using apply_target_cases [of set_replicas "target_service s" "c_replicas c + 1" c1 k e c' k'] r1 by auto
    then show ?thesis using l by (intro disjI2 exI [of _ "c_replicas c + 1"] exI [of _ x]) simp
  next
    case Down
    then have l: "min_replicas s < c_replicas c" using decide_action [OF d] by simp
    then have "max (c_replicas c - 1) (min_replicas s) = c_replicas c - 1" by simp
    then have "apply_target set_replicas (target_service s) (c_replicas c - 1) c1 k = (e, c', k')"
      using t Down assms by simp
    then obtain x where "set_replicas (target_service s) (c_replicas c - 1) k = (x, k')"
      "c_replicas c' = (if x = None then c_replicas c - 1 else c_replicas c)"
      using apply_target_cases [of set_replicas "target_service s" "c_replicas c - 1" c1 k e c' k'] r1 by auto
    then show ?thesis using l by (intro disjI2 exI [of _ "c_replicas c - 1"] exI [of _ x]) simp
  next
    case Hold
    then show ?thesis using assms t r1 by simp
  qed
qed

text \<open>A scaler that keeps the list of the counts it was asked for, and fails when \<open>broken\<close> says so.\<close>

definition recording :: "(nat \<Rightarrow> exn option) \<Rightarrow> int list scaler" where
  "recording broken service n k = (broken (length k), k @ [n])"



lemma hold_keeps_last:
  "decide s st r a b now = (d, st') \<Longrightarrow> dc_action d = Hold \<Longrightarrow> last_action_at st' = last_action_at st"
  by (auto simp: decide_def Let_def reset_streaks_def split: if_splits)

lemma holds_keep_last:
  "decisions s st r obs = (ds, st') \<Longrightarrow> set ds \<subseteq> {Hold} \<Longrightarrow> last_action_at st' = last_action_at st"
  by (induction obs arbitrary: st ds) (auto split: prod.splits dest!: hold_keeps_last)

lemma act_sets_last:
  "decide s st r a b now = (d, st') \<Longrightarrow> dc_action d \<noteq> Hold \<Longrightarrow>
     cooldown_seconds s \<le> now - last_action_at st \<and> last_action_at st' = now"
  by (auto simp: decide_def Let_def split: if_splits)

text \<open>Two actions are never closer than the cooldown, whatever is observed between them.\<close>

theorem cooldown_separates_actions:
  assumes "decide s st r a b now = (d, st1)" "dc_action d \<noteq> Hold"
    and "decisions s st1 r' obs = (ds, st2)" "set ds \<subseteq> {Hold}"
    and "decide s st2 r' a' b' now' = (d', st3)" "dc_action d' \<noteq> Hold"
  shows "cooldown_seconds s \<le> now' - now"
  using act_sets_last [OF assms(1,2)] holds_keep_last [OF assms(3,4)] act_sets_last [OF assms(5,6)] by simp

lemma cooldown_separates_actions_witness:
  "cooldown_seconds default_autoscaler \<le> 200 - (100 :: real)"
proof -
  let ?st = "\<lparr>up_streak = 2, down_streak = 0, last_action_at = 0\<rparr> :: policy_state"
  let ?st1 = "\<lparr>up_streak = 0, down_streak = 0, last_action_at = 100\<rparr> :: policy_state"
  let ?obs = "[(105, 30, 0), (190, 30, 0), (195, 30, 0)] :: (real \<times> real \<times> real) list"
  have 1: "decide default_autoscaler ?st 2 30 0 100 = (\<lparr>dc_action = Up, dc_reason = Overload\<rparr>, ?st1)"
    by (simp add: decide_def)
  have 2: "decisions default_autoscaler ?st1 3 ?obs
      = ([Hold, Hold, Hold], \<lparr>up_streak = 2, down_streak = 0, last_action_at = 100\<rparr>)"
    by (simp add: decide_def)
  have 3: "decide default_autoscaler \<lparr>up_streak = 2, down_streak = 0, last_action_at = 100\<rparr> 3 30 0 200
      = (\<lparr>dc_action = Up, dc_reason = Overload\<rparr>, \<lparr>up_streak = 0, down_streak = 0, last_action_at = 200\<rparr>)"
    by (simp add: decide_def)
  show ?thesis by (rule cooldown_separates_actions [OF 1 _ 2 _ 3]) simp_all
qed

subsection \<open>Scraping\<close>

definition unreachable :: "(string \<Rightarrow> http_result) \<Rightarrow> bool" where
  "unreachable get \<longleftrightarrow> (\<forall>u. \<exists>m. get u = HTTPError m)"

lemma scrape_unreachable: "unreachable get \<Longrightarrow> scrape get service urls totals = Inr totals"
proof (induction urls)
  case Nil
  then show ?case by simp
next
  case (Cons u urls)
  then obtain m where "get (metrics_url u) = HTTPError m" unfolding unreachable_def by blast
  with Cons show ?case by simp
qed

definition prev_ok :: "controller \<Rightarrow> bool" where
  "prev_ok c \<longleftrightarrow> (case c_prev c of None \<Rightarrow> True | Some p \<Rightarrow> 0 \<le> requests_total p \<and> (requests_total p = 0 \<longrightarrow> error_total p = 0))"

lemma compute_rps_outage: "prev_ok c \<Longrightarrow> compute_rps (c_prev c) no_sample w = (0, 0)"
  by (auto simp: prev_ok_def compute_rps_def no_sample_def Let_def split: option.splits)

lemma outage_tick:
  assumes "unreachable get" "prev_ok c" "target_url_list s \<noteq> []"
    and pos: "0 \<le> scale_up_rps s" "0 \<le> error_rate_threshold s" "0 < scale_down_rps s"
    and cool: "\<not> cooling s (c_state c) now" and r: "min_replicas s < c_replicas c"
  defines "n \<equiv> down_streak (c_state c) + 1"
  shows "if n < sustain_down s
    then \<exists>c1. tick s set_replicas get now c k = (None, c1, k) \<and> prev_ok c1 \<and> c_replicas c1 = c_replicas c
           \<and> down_streak (c_state c1) = n \<and> last_action_at (c_state c1) = last_action_at (c_state c)
    else \<exists>c1. tick s set_replicas get now c k
           = apply_target set_replicas (target_service s) (c_replicas c - 1) c1 k \<and> c_replicas c1 = c_replicas c"
proof -
  have sc: "scrape get (target_service s) (target_url_list s) no_sample = Inr no_sample"
    by (rule scrape_unreachable [OF assms(1)])
  obtain d st where d: "decide s (c_state c) (c_replicas c) 0 0 now = (d, st)" by fastforce
  have low: "low_load s (0, 0)" "\<not> high_load s (0, 0)" using pos by (simp_all add: low_load_def high_load_def)
  define c1 where "c1 = c\<lparr>c_prev := Some no_sample, c_state := st, c_decisions := c_decisions c @ [dc_action d]\<rparr>"
  have "decide s (c_state c) (c_replicas c) (per_instance 0 (c_replicas c)) 0 now = (d, st)"
    using d by (simp add: per_instance_0)
  note t = tick_eq [OF assms(3) sc compute_rps_outage [OF assms(2)] this c1_def, of set_replicas k]
  have c1: "prev_ok c1" "c_replicas c1 = c_replicas c" "c_state c1 = st"
    by (simp_all add: c1_def prev_ok_def no_sample_def)
  have nup: "dc_action d \<noteq> Up" using decide_action [OF d] low by simp
  show ?thesis
  proof (cases "n < sustain_down s")
    case True
    then have "dc_action d = Hold"
      using decide_action [OF d] nup by (cases "dc_action d") (auto simp: n_def)
    moreover have "down_streak st = n \<and> last_action_at st = last_action_at (c_state c)"
      using d low cool r True
      by (auto simp: decide_def Let_def low_load_def high_load_def cooling_def n_def split: if_splits)
    ultimately show ?thesis using True t c1 by simp
  next
    case False
    then have "dc_action d = Down" using decide_action [OF d] low cool r by (simp add: n_def)
    moreover have "max (c_replicas c - 1) (min_replicas s) = c_replicas c - 1" using r by simp
    ultimately show ?thesis using False t c1(2) by auto
  qed
qed

text \<open>If no target can be scraped for \<open>sustain_down\<close> ticks, the controller takes the silence for idleness
  and scales down, whatever the load was: an outage of the metrics removes replicas.\<close>

theorem outage_scales_down:
  assumes out: "\<forall>(now, get) \<in> set ts. unreachable get \<and> \<not> cooling s (c_state c) now"
    and n: "int (length ts) = sustain_down s" "0 < sustain_down s" "down_streak (c_state c) = 0"
    and s: "prev_ok c" "target_url_list s \<noteq> []" "0 \<le> scale_up_rps s" "0 \<le> error_rate_threshold s" "0 < scale_down_rps s"
    and r: "min_replicas s < c_replicas c"
    and works: "\<forall>k. fst (set_replicas (target_service s) (c_replicas c - 1) k) = None"
  shows "c_replicas (fst (run_loop s set_replicas ts c k)) = c_replicas c - 1"
proof -
  have gen: "\<forall>(now, get) \<in> set us. unreachable get \<and> \<not> cooling s (c_state c0) now \<Longrightarrow>
      us \<noteq> [] \<Longrightarrow> down_streak (c_state c0) + int (length us) = sustain_down s \<Longrightarrow> prev_ok c0 \<Longrightarrow>
      c_replicas c0 = c_replicas c \<Longrightarrow> c_replicas (fst (run_loop s set_replicas us c0 k0)) = c_replicas c - 1" for us c0 k0
  proof (induction us arbitrary: c0 k0)
    case Nil
    then show ?case by simp
  next
    case (Cons x us)
    obtain now get where x: "x = (now, get)" by fastforce
    have h: "unreachable get" "\<not> cooling s (c_state c0) now" "min_replicas s < c_replicas c0"
      using Cons.prems(1,5) x r by auto
    note tick = outage_tick [OF h(1) Cons.prems(4) s(2-5) h(2,3), of set_replicas k0]
    show ?case
    proof (cases "us = []")
      case True
      then have "\<not> down_streak (c_state c0) + 1 < sustain_down s" using Cons.prems(3) by simp
      then obtain c1 where "tick s set_replicas get now c0 k0
          = apply_target set_replicas (target_service s) (c_replicas c - 1) c1 k0" using tick Cons.prems(5) by auto
      then show ?thesis using True x works
        by (auto simp: apply_target_def split: prod.splits option.splits)
          (metis fst_conv option.distinct(1))
    next
      case False
      then have "down_streak (c_state c0) + 1 < sustain_down s" using Cons.prems(3) by (cases us) auto
      then obtain c1 where c1: "tick s set_replicas get now c0 k0 = (None, c1, k0)" "prev_ok c1"
        "c_replicas c1 = c_replicas c" "down_streak (c_state c1) = down_streak (c_state c0) + 1"
        "last_action_at (c_state c1) = last_action_at (c_state c0)"
        using tick Cons.prems(5) by auto
      have "\<forall>(now, get) \<in> set us. unreachable get \<and> \<not> cooling s (c_state c1) now"
        using Cons.prems(1) c1(5) by (auto simp: cooling_def)
      then show ?thesis using Cons.IH [of c1 k0] False c1 Cons.prems(3) x by simp
    qed
  qed
  have "ts \<noteq> []" using n by auto
  then show ?thesis using gen [of ts c k] out n s(1) by simp
qed

definition scaled_up :: controller where
  "scaled_up = \<lparr>c_prev = Some \<lparr>requests_total = 9000, error_total = 10\<rparr>, c_state = fresh_policy, c_replicas = 4, c_decisions = []\<rparr>"

lemma outage_scales_down_witness:
  "c_replicas (fst (run_loop (default_autoscaler\<lparr>target_urls := ''http://h:8100''\<rparr>) noop_scaler
      (map (\<lambda>t. (t, \<lambda>u. HTTPError ''timeout'')) [100, 105, 110, 115, 120, 125]) scaled_up ())) = 3"
proof -
  let ?s = "default_autoscaler\<lparr>target_urls := ''http://h:8100''\<rparr>"
  have f: "sustain_down ?s = 6" "scale_up_rps ?s = 20" "scale_down_rps ?s = 5" "error_rate_threshold ?s = 5/100"
    "min_replicas ?s = 1" "cooldown_seconds ?s = 60" by simp_all
  have "target_url_list ?s = [''http://h:8100'']" by code_simp
  then show ?thesis
    using outage_scales_down [where s = ?s and c = scaled_up and set_replicas = noop_scaler and k = "()"
        and ts = "map (\<lambda>t. (t, \<lambda>u. HTTPError ''timeout'')) [100, 105, 110, 115, 120, 125]"] f
    by (simp add: scaled_up_def prev_ok_def unreachable_def cooling_def fresh_policy_def noop_scaler_def)
qed

text \<open>One malformed line in the metrics of one target (a sample without a value, a brace that does not
  close) ends the tick with \<open>ValueError\<close> before anything is decided: the controller does not change.\<close>

theorem malformed_metrics_stop_the_tick:
  assumes "target_url_list s = pre @ url # post" "\<forall>u \<in> set pre. \<exists>m. get (metrics_url u) = HTTPError m"
    and "get (metrics_url url) = Response r" "ur_status r = 200" "parse_prometheus_text (ur_content r) = None"
  shows "tick s set_replicas get now c k = (Some (ValueError ''not enough values to unpack''), c, k)"
proof -
  have "scrape get service (pre @ url # post) totals = Inl (ValueError ''not enough values to unpack'')" for service totals
    using assms(2-5) by (induction pre) auto
  then show ?thesis using assms(1) by (simp add: tick_def)
qed

text \<open>A target URL that httpx rejects does the same: \<open>InvalidURL\<close> is no \<open>HTTPError\<close>, so the whole tick is lost
  and not only this target, in every round.\<close>

theorem malformed_target_stops_the_tick:
  assumes "target_url_list s = pre @ url # post" "\<forall>u \<in> set pre. \<exists>m. get (metrics_url u) = HTTPError m"
    and "get (metrics_url url) = Uncaught e"
  shows "tick s set_replicas get now c k = (Some e, c, k)"
proof -
  have "scrape get service (pre @ url # post) totals = Inl e" for service totals
    using assms(2,3) by (induction pre) auto
  then show ?thesis using assms(1) by (simp add: tick_def)
qed

lemma malformed_metrics_stop_the_tick_witness:
  "tick (default_autoscaler\<lparr>target_urls := ''http://h:8100''\<rparr>) noop_scaler
     (\<lambda>u. Response \<lparr>ur_status = 200, ur_headers = [], ur_content = ''garbage''\<rparr>) 100 scaled_up ()
   = (Some (ValueError ''not enough values to unpack''), scaled_up, ())"
proof -
  have "target_url_list (default_autoscaler\<lparr>target_urls := ''http://h:8100''\<rparr>) = [] @ ''http://h:8100'' # []" by code_simp
  moreover have "parse_prometheus_text ''garbage'' = None" by code_simp
  ultimately show ?thesis by (intro malformed_metrics_stop_the_tick) auto
qed

end
