(* ===== verification/Sampling.thy ===== *)
theory Sampling
  imports Middleware Autoscaler
begin

section \<open>From the metrics middleware to the autoscaler's sample\<close>

text \<open>
  \<open>kernel/metrics.py\<close> counts the requests of a service, \<open>autoscaler/metrics.py\<close> reads the counters back from the
  text that \<open>generate_latest\<close> of the Prometheus client writes. The client is outside: what the parser relies on
  is the predicate \<open>exposition\<close>, the documented text format (one line per counter, labels sorted by name and quoted, with
  backslash, quote and line feed escaped; lines of other metrics and comments around).
\<close>

subsection \<open>The text format\<close>

fun prom_escape :: "string \<Rightarrow> string" where
  "prom_escape [] = []"
| "prom_escape (c # cs) =
     (if c = CHR 0x5C then [CHR 0x5C, CHR 0x5C]
      else if c = quote_char then [CHR 0x5C, quote_char]
      else if c = CHR 0x0A then [CHR 0x5C, CHR ''n'']
      else [c]) @ prom_escape cs"

type_synonym labels = "string \<times> string \<times> string \<times> string"

definition counter_labels :: "labels \<Rightarrow> string" where
  "counter_labels l =
     (case l of (service, meth, path, status) \<Rightarrow>
        ''method='' @ quote_char # prom_escape meth @ quote_char #
        '',path='' @ quote_char # prom_escape path @ quote_char #
        '',service='' @ quote_char # prom_escape service @ quote_char #
        '',status='' @ quote_char # prom_escape status @ [quote_char])"

definition counter_line :: "(nat \<Rightarrow> string) \<Rightarrow> labels \<times> nat \<Rightarrow> string" where
  "counter_line show_count c =
     ''http_requests_total'' @ CHR ''{'' # counter_labels (fst c) @ CHR ''}'' # CHR '' '' # show_count (snd c)"

definition one_line :: "string \<Rightarrow> bool" where
  "one_line l \<longleftrightarrow> list_all (\<lambda>c. \<not> line_end c) l"

definition unlines :: "string list \<Rightarrow> string" where
  "unlines ls = concat (map (\<lambda>l. l @ [CHR 0x0A]) ls)"

text \<open>A comment, or a sample of another metric.\<close>

definition word :: "string \<Rightarrow> bool" where
  "word w \<longleftrightarrow> w \<noteq> [] \<and> list_all (\<lambda>c. \<not> py_space c \<and> c \<notin> {CHR ''{'', CHR ''}'', CHR ''#''}) w"

definition other_line :: "string \<Rightarrow> bool" where
  "other_line l \<longleftrightarrow> one_line l \<and>
     ((\<exists>t. l = CHR ''#'' # t)
      \<or> (\<exists>name v. l = name @ CHR '' '' # v \<and> word name \<and> word v \<and> name \<noteq> ''http_requests_total'')
      \<or> (\<exists>name ls v. l = name @ CHR ''{'' # ls @ CHR ''}'' # CHR '' '' # v \<and> word name \<and> word v
           \<and> name \<noteq> ''http_requests_total''))"

definition exposition :: "(nat \<Rightarrow> string) \<Rightarrow> metrics \<Rightarrow> string \<Rightarrow> bool" where
  "exposition show_count m text \<longleftrightarrow>
     (\<exists>pre post. text = unlines (pre @ map (counter_line show_count) (m_total m) @ post) \<and>
        (\<forall>l \<in> set (pre @ post). other_line l)) \<and>
     (\<forall>(l, n) \<in> set (m_total m). py_float (show_count n) = Some (real n) \<and> word (show_count n))"

subsection \<open>Lines\<close>

lemma line_end_space: "line_end c \<Longrightarrow> py_space c"
  by (auto simp: line_end_def py_space_def Let_def)

lemma word_one_line: "word w \<Longrightarrow> one_line w"
  using line_end_space by (auto simp: word_def one_line_def list_all_iff)

lemma splitlines_append: "one_line l \<Longrightarrow> splitlines (l @ CHR 0x0A # t) = l # splitlines t"
  by (induction l) (simp_all add: one_line_def line_end_def)

lemma splitlines_unlines: "\<forall>l \<in> set ls. one_line l \<Longrightarrow> splitlines (unlines ls) = ls"
proof (induction ls)
  case Nil
  then show ?case by (simp add: unlines_def)
next
  case (Cons l ls)
  then have "splitlines (l @ CHR 0x0A # unlines ls) = l # splitlines (unlines ls)"
    by (intro splitlines_append) simp
  with Cons show ?case by (simp add: unlines_def)
qed

lemma split_once_first: "d \<notin> set a \<Longrightarrow> split_once d (a @ d # b) = Some (a, b)"
proof -
  assume "d \<notin> set a"
  then have "\<forall>x \<in> set a. x \<noteq> d" by blast
  then show ?thesis by (simp add: split_once_def takeWhile_append2 dropWhile_append2)
qed

lemma rsplit_once_last: "d \<notin> set b \<Longrightarrow> rsplit_once d (a @ d # b) = Some (a, b)"
  using split_once_first [of d "rev b" "rev a"] by (simp add: rsplit_once_def)

lemma strip_word: "word w \<Longrightarrow> strip w = w"
  using hd_in_set [of w] last_in_set [of w] by (intro strip_id) (auto simp: word_def list_all_iff)

lemma strip_space: "strip (CHR '' '' # w) = strip w"
  by (simp add: strip_def lstrip_def py_space_def)

lemma strip_line: "word a \<Longrightarrow> word b \<Longrightarrow> strip (a @ t @ b) = a @ t @ b"
  using hd_in_set [of a] last_in_set [of b]
  by (intro strip_id) (auto simp: word_def list_all_iff)

text \<open>A line with a name, labels and a value.\<close>

lemma parse_labelled:
  assumes n: "word name" and v: "word v"
  shows "parse_line (name @ CHR ''{'' # ls @ CHR ''}'' # CHR '' '' # v) r =
    Some (case py_float v of None \<Rightarrow> r
          | Some x \<Rightarrow> AList.update name (AList.update (strip ls) x (dict_get [] name (dict_setdefault name [] r)))
              (dict_setdefault name [] r))"
proof -
  let ?l = "name @ CHR ''{'' # ls @ CHR ''}'' # CHR '' '' # v"
  have s: "strip ?l = ?l" using strip_line [OF n v, of "CHR ''{'' # ls @ ''} ''"] by (simp only: append.simps append_assoc)
  obtain c cs where c: "name = c # cs" "c \<noteq> CHR ''#''" using n by (cases name) (auto simp: word_def)
  have h: "\<not> starts_with ''#'' ?l" "?l \<noteq> []" using c(2) by (simp_all add: c(1))
  have 1: "split_once CHR ''{'' ?l = Some (name, ls @ CHR ''}'' # CHR '' '' # v)"
    by (rule split_once_first) (use n in \<open>auto simp: word_def list_all_iff\<close>)
  have 2: "rsplit_once CHR ''}'' (ls @ CHR ''}'' # CHR '' '' # v) = Some (ls, CHR '' '' # v)"
    by (rule rsplit_once_last) (use v in \<open>auto simp: word_def list_all_iff\<close>)
  have m: "CHR ''{'' \<in> set ?l" by simp
  have f: "strip name = name" "strip (CHR '' '' # v) = v" using n v by (simp_all add: strip_word strip_space)
  show ?thesis
    by (simp only: parse_line_def s Let_def h m 1 2 f simp_thms if_True if_False option.case option.map prod.case)
qed

lemma word_blank: "word w \<Longrightarrow> CHR '' '' \<notin> set w"
proof
  assume "word w" "CHR '' '' \<in> set w"
  then have "\<not> py_space CHR '' ''" by (auto simp: word_def list_all_iff)
  then show False by (simp add: py_space_def)
qed

lemma parse_comment: "parse_line (CHR ''#'' # t) r = Some r"
proof -
  have "lstrip (CHR ''#'' # t) = CHR ''#'' # t" by (rule lstrip_id) (simp add: py_space_def)
  then have "strip (CHR ''#'' # t) = rstrip (CHR ''#'' # t)" by (simp only: strip_def)
  moreover obtain u where "CHR ''#'' # t = rstrip (CHR ''#'' # t) @ u" using rstrip_prefix by blast
  ultimately have "strip (CHR ''#'' # t) = [] \<or> starts_with ''#'' (strip (CHR ''#'' # t))"
    by (cases "rstrip (CHR ''#'' # t)") auto
  then show ?thesis by (simp only: parse_line_def Let_def if_True)
qed

lemma parse_plain:
  assumes n: "word name" and v: "word v"
  shows "parse_line (name @ CHR '' '' # v) r =
    Some (case py_float v of None \<Rightarrow> r
          | Some x \<Rightarrow> AList.update name (AList.update [] x (dict_get [] name (dict_setdefault name [] r)))
              (dict_setdefault name [] r))"
proof -
  let ?l = "name @ CHR '' '' # v"
  have s: "strip ?l = ?l" using strip_line [OF n v, of "'' ''"] by (simp only: append.simps)
  obtain c cs where c: "name = c # cs" "c \<noteq> CHR ''#''" using n by (cases name) (auto simp: word_def)
  have h: "\<not> starts_with ''#'' ?l" "?l \<noteq> []" using c(2) by (simp_all add: c(1))
  have m: "CHR ''{'' \<notin> set ?l" using n v by (auto simp: word_def list_all_iff)
  have 1: "rsplit_once CHR '' '' ?l = Some (name, v)"
    by (rule rsplit_once_last) (rule word_blank [OF v])
  have f: "strip name = name" "strip v = v" "strip [] = []"
    by (simp_all only: strip_word n v) (simp add: strip_def lstrip_def rstrip_def)
  show ?thesis
    by (simp only: parse_line_def s Let_def h m 1 f simp_thms if_True if_False option.case option.map prod.case)
qed

lemma dict_get_setdefault: "dict_get [] k (dict_setdefault k' [] r) = dict_get [] k r"
  by (simp add: dict_get_def dict_setdefault_def map_add_def split: option.split)

lemma parse_other:
  assumes "other_line l"
  shows "\<exists>r'. parse_line l r = Some r' \<and> dict_get [] ''http_requests_total'' r' = dict_get [] ''http_requests_total'' r"
proof -
  consider (comment) t where "l = CHR ''#'' # t"
    | (plain) name v where "l = name @ CHR '' '' # v" "word name" "word v" "name \<noteq> ''http_requests_total''"
    | (labels) name ls v where "l = name @ CHR ''{'' # ls @ CHR ''}'' # CHR '' '' # v" "word name" "word v"
        "name \<noteq> ''http_requests_total''"
    using assms unfolding other_line_def by blast
  then show ?thesis
  proof cases
    case comment
    then show ?thesis by (simp add: parse_comment)
  next
    case plain
    then show ?thesis
      unfolding plain(1) parse_plain [OF plain(2,3)] using plain(4)
      by (cases "py_float v") (simp_all add: dict_get_setdefault)
  next
    case labels
    then show ?thesis
      unfolding labels(1) parse_labelled [OF labels(2,3)] using labels(4)
      by (cases "py_float v") (simp_all add: dict_get_setdefault)
  qed
qed
subsection \<open>Labels\<close>

lemma escape_delim:
  "prom_escape m @ quote_char # r = prom_escape m' @ quote_char # r' \<longleftrightarrow> m = m' \<and> r = r'"
proof (induction m arbitrary: m')
  case Nil
  show ?case by (cases m') auto
next
  case (Cons c m)
  show ?case by (cases m') (auto simp: Cons.IH)
qed

lemma counter_labels_inj: "counter_labels l = counter_labels l' \<longleftrightarrow> l = l'"
proof -
  have last: "prom_escape s = prom_escape s' \<longleftrightarrow> s = s'" for s s'
    using escape_delim [of s "[]" s' "[]"] by simp
  obtain a b c d a' b' c' d' where "l = (a, b, c, d)" "l' = (a', b', c', d')"
    by (cases l, cases l') blast
  then show ?thesis by (auto simp: counter_labels_def escape_delim last)
qed

text \<open>
  Where a pattern \<open>w="\<close> followed by a text in \<open>R\<close> occurs: only at the start of a label, since an escaped value holds no
  bare quote, and after its closing quote comes a comma or the end, with which no text in \<open>R\<close> begins.
\<close>

definition at_key :: "string \<Rightarrow> (string \<Rightarrow> bool) \<Rightarrow> string \<Rightarrow> bool" where
  "at_key w R s \<longleftrightarrow> (\<exists>r. s = w @ CHR ''='' # quote_char # r \<and> R r)"

fun occurs :: "(string \<Rightarrow> bool) \<Rightarrow> string \<Rightarrow> bool" where
  "occurs Q [] \<longleftrightarrow> Q []"
| "occurs Q (c # cs) \<longleftrightarrow> Q (c # cs) \<or> occurs Q cs"

definition closed_value :: "string \<Rightarrow> bool" where
  "closed_value v \<longleftrightarrow> \<not> contains (CHR ''='' # [quote_char]) v"

definition no_comma :: "(string \<Rightarrow> bool) \<Rightarrow> bool" where
  "no_comma R \<longleftrightarrow> \<not> R [] \<and> (\<forall>r. \<not> R (CHR '','' # r))"

lemma contains_Cons_iff: "contains n (c # cs) \<longleftrightarrow> starts_with n (c # cs) \<or> contains n cs"
  by simp

lemma escape_closed: "closed_value (prom_escape v)"
proof -
  have hd: "\<not> starts_with [quote_char] (prom_escape v)" for v by (cases v) auto
  show ?thesis unfolding closed_value_def
    by (induction v) (use hd in auto)
qed

lemma at_key_value:
  assumes v: "closed_value v" and w: "quote_char \<notin> set w" and R: "no_comma R" and rest: "rest = [] \<or> hd rest = CHR '',''"
  shows "\<not> at_key w R (v @ quote_char # rest)"
proof
  assume "at_key w R (v @ quote_char # rest)"
  then obtain r where r: "v @ quote_char # rest = (w @ [CHR ''='']) @ quote_char # r" "R r" by (auto simp: at_key_def)
  then consider (inside) us where "v = w @ CHR ''='' # quote_char # us" | (closing) "v = w @ [CHR ''='']" "r = rest"
    | (key) us where "w @ [CHR ''=''] = v @ quote_char # us"
    unfolding append_eq_append_conv2
    by (auto simp: Cons_eq_append_conv append_eq_Cons_conv)
  then show False
  proof cases
    case inside
    then show False using v contains_append_left [OF contains_starts, of "CHR ''='' # [quote_char]" "CHR ''='' # quote_char # us" w]
      by (simp add: closed_value_def)
  next
    case closing
    then show False using r(2) R rest by (cases rest) (auto simp: no_comma_def)
  next
    case key
    then have "quote_char \<in> set (w @ [CHR ''=''])" by simp
    then show False using w by simp
  qed
qed

lemma closed_tail: "closed_value (c # v) \<Longrightarrow> closed_value v"
  by (simp add: closed_value_def)

lemma occurs_value:
  assumes "closed_value v" "quote_char \<notin> set w" "no_comma R" "rest = [] \<or> hd rest = CHR '',''"
  shows "occurs (at_key w R) (v @ quote_char # rest) \<longleftrightarrow> occurs (at_key w R) rest"
  using assms
proof (induction v)
  case Nil
  then show ?case using at_key_value [of "[]" w R rest] by simp
next
  case (Cons c v)
  then show ?case using at_key_value [of "c # v" w R rest] closed_tail by simp
qed

lemma at_key_Cons:
  "at_key [] R s \<longleftrightarrow> (\<exists>r. s = CHR ''='' # quote_char # r \<and> R r)"
  "at_key (a # w) R [] \<longleftrightarrow> False"
  "at_key (a # w) R (b # s) \<longleftrightarrow> a = b \<and> at_key w R s"
  by (auto simp: at_key_def)

lemma occurs_labels:
  assumes R: "no_comma R"
  shows "occurs (at_key ''service'' R) (counter_labels (s, m, p, st)) \<longleftrightarrow>
      R (prom_escape s @ quote_char # '',status='' @ quote_char # prom_escape st @ [quote_char])"
    and "occurs (at_key ''status'' R) (counter_labels (s, m, p, st)) \<longleftrightarrow> R (prom_escape st @ [quote_char])"
  unfolding counter_labels_def
  by (simp_all add: occurs_value [OF escape_closed _ R] at_key_Cons)
definition plain_label :: "string \<Rightarrow> bool" where
  "plain_label s \<longleftrightarrow> list_all (\<lambda>c. c \<notin> {quote_char, CHR 0x5C, CHR '',''} \<and> \<not> line_end c) s"

definition is_5xx :: "string \<Rightarrow> bool" where
  "is_5xx st \<longleftrightarrow> (\<exists>a b. st = [CHR ''5'', a, b] \<and> digit a \<and> digit b)"

lemma escape_plain: "plain_label s \<Longrightarrow> prom_escape s = s"
  by (induction s) (auto simp: plain_label_def line_end_def)

lemma starts_with_iff: "starts_with p s \<longleftrightarrow> (\<exists>r. s = p @ r)"
  by (auto dest: starts_withE)

lemma contains_occurs: "contains (w @ CHR ''='' # quote_char # t) s \<longleftrightarrow> occurs (at_key w (starts_with t)) s"
proof (induction s)
  case Nil
  show ?case by (cases w) (simp_all add: at_key_def)
next
  case (Cons c s)
  have "starts_with (w @ CHR ''='' # quote_char # t) u \<longleftrightarrow> at_key w (starts_with t) u" for u
    by (auto simp: at_key_def starts_with_iff)
  with Cons show ?case by simp
qed

definition status_rest :: "string \<Rightarrow> bool" where
  "status_rest r \<longleftrightarrow> (\<exists>a b t. r = CHR ''5'' # a # b # quote_char # t \<and> digit a \<and> digit b)"

lemma status_5xx_occurs: "status_5xx s \<longleftrightarrow> occurs (at_key ''status'' status_rest) s"
proof (induction s)
  case Nil
  show ?case by (simp add: at_key_def)
next
  case (Cons c s)
  have "starts_with (''status='' @ [quote_char, CHR ''5'']) u
        \<and> (case drop 9 u of a # b # q # r \<Rightarrow> digit a \<and> digit b \<and> q = quote_char | _ \<Rightarrow> False)
      \<longleftrightarrow> at_key ''status'' status_rest u" (is "?L u \<longleftrightarrow> _") for u
  proof
    assume L: "?L u"
    then obtain r where r: "u = (''status='' @ [quote_char, CHR ''5'']) @ r" by (blast dest: starts_withE)
    then show "at_key ''status'' status_rest u" using L
      by (auto simp: at_key_def status_rest_def split: list.splits)
  next
    assume "at_key ''status'' status_rest u"
    then show "?L u" by (auto simp: at_key_def status_rest_def)
  qed
  with Cons show ?case by (simp only: status_5xx.simps occurs.simps)
qed

lemma service_label:
  assumes "plain_label s" "plain_label s'"
  shows "contains (''service='' @ quoted s) (counter_labels (s', m, p, st)) \<longleftrightarrow> s = s'"
proof -
  have q: "quote_char \<notin> set s" "quote_char \<notin> set s'" "CHR '','' \<notin> set s" using assms by (auto simp: plain_label_def list_all_iff)
  have R: "no_comma (starts_with (s @ [quote_char]))" using q(3) by (cases s) (auto simp: no_comma_def)
  have "starts_with (s @ [quote_char]) (s' @ quote_char # r) \<longleftrightarrow> s = s'" for r
    using q by (induction s arbitrary: s') (case_tac s'; auto)+
  then show ?thesis
    using contains_occurs [of "''service''" "s @ [quote_char]" "counter_labels (s', m, p, st)"] assms(2)
    by (simp add: quoted_def occurs_labels [OF R] escape_plain)
qed

lemma status_label:
  assumes "plain_label st"
  shows "status_5xx (counter_labels (s, m, p, st)) \<longleftrightarrow> is_5xx st"
proof -
  have q: "quote_char \<notin> set st" using assms by (auto simp: plain_label_def list_all_iff)
  have R: "no_comma status_rest" by (simp add: no_comma_def status_rest_def)
  have "status_rest (st @ [quote_char]) \<longleftrightarrow> is_5xx st"
  proof
    assume "status_rest (st @ [quote_char])"
    then obtain a b t where t: "st @ [quote_char] = CHR ''5'' # a # b # quote_char # t" "digit a" "digit b"
      by (auto simp: status_rest_def)
    have "\<not> digit quote_char" by (simp add: digit_def)
    with t q show "is_5xx st" by (auto simp: is_5xx_def append_eq_Cons_conv Cons_eq_append_conv)
  qed (auto simp: is_5xx_def status_rest_def)
  then show ?thesis by (simp add: status_5xx_occurs occurs_labels [OF R] escape_plain assms)
qed
subsection \<open>The sample\<close>

definition served :: "string \<Rightarrow> metrics \<Rightarrow> nat" where
  "served s m = sum_list (map (\<lambda>(l, n). if fst l = s then n else 0) (m_total m))"

definition server_errors :: "string \<Rightarrow> metrics \<Rightarrow> nat" where
  "server_errors s m = sum_list (map (\<lambda>(l, n). if fst l = s \<and> is_5xx (snd (snd (snd l))) then n else 0) (m_total m))"

text \<open>A text whose only line ends, if any, are line feeds, which the format escapes.\<close>

definition unbroken :: "string \<Rightarrow> bool" where
  "unbroken s \<longleftrightarrow> list_all (\<lambda>c. line_end c \<longrightarrow> c = CHR 0x0A) s"

definition labels_ok :: "labels \<Rightarrow> bool" where
  "labels_ok l \<longleftrightarrow>
     (case l of (service, meth, path, status) \<Rightarrow>
        plain_label service \<and> plain_label status \<and> unbroken meth \<and> unbroken path)"

lemma one_line_append: "one_line (a @ b) \<longleftrightarrow> one_line a \<and> one_line b"
  by (simp add: one_line_def)

lemma one_line_Cons: "one_line (c # b) \<longleftrightarrow> \<not> line_end c \<and> one_line b"
  by (simp add: one_line_def)

lemma escape_one_line: "unbroken s \<Longrightarrow> one_line (prom_escape s)"
proof (induction s)
  case Nil
  show ?case by (simp add: one_line_def)
next
  case (Cons c s)
  have "\<not> line_end CHR 0x5C" "\<not> line_end quote_char" "\<not> line_end CHR ''n''" by (simp_all add: line_end_def)
  with Cons show ?case by (simp add: unbroken_def one_line_Cons) blast
qed

lemma plain_unbroken: "plain_label s \<Longrightarrow> unbroken s"
  by (auto simp: plain_label_def unbroken_def list_all_iff)

lemma counter_one_line:
  assumes "labels_ok l" "word (show_count n)"
  shows "one_line (counter_line show_count (l, n))"
proof -
  obtain sv me pa st where l: "l = (sv, me, pa, st)" by (cases l) blast
  have "one_line (prom_escape x)" if "x \<in> {sv, me, pa, st}" for x
    using assms(1) that plain_unbroken by (intro escape_one_line) (auto simp: labels_ok_def l)
  then show ?thesis using word_one_line [OF assms(2)]
    unfolding counter_line_def counter_labels_def l
    by (simp add: one_line_append one_line_Cons) (simp add: one_line_def line_end_def)
qed

lemma strip_between: "\<not> py_space a \<Longrightarrow> \<not> py_space b \<Longrightarrow> strip (a # t @ [b]) = a # t @ [b]"
  by (intro strip_id) simp

lemma strip_labels: "strip (counter_labels l) = counter_labels l"
proof -
  obtain sv me pa st where "l = (sv, me, pa, st)" by (cases l) blast
  then have "\<exists>t. counter_labels l = CHR ''m'' # t @ [quote_char]" by (auto simp: counter_labels_def)
  then obtain t where "counter_labels l = CHR ''m'' # t @ [quote_char]" ..
  then show ?thesis using strip_between [of "CHR ''m''" quote_char t] by (simp add: py_space_def)
qed

lemma metric_name_word: "word ''http_requests_total''"
  by (simp add: word_def py_space_def)

lemma parse_counter:
  assumes "word (show_count n)" "py_float (show_count n) = Some x"
  shows "\<exists>r'. parse_line (counter_line show_count (l, n)) r = Some r' \<and>
    dict_get [] ''http_requests_total'' r' = AList.update (counter_labels l) x (dict_get [] ''http_requests_total'' r)"
  unfolding counter_line_def fst_conv snd_conv parse_labelled [OF metric_name_word assms(1)] strip_labels assms(2)
  by (simp add: dict_get_setdefault)

lemma parse_lines_append:
  "parse_lines (a @ b) r = (case parse_lines a r of None \<Rightarrow> None | Some r' \<Rightarrow> parse_lines b r')"
  by (induction a arbitrary: r) (auto split: option.split)

lemma parse_others:
  "\<forall>l \<in> set ls. other_line l \<Longrightarrow>
     \<exists>r'. parse_lines ls r = Some r' \<and> dict_get [] ''http_requests_total'' r' = dict_get [] ''http_requests_total'' r"
proof (induction ls arbitrary: r)
  case (Cons l ls)
  then obtain r1 where "parse_line l r = Some r1"
    "dict_get [] ''http_requests_total'' r1 = dict_get [] ''http_requests_total'' r" using parse_other [of l r] by auto
  then show ?case using Cons.IH [of r1] Cons.prems by simp
qed simp

lemma parse_counters:
  "\<forall>(l, n) \<in> set cs. py_float (show_count n) = Some (real n) \<and> word (show_count n) \<Longrightarrow>
     \<exists>r'. parse_lines (map (counter_line show_count) cs) r = Some r' \<and>
       dict_get [] ''http_requests_total'' r' =
         fold (\<lambda>(k, v) d. AList.update k v d) (map (\<lambda>(l, n). (counter_labels l, real n)) cs)
           (dict_get [] ''http_requests_total'' r)"
proof (induction cs arbitrary: r)
  case (Cons c cs)
  obtain l n where c: "c = (l, n)" by fastforce
  obtain r1 where "parse_line (counter_line show_count c) r = Some r1"
    "dict_get [] ''http_requests_total'' r1
      = AList.update (counter_labels l) (real n) (dict_get [] ''http_requests_total'' r)"
    using parse_counter [of show_count n "real n" l r] Cons.prems c by auto
  then show ?case using Cons.IH [of r1] Cons.prems c by simp
qed simp

lemma foldl_add_counter:
  "foldl (add_counter w) smp d =
     \<lparr>requests_total = requests_total smp + sum_list (map (\<lambda>(k, v). if contains w k then v else 0) d),
      error_total = error_total smp + sum_list (map (\<lambda>(k, v). if contains w k \<and> status_5xx k then v else 0) d)\<rparr>"
  by (induction d arbitrary: smp) (auto simp: add_counter_def)

lemma real_sum_list: "real (sum_list xs) = sum_list (map real xs)"
  by (induction xs) simp_all


subsection \<open>Counting on\<close>

lemma sum_update:
  fixes d :: "('k, nat) pydict"
  shows "sum_list (map (\<lambda>(l, n). if P l then n else 0) (AList.update k (dict_get 0 k d + 1) d))
    = sum_list (map (\<lambda>(l, n). if P l then n else 0) d) + (if P k then 1 else 0)"
  by (induction d) (auto simp: dict_get_def)

text \<open>A request that the middleware counts raises the sample of its service by one, and the errors by one if
  it was answered 5xx; the samples of other services stay.\<close>

lemma served_observe:
  "served s (observe service meth path status d m) = served s m + (if service = s then 1 else 0)"
  "server_errors s (observe service meth path status d m)
     = server_errors s m + (if service = s \<and> is_5xx (show_int status) then 1 else 0)"
  unfolding served_def server_errors_def observe_def
  using sum_update [of "\<lambda>l. fst l = s" "(service, meth, path, show_int status)" "m_total m"]
    sum_update [of "\<lambda>l. fst l = s \<and> is_5xx (snd (snd (snd l)))" "(service, meth, path, show_int status)" "m_total m"]
  by simp_all

definition sample_metrics :: metrics where
  "sample_metrics = observe ''users'' ''GET'' ''/v1/users/{id}'' 503 1 (observe ''users'' ''POST'' ''/v1/users'' 201 1 no_metrics)"

definition sample_text :: string where
  "sample_text = unlines (''# TYPE http_requests_total counter'' # map (counter_line show_nat) (m_total sample_metrics)
     @ [''python_info 1''])"

subsection \<open>A line break in a path\<close>

text \<open>
  The format escapes the line feed only; \<open>splitlines\<close> also breaks lines at the other control characters of
  \<open>line_end\<close> (a form feed, a carriage return), which a client may send percent-encoded in a path.
\<close>

definition lists_counters :: "(nat \<Rightarrow> string) \<Rightarrow> metrics \<Rightarrow> string \<Rightarrow> bool" where
  "lists_counters show_count m text \<longleftrightarrow>
     (\<forall>c \<in> set (m_total m). \<exists>a b. text = a @ CHR 0x0A # counter_line show_count c @ CHR 0x0A # b)"

lemma splitlines_break: "line_end c \<Longrightarrow> one_line l \<Longrightarrow> splitlines (l @ c # t) = l # splitlines t"
  by (induction l) (simp_all add: one_line_def)

lemma splitlines_feed: "splitlines (a @ CHR 0x0A # t) = splitlines (a @ [CHR 0x0A]) @ splitlines t"
proof (induction a)
  case Nil
  show ?case by (simp add: line_end_def)
next
  case (Cons c a)
  have "splitlines (a @ [CHR 0x0A]) \<noteq> []" by (cases a) (auto split: list.split)
  with Cons show ?case by (auto split: list.split)
qed

lemma rstrip_append: "p \<noteq> [] \<Longrightarrow> \<not> py_space (last p) \<Longrightarrow> rstrip (p @ x) = p @ rstrip x"
proof -
  assume p: "p \<noteq> []" "\<not> py_space (last p)"
  then have "dropWhile py_space (rev p) = rev p" by (cases p rule: rev_cases) auto
  then show ?thesis by (simp add: rstrip_def dropWhile_append)
qed

lemma rsplit_once_None: "d \<notin> set s \<Longrightarrow> rsplit_once d s = None"
proof -
  assume "d \<notin> set s"
  then have "dropWhile (\<lambda>c. c \<noteq> d) (rev s) = []" by (auto simp: dropWhile_eq_Nil_conv)
  then show ?thesis unfolding rsplit_once_def split_once_def by (simp only: list.case option.map)
qed

lemma parse_unclosed:
  assumes n: "word name" and x: "CHR ''}'' \<notin> set x"
  shows "parse_line (name @ CHR ''{'' # x) r = None"
proof -
  let ?p = "name @ [CHR ''{'']"
  obtain c cs where c: "name = c # cs" "c \<noteq> CHR ''#''" "\<not> py_space c" using n by (cases name) (auto simp: word_def)
  have "\<not> py_space (last ?p)" by (simp add: py_space_def)
  then have "rstrip (?p @ x) = ?p @ rstrip x" by (intro rstrip_append) simp_all
  moreover have "lstrip (?p @ x) = ?p @ x" by (intro lstrip_id) (simp add: c)
  ultimately have s: "strip (name @ CHR ''{'' # x) = name @ CHR ''{'' # rstrip x" by (simp add: strip_def)
  let ?l = "name @ CHR ''{'' # rstrip x"
  have h: "\<not> starts_with ''#'' ?l" "?l \<noteq> []" using c(2) by (simp_all add: c(1))
  have 1: "split_once CHR ''{'' ?l = Some (name, rstrip x)"
    by (rule split_once_first) (use n in \<open>auto simp: word_def list_all_iff\<close>)
  have 2: "rsplit_once CHR ''}'' (rstrip x) = None"
    by (rule rsplit_once_None) (use x set_rstrip in blast)
  have m: "CHR ''{'' \<in> set ?l" by simp
  show ?thesis
    by (simp only: parse_line_def s Let_def h m 1 2 simp_thms if_True if_False option.case option.map prod.case)
qed

lemma parse_lines_bad: "(\<And>r. parse_line l r = None) \<Longrightarrow> parse_lines (a @ l # b) r = None"
  by (induction a arbitrary: r) (auto split: option.split)

lemma escape_append: "prom_escape (a @ b) = prom_escape a @ prom_escape b"
  by (induction a) simp_all

lemma escape_brace: "CHR ''}'' \<notin> set p \<Longrightarrow> CHR ''}'' \<notin> set (prom_escape p)"
  by (induction p) auto

lemma broken_counter:
  assumes c: "line_end c" "c \<noteq> CHR 0x0A" and p: "unbroken p" "unbroken meth" "CHR ''}'' \<notin> set p" "CHR ''}'' \<notin> set meth"
    and t: "lists_counters show_count m text" "((service, meth, p @ c # q, st), n) \<in> set (m_total m)"
  shows "parse_prometheus_text text = None"
proof -
  let ?x = "''method='' @ quote_char # prom_escape meth @ quote_char # '',path='' @ quote_char # prom_escape p"
  have "c \<noteq> CHR 0x5C" "c \<noteq> quote_char" using c(1) by (auto simp: line_end_def)
  then have esc: "prom_escape (p @ c # q) = prom_escape p @ c # prom_escape q" using c(2) by (simp add: escape_append)
  obtain a b where "text = a @ CHR 0x0A # counter_line show_count ((service, meth, p @ c # q, st), n) @ CHR 0x0A # b"
    using t unfolding lists_counters_def by blast
  then obtain y where y: "text = a @ CHR 0x0A # (''http_requests_total'' @ CHR ''{'' # ?x) @ c # y"
    unfolding counter_line_def counter_labels_def by (simp add: esc)
  have "one_line ?x"
    using escape_one_line [OF p(1)] escape_one_line [OF p(2)]
    by (simp add: one_line_append one_line_Cons) (simp add: one_line_def line_end_def)
  then have "one_line (''http_requests_total'' @ CHR ''{'' # ?x)"
    by (simp only: one_line_append one_line_Cons) (simp add: one_line_def line_end_def)
  then have lines: "splitlines text
      = splitlines (a @ [CHR 0x0A]) @ (''http_requests_total'' @ CHR ''{'' # ?x) # splitlines y"
    unfolding y by (subst splitlines_feed) (simp only: splitlines_break [OF c(1)])
  have "CHR ''}'' \<notin> set ?x" using escape_brace p(3,4) by simp
  then show ?thesis unfolding parse_prometheus_text_def lines
    by (intro parse_lines_bad parse_unclosed metric_name_word)
qed

lemma metric_path_break:
  "\<not> id_char c \<Longrightarrow> c \<noteq> CHR ''/'' \<Longrightarrow> metric_path (p @ c # q) = metric_path p @ c # metric_path q"
proof (induction p rule: metric_path.induct)
  case 1
  then show ?case by simp
next
  case (2 d cs)
  have "takeWhile id_char (cs @ c # q) = takeWhile id_char cs"
    "dropWhile id_char (cs @ c # q) = dropWhile id_char cs @ c # q"
    using 2(3) by (induction cs) auto
  then show ?case using 2 by simp
qed

lemma line_end_path: "line_end c \<Longrightarrow> \<not> id_char c \<and> c \<noteq> CHR ''/''"
  by (auto simp: line_end_def id_char_def Let_def)

lemma update_keeps: "x \<in> fst ` set (AList.update k v d) \<longleftrightarrow> x = k \<or> x \<in> fst ` set d"
  by (simp add: keys_update)

lemma scrape_malformed:
  "get (metrics_url url) = Response r \<Longrightarrow> ur_status r = 200 \<Longrightarrow> parse_prometheus_text (ur_content r) = None \<Longrightarrow>
     url \<in> set urls \<Longrightarrow> \<exists>x. scrape get service urls totals = Inl x \<and>
       (x = ValueError ''not enough values to unpack'' \<or> (\<exists>u. get u = Uncaught x))"
  by (induction urls arbitrary: totals) (auto simp: Let_def split: http_result.split option.split)


definition form_feed_scope :: scope where
  "form_feed_scope = sample_scope\<lparr>sc_method := Some ''GET'', sc_path := Some (''/x'' @ CHR 0x0C # ''y'')\<rparr>"

lemma form_feed_scope_fields:
  "scope_path form_feed_scope = [CHR ''/'', CHR ''x'', CHR 0x0C, CHR ''y'']" "scope_method form_feed_scope = ''GET''"
  "sc_type form_feed_scope = ''http''"
  by (simp_all add: form_feed_scope_def sample_scope_def scope_path_def scope_method_def)

lemma form_feed_counter:
  "m_total (w_metrics (snd (metrics_middleware ''users'' crashing sample_env form_feed_scope sample_world)))
    = [((''users'', ''GET'', [CHR ''/'', CHR ''x'', CHR 0x0C, CHR ''y''], ''500''), 1)]"
proof -
  have 500: "show_int 500 = ''500''" by code_simp
  have p: "metric_path [CHR ''/'', CHR ''x'', CHR 0x0C, CHR ''y''] = [CHR ''/'', CHR ''x'', CHR 0x0C, CHR ''y'']"
    by (simp add: id_char_def)
  show ?thesis
    by (simp add: metrics_middleware_def form_feed_scope_fields crashing_def observe_def in_flight_add_def p 500
        sample_world_def no_metrics_def dict_get_def)
qed

definition form_feed_path :: string where
  "form_feed_path = [CHR ''/'', CHR ''x'', CHR 0x0C, CHR ''y'']"


end
