(* ===== verification/Convergence.thy ===== *)
theory Convergence
  imports Autoscaler
begin

section \<open>Convergence of the autoscaler under a lasting overload\<close>

text \<open>
  The controller's loop while every tick observes an overload and the scaler works: the number of replicas reaches
  the maximum, within a number of ticks that the cooldown, the sustain count and the spacing of the ticks give.
\<close>

text \<open>What a tick observes: the rate per instance and the share of errors; \<open>None\<close> if the scraping raises.\<close>

definition observation :: "autoscaler_settings \<Rightarrow> (string \<Rightarrow> http_result) \<Rightarrow> controller \<Rightarrow> (real \<times> real) option" where
  "observation s get c =
     (case scrape get (target_service s) (target_url_list s) no_sample of
        Inl e \<Rightarrow> None
      | Inr totals \<Rightarrow>
          (case compute_rps (c_prev c) totals (interval_seconds s) of
             (rps_total, error_rate) \<Rightarrow> Some (per_instance rps_total (c_replicas c), error_rate)))"

fun lasting_overload :: "autoscaler_settings \<Rightarrow> 'k scaler \<Rightarrow> (real \<times> (string \<Rightarrow> http_result)) list \<Rightarrow> controller \<Rightarrow> 'k \<Rightarrow> bool" where
  "lasting_overload s set_replicas [] c k \<longleftrightarrow> True"
| "lasting_overload s set_replicas ((now, get) # ts) c k \<longleftrightarrow>
     (case observation s get c of None \<Rightarrow> False | Some ob \<Rightarrow> high_load s ob) \<and>
     (case tick s set_replicas get now c k of (e, c', k') \<Rightarrow> e = None \<and> lasting_overload s set_replicas ts c' k')"

text \<open>Ticks at least \<open>\<delta>\<close> apart, the first after \<open>t\<close>.\<close>

fun spaced :: "real \<Rightarrow> real \<Rightarrow> real list \<Rightarrow> bool" where
  "spaced \<delta> t [] \<longleftrightarrow> True"
| "spaced \<delta> t (u # us) \<longleftrightarrow> t + \<delta> \<le> u \<and> spaced \<delta> u us"

text \<open>An overloaded tick: nothing while cooling, else one step towards the action or the action itself.\<close>

lemma overloaded_tick:
  assumes urls: "target_url_list s \<noteq> []" and ob: "observation s get c = Some ob" "high_load s ob"
    and tick: "tick s set_replicas get now c k = (None, c', k')" and r: "c_replicas c < max_replicas s"
  shows "if cooling s (c_state c) now then c_state c' = c_state c \<and> c_replicas c' = c_replicas c
    else if sustain_up s \<le> up_streak (c_state c) + 1
      then up_streak (c_state c') = 0 \<and> last_action_at (c_state c') = now \<and> c_replicas c' = c_replicas c + 1
    else up_streak (c_state c') = up_streak (c_state c) + 1 \<and> last_action_at (c_state c') = last_action_at (c_state c)
      \<and> c_replicas c' = c_replicas c"
proof -
  obtain totals rps er where t: "scrape get (target_service s) (target_url_list s) no_sample = Inr totals"
    "compute_rps (c_prev c) totals (interval_seconds s) = (rps, er)" "ob = (per_instance rps (c_replicas c), er)"
    using ob(1) by (auto simp: observation_def split: sum.splits prod.splits)
  obtain d st where d: "decide s (c_state c) (c_replicas c) (per_instance rps (c_replicas c)) er now = (d, st)" by fastforce
  note eq = tick_eq [OF urls t(1,2) d refl, of set_replicas k]
  have high: "scale_up_rps s < per_instance rps (c_replicas c) \<or> error_rate_threshold s < er"
    using ob(2) t(3) by (simp add: high_load_def)
  show ?thesis
    using tick d high r unfolding eq
    by (auto simp: decide_def cooling_def Let_def apply_target_def split: if_splits prod.splits option.splits)
qed

lemma overloaded_at_maximum:
  assumes urls: "target_url_list s \<noteq> []" and ob: "observation s get c = Some ob" "high_load s ob"
    and tick: "tick s set_replicas get now c k = (None, c', k')" and r: "c_replicas c = max_replicas s"
  shows "c_replicas c' = max_replicas s"
proof -
  obtain totals rps er where t: "scrape get (target_service s) (target_url_list s) no_sample = Inr totals"
    "compute_rps (c_prev c) totals (interval_seconds s) = (rps, er)" "ob = (per_instance rps (c_replicas c), er)"
    using ob(1) by (auto simp: observation_def split: sum.splits prod.splits)
  obtain d st where d: "decide s (c_state c) (c_replicas c) (per_instance rps (c_replicas c)) er now = (d, st)" by fastforce
  have "dc_action d = Hold" using decide_action [OF d] ob(2) t(3) r by (cases "dc_action d") (auto simp: low_load_def)
  then show ?thesis using tick r unfolding tick_eq [OF urls t(1,2) d refl, of set_replicas k] by auto
qed

text \<open>The ticks that one scaling step takes: those of the cooldown and those that confirm the overload.\<close>

definition step_ticks :: "autoscaler_settings \<Rightarrow> real \<Rightarrow> nat" where
  "step_ticks s \<delta> = nat \<lceil>cooldown_seconds s / \<delta>\<rceil> + nat (sustain_up s)"

lemma stays_at_maximum:
  assumes urls: "target_url_list s \<noteq> []"
  shows "c_replicas c = max_replicas s \<Longrightarrow> lasting_overload s set_replicas ts c k \<Longrightarrow>
    run_loop s set_replicas ts c k = (c', k') \<Longrightarrow> c_replicas c' = max_replicas s"
proof (induction ts arbitrary: c k)
  case Nil
  then show ?case by simp
next
  case (Cons x ts)
  obtain now get where x: "x = (now, get)" by fastforce
  obtain e c1 k1 where tick: "tick s set_replicas get now c k = (e, c1, k1)" by (metis prod_cases3)
  obtain ob where ob: "observation s get c = Some ob" "high_load s ob" and e: "e = None" and rest: "lasting_overload s set_replicas ts c1 k1"
    using Cons.prems(2) tick by (auto simp: x split: option.splits)
  have "c_replicas c1 = max_replicas s" using overloaded_at_maximum [OF urls ob tick [unfolded e] Cons.prems(1)] .
  then show ?case using Cons.IH rest Cons.prems(3) tick by (simp add: x)
qed

lemma within_step: "int p \<le> int m + u \<Longrightarrow> u < n \<Longrightarrow> 0 \<le> u \<Longrightarrow> p < m + nat n"
  by linarith

text \<open>\<open>p\<close> ticks after the last action at most the cooldown and the streak are used up.\<close>

lemma overload_progress:
  assumes urls: "target_url_list s \<noteq> []" and \<delta>: "0 < \<delta>" and su: "1 \<le> sustain_up s"
  shows "spaced \<delta> t (map fst ts) \<Longrightarrow> last_action_at (c_state c) + real p * \<delta> \<le> t \<Longrightarrow>
    0 \<le> up_streak (c_state c) \<Longrightarrow> up_streak (c_state c) < sustain_up s \<Longrightarrow>
    int p \<le> int (nat \<lceil>cooldown_seconds s / \<delta>\<rceil>) + up_streak (c_state c) \<Longrightarrow>
    c_replicas c \<le> max_replicas s \<Longrightarrow> lasting_overload s set_replicas ts c k \<Longrightarrow> run_loop s set_replicas ts c k = (c', k') \<Longrightarrow>
    nat (max_replicas s - c_replicas c) * step_ticks s \<delta> \<le> length ts + p \<Longrightarrow> c_replicas c' = max_replicas s"
proof (induction ts arbitrary: c k t p)
  case Nil
  have "p < step_ticks s \<delta>" unfolding step_ticks_def by (rule within_step [OF Nil.prems(5,4,3)])
  then have "nat (max_replicas s - c_replicas c) = 0"
    using Nil.prems(9) by (cases "nat (max_replicas s - c_replicas c)") auto
  then show ?case using Nil.prems(6,8) by simp
next
  case (Cons x ts)
  obtain now get where x: "x = (now, get)" by fastforce
  obtain e c1 k1 where tick: "tick s set_replicas get now c k = (e, c1, k1)" by (metis prod_cases3)
  obtain ob where ob: "observation s get c = Some ob" "high_load s ob" and e: "e = None" and rest: "lasting_overload s set_replicas ts c1 k1"
    using Cons.prems(7) tick by (auto simp: x split: option.splits)
  have run: "run_loop s set_replicas ts c1 k1 = (c', k')" using Cons.prems(8) tick by (simp add: x)
  have now: "t + \<delta> \<le> now" "spaced \<delta> now (map fst ts)" using Cons.prems(1) by (simp_all add: x)
  have later: "last_action_at (c_state c) + real (Suc p) * \<delta> \<le> now" using Cons.prems(2) now(1) by (simp add: algebra_simps)
  show ?case
  proof (cases "c_replicas c = max_replicas s")
    case True
    show ?thesis by (rule stays_at_maximum [OF urls True Cons.prems(7,8)])
  next
    case False
    then have r: "c_replicas c < max_replicas s" using Cons.prems(6) by simp
    note step = overloaded_tick [OF urls ob tick [unfolded e] r]
    consider (cooling) "cooling s (c_state c) now" | (act) "\<not> cooling s (c_state c) now" "sustain_up s \<le> up_streak (c_state c) + 1"
      | (hold) "\<not> cooling s (c_state c) now" "up_streak (c_state c) + 1 < sustain_up s"
      by linarith
    then show ?thesis
    proof cases
      case cooling
      then have c1: "c_state c1 = c_state c" "c_replicas c1 = c_replicas c" using step by simp_all
      have "real (Suc p) * \<delta> < cooldown_seconds s" using cooling later by (simp add: cooling_def)
      then have "real (Suc p) < cooldown_seconds s / \<delta>" using \<delta> by (simp add: pos_less_divide_eq)
      then have "int (Suc p) \<le> \<lceil>cooldown_seconds s / \<delta>\<rceil>" by linarith
      moreover have "\<lceil>cooldown_seconds s / \<delta>\<rceil> \<le> int (nat \<lceil>cooldown_seconds s / \<delta>\<rceil>)" by simp
      ultimately have "int (Suc p) \<le> int (nat \<lceil>cooldown_seconds s / \<delta>\<rceil>) + up_streak (c_state c1)"
        using Cons.prems(3) unfolding c1 by linarith
      with Cons.IH [OF now(2), of c1 "Suc p" k1] show ?thesis using c1 later Cons.prems(3,4,6,9) rest run by simp
    next
      case act
      then have c1: "up_streak (c_state c1) = 0" "last_action_at (c_state c1) = now" "c_replicas c1 = c_replicas c + 1"
        using step by simp_all
      have "nat (max_replicas s - c_replicas c) = Suc (nat (max_replicas s - c_replicas c1))" using r c1(3) by simp
      moreover have "p < step_ticks s \<delta>" unfolding step_ticks_def by (rule within_step [OF Cons.prems(5,4,3)])
      ultimately have "nat (max_replicas s - c_replicas c1) * step_ticks s \<delta> \<le> length ts + 0" using Cons.prems(9) by simp
      with Cons.IH [OF now(2), of c1 0 k1] show ?thesis using c1 r su rest run by simp
    next
      case hold
      then have c1: "up_streak (c_state c1) = up_streak (c_state c) + 1" "last_action_at (c_state c1) = last_action_at (c_state c)"
        "c_replicas c1 = c_replicas c" using step by simp_all
      with Cons.IH [OF now(2), of c1 "Suc p" k1] show ?thesis using later Cons.prems(3,5,6,9) hold rest run by simp
    qed
  qed
qed

text \<open>C14: Under a lasting overload the service is scaled to its maximum: when every tick observes an overload and the
  scaler works, the replicas reach \<open>max_replicas\<close> after at most as many ticks as the missing replicas times those
  that the cooldown and the confirmation of one step take, for ticks at least \<open>\<delta>\<close> apart.\<close>

theorem overload_reaches_maximum:
  assumes urls: "target_url_list s \<noteq> []" and \<delta>: "0 < \<delta>" and su: "1 \<le> sustain_up s"
    and start: "up_streak (c_state c) = 0" "last_action_at (c_state c) \<le> t" "c_replicas c \<le> max_replicas s"
    and ticks: "spaced \<delta> t (map fst ts)" "lasting_overload s set_replicas ts c k"
    and enough: "nat (max_replicas s - c_replicas c) * (nat \<lceil>cooldown_seconds s / \<delta>\<rceil> + nat (sustain_up s)) \<le> length ts"
    and run: "run_loop s set_replicas ts c k = (c', k')"
  shows "c_replicas c' = max_replicas s"
  using overload_progress [OF urls \<delta> su ticks(1), of c 0 set_replicas k c' k'] start su ticks(2) enough run
  by (simp add: step_ticks_def)

definition busy_settings :: autoscaler_settings where
  "busy_settings = default_autoscaler\<lparr>target_urls := ''http://s'', cooldown_seconds := 5, sustain_up := 1, max_replicas := 2\<rparr>"

definition counted :: "string \<Rightarrow> string \<Rightarrow> http_result" where
  "counted n url = Response \<lparr>ur_status = 200, ur_headers = [],
     ur_content = ''http_requests_total{service='' @ quoted ''service-template'' @ ''} '' @ n\<rparr>"

lemma counted_sample:
  "scrape (counted ''600'') ''service-template'' [''http://s''] no_sample = Inr \<lparr>requests_total = 600, error_total = 0\<rparr>"
  "scrape (counted ''1200'') ''service-template'' [''http://s''] no_sample = Inr \<lparr>requests_total = 1200, error_total = 0\<rparr>"
  by code_simp+

lemma totals_values: "requests_total no_sample = 0" "error_total no_sample = 0"
  by (simp_all add: no_sample_def)

lemma busy_values [simp]:
  "target_url_list busy_settings = [''http://s'']" "target_service busy_settings = ''service-template''"
  "interval_seconds busy_settings = 5" "cooldown_seconds busy_settings = 5" "sustain_up busy_settings = 1"
  "max_replicas busy_settings = 2" "scale_up_rps busy_settings = 20" "error_rate_threshold busy_settings = 5/100"
proof -
  show "target_url_list busy_settings = [''http://s'']" by code_simp
qed (simp_all add: busy_settings_def)

lemma overload_reaches_maximum_witness:
  "c_replicas (fst (run_loop busy_settings noop_scaler [(100, counted ''600''), (105, counted ''1200'')]
      \<lparr>c_prev = Some no_sample, c_state = fresh_policy, c_replicas = 1, c_decisions = []\<rparr> ())) = 2"
proof -
  let ?c = "\<lparr>c_prev = Some no_sample, c_state = fresh_policy, c_replicas = 1, c_decisions = []\<rparr>"
  let ?ts = "[(100, counted ''600''), (105, counted ''1200'')] :: (real \<times> (string \<Rightarrow> http_result)) list"
  have over: "lasting_overload busy_settings noop_scaler ?ts ?c ()"
    by (simp add: observation_def tick_def counted_sample totals_values compute_rps_def per_instance_def high_load_def
        decide_def fresh_policy_def apply_target_def noop_scaler_def del: scrape.simps)
  have hyps: "target_url_list busy_settings \<noteq> []" "(0 :: real) < 5" "1 \<le> sustain_up busy_settings"
    "up_streak (c_state ?c) = 0" "last_action_at (c_state ?c) \<le> 0" "c_replicas ?c \<le> max_replicas busy_settings"
    "spaced 5 0 (map fst ?ts)"
    by (simp_all add: fresh_policy_def)
  have enough: "nat (max_replicas busy_settings - c_replicas ?c) *
      (nat \<lceil>cooldown_seconds busy_settings / 5\<rceil> + nat (sustain_up busy_settings)) \<le> length ?ts"
    by simp
  have "c_replicas (fst (run_loop busy_settings noop_scaler ?ts ?c ())) = max_replicas busy_settings"
    by (rule overload_reaches_maximum [OF hyps over enough surjective_pairing])
  then show ?thesis by simp
qed

end
