(* ===== verification/Logging.thy ===== *)
theory Logging
  imports Problem
begin

section \<open>Structured logging: kernel/logging.py\<close>

text \<open>
  A log record carries the fields the business passes as \<open>extra={"ctx": ...}\<close>; the filter merges the
  request's context into them, the formatter renders one JSON object per record and masks sensitive
  keys. Values are Python values up to what \<open>json.dumps\<close> and the masking see of them.
\<close>

subsection \<open>Values\<close>

datatype logval =
    LNone
  | LBool bool
  | LInt int
  | LFloat string
  | LStr string
  | LList "logval list"
  | LTuple "logval list"
  | LDict "(string \<times> logval) list"
  | LOther string

text \<open>\<open>json.dumps(..., default=str)\<close>: a tuple becomes an array, an object its \<open>str\<close>.\<close>

fun to_json :: "logval \<Rightarrow> json" where
  "to_json LNone = JNull"
| "to_json (LBool b) = JBool b"
| "to_json (LInt n) = JInt n"
| "to_json (LFloat l) = JFloat l"
| "to_json (LStr s) = JStr s"
| "to_json (LList xs) = JArr (map to_json xs)"
| "to_json (LTuple xs) = JArr (map to_json xs)"
| "to_json (LDict d) = JObj (map (\<lambda>(k, v). (k, to_json v)) d)"
| "to_json (LOther s) = JStr s"

subsection \<open>Sensitive keys\<close>

text \<open>
  \<open>re.IGNORECASE\<close> on texts: besides the ASCII letters, the long s, the Kelvin sign and the two Turkish
  letters i count as their ASCII relatives.
\<close>

function fold_case :: "string \<Rightarrow> string" where
  "fold_case [] = []"
| "fold_case (c # s) =
     (if starts_with [CHR 0xC5, CHR 0xBF] (c # s) then CHR ''s'' # fold_case (drop 1 s)
      else if starts_with [CHR 0xE2, CHR 0x84, CHR 0xAA] (c # s) then CHR ''k'' # fold_case (drop 2 s)
      else if starts_with [CHR 0xC4, CHR 0xB0] (c # s) \<or> starts_with [CHR 0xC4, CHR 0xB1] (c # s)
      then CHR ''i'' # fold_case (drop 1 s)
      else lower_char c # fold_case s)"
  by pat_completeness auto
termination by (relation "measure length") auto

definition sensitive_words :: "string list" where
  "sensitive_words =
     [''password'', ''passwd'', ''pwd'', ''secret'', ''token'', ''authorization'', ''apikey'', ''api_key'', ''api-key'',
      ''cookie'', ''creditcard'', ''credit_card'', ''credit-card'']"

definition sensitive :: "string \<Rightarrow> bool" where
  "sensitive key \<longleftrightarrow> list_ex (\<lambda>w. contains w (fold_case key)) sensitive_words"

fun mask_value :: "logval \<Rightarrow> logval" where
  "mask_value (LDict d) = LDict (map (\<lambda>(k, v). (k, if sensitive k then LStr ''***'' else mask_value v)) d)"
| "mask_value (LList xs) = LList (map mask_value xs)"
| "mask_value v = v"

subsection \<open>The filter\<close>

record log_record =
  lr_level :: string
  lr_name :: string
  lr_message :: string
  lr_ctx :: "logval option"
  lr_exc :: "string option"

definition BUILTIN_CTX_KEYS :: "string list" where
  "BUILTIN_CTX_KEYS = [''request_id'', ''trace_id'', ''span_id'', ''user_id'', ''tenant_id'']"

definition opt_str :: "string option \<Rightarrow> logval" where
  "opt_str x = (case x of None \<Rightarrow> LNone | Some s \<Rightarrow> LStr s)"

definition builtin_ctx :: "ctxvars \<Rightarrow> (string, logval) pydict" where
  "builtin_ctx c =
     [(''request_id'', LStr (get_request_id c)), (''trace_id'', LStr (get_trace_id c)),
      (''span_id'', LStr (get_span_id c)),
      (''user_id'', case get_identity c of None \<Rightarrow> LNone | Some i \<Rightarrow> opt_str (user_id i)),
      (''tenant_id'', case get_identity c of None \<Rightarrow> LNone | Some i \<Rightarrow> opt_str (tenant_id i))]"

definition business_fields :: "log_record \<Rightarrow> (string, logval) pydict" where
  "business_fields r = (case lr_ctx r of Some (LDict d) \<Rightarrow> d | _ \<Rightarrow> [])"

definition context_filter :: "ctxvars \<Rightarrow> log_record \<Rightarrow> log_record" where
  "context_filter c r =
     r\<lparr>lr_ctx := Some (LDict
        (fold (\<lambda>(k, v) ctx. if k \<notin> set BUILTIN_CTX_KEYS then AList.update k v ctx else ctx)
           (business_fields r) (builtin_ctx c)))\<rparr>"

subsection \<open>The formatter\<close>

record json_formatter =
  jf_service_name :: string
  jf_app_env :: string
  jf_mask_secrets :: bool

definition base_payload :: "json_formatter \<Rightarrow> string \<Rightarrow> log_record \<Rightarrow> (string, logval) pydict" where
  "base_payload f ts r =
     [(''ts'', LStr ts), (''level'', LStr (lr_level r)), (''logger'', LStr (lr_name r)),
      (''service'', LStr (jf_service_name f)), (''env'', LStr (jf_app_env f)), (''message'', LStr (lr_message r))]"

definition merge_ctx :: "(string, logval) pydict \<Rightarrow> (string, logval) pydict \<Rightarrow> (string, logval) pydict" where
  "merge_ctx ctx payload =
     fold (\<lambda>(k, v) p. if v \<noteq> LNone \<and> v \<noteq> LStr [] then AList.update k v p else p) ctx payload"

definition full_payload :: "json_formatter \<Rightarrow> string \<Rightarrow> log_record \<Rightarrow> (string, logval) pydict" where
  "full_payload f ts r =
     (let p = merge_ctx (business_fields r) (base_payload f ts r)
      in (case lr_exc r of None \<Rightarrow> p | Some e \<Rightarrow> AList.update ''exc_info'' (LStr e) p))"

definition format_record :: "json_formatter \<Rightarrow> string \<Rightarrow> log_record \<Rightarrow> string" where
  "format_record f ts r =
     json_dumps (to_json (if jf_mask_secrets f then mask_value (LDict (full_payload f ts r)) else LDict (full_payload f ts r)))"

subsection \<open>The configuration of the root logger\<close>

datatype formatter = JsonLines json_formatter | PlainLines

record log_handler =
  lh_formatter :: formatter
  lh_context_filter :: bool

record logging_state =
  ls_root_level :: string
  ls_root_handlers :: "log_handler list"
  ls_levels :: "(string, string) pydict"
  ls_disabled :: "string list"
  ls_handlers :: "(string, log_handler list) pydict"

definition QUIET_LOGGERS :: "string list" where
  "QUIET_LOGGERS = [''sqlalchemy.engine'', ''aiormq'', ''aio_pika'', ''watchfiles'', ''pika'']"

definition level_names :: "string list" where
  "level_names = [''CRITICAL'', ''FATAL'', ''ERROR'', ''WARN'', ''WARNING'', ''INFO'', ''DEBUG'', ''NOTSET'']"

text \<open>\<open>setLevel\<close> raises \<open>ValueError\<close> for an unknown name, before anything has changed.\<close>

definition setup_logging ::
  "string \<Rightarrow> bool \<Rightarrow> string \<Rightarrow> string \<Rightarrow> bool \<Rightarrow> bool \<Rightarrow> logging_state \<Rightarrow> logging_state option" where
  "setup_logging level json_logs service_name app_env mask_secrets disable_uvicorn_access st =
     (if map upper_char level \<notin> set level_names then None
      else
        (let handler = \<lparr>lh_formatter = (if json_logs
               then JsonLines \<lparr>jf_service_name = service_name, jf_app_env = app_env, jf_mask_secrets = mask_secrets\<rparr>
               else PlainLines), lh_context_filter = True\<rparr>;
             st = st\<lparr>ls_root_level := map upper_char level, ls_root_handlers := [handler],
                     ls_levels := fold (\<lambda>n d. AList.update n ''WARNING'' d) QUIET_LOGGERS (ls_levels st)\<rparr>
         in Some (if disable_uvicorn_access
                  then st\<lparr>ls_disabled := List.insert ''uvicorn.access'' (ls_disabled st),
                          ls_handlers := AList.update ''uvicorn.access'' [] (ls_handlers st)\<rparr>
                  else st)))"

subsection \<open>Well-formed values\<close>

text \<open>Dictionaries have distinct keys and floats are written as JSON reads them.\<close>

fun logval_ok :: "logval \<Rightarrow> bool" where
  "logval_ok (LDict d) = (distinct (map fst d) \<and> list_all (\<lambda>p. logval_ok (snd p)) d)"
| "logval_ok (LList xs) = list_all logval_ok xs"
| "logval_ok (LTuple xs) = list_all logval_ok xs"
| "logval_ok (LFloat l) = (read_number l = Some (JFloat l, []))"
| "logval_ok v = True"

fun tuple_free :: "logval \<Rightarrow> bool" where
  "tuple_free (LDict d) = list_all (\<lambda>p. tuple_free (snd p)) d"
| "tuple_free (LList xs) = list_all tuple_free xs"
| "tuple_free (LTuple xs) = False"
| "tuple_free v = True"

lemma fst_comp_values [simp]: "fst \<circ> (\<lambda>(k, v). (k, f k v)) = fst"
  by auto

lemma to_json_ok: "logval_ok v \<Longrightarrow> json_ok (to_json v)"
proof (induction v rule: to_json.induct)
  case (8 d)
  then have "list_all (\<lambda>p. json_ok (to_json (snd p))) d" by (fastforce simp: list_all_iff)
  then show ?case using 8(2) by (auto simp: list_all_iff)
qed (auto simp: list_all_iff)

lemma mask_ok: "logval_ok v \<Longrightarrow> logval_ok (mask_value v)"
proof (induction v rule: mask_value.induct)
  case (1 d)
  have "logval_ok (mask_value v)" if "(k, v) \<in> set d" "\<not> sensitive k" for k v
    using 1(1) [OF that(1) refl that(2)] 1(2) that(1) by (auto simp: list_all_iff)
  then show ?case using 1(2) by (auto simp: list_all_iff)
qed (auto simp: list_all_iff)

text \<open>A document exposes a secret when some object in it has a sensitive key with another value than the mask.\<close>

fun exposes :: "json \<Rightarrow> bool" where
  "exposes (JObj d) = list_ex (\<lambda>(k, v). sensitive k \<and> v \<noteq> JStr ''***'' \<or> exposes v) d"
| "exposes (JArr xs) = list_ex exposes xs"
| "exposes v = False"

lemma mask_hides: "tuple_free v \<Longrightarrow> \<not> exposes (to_json (mask_value v))"
proof (induction v rule: mask_value.induct)
  case (1 d)
  have "\<not> exposes (to_json (mask_value v))" if "(k, v) \<in> set d" "\<not> sensitive k" for k v
    using 1(1) [OF that(1) refl that(2)] 1(2) that(1) by (auto simp: list_all_iff)
  then show ?case by (auto simp: list_ex_iff split: if_splits)
next
  case (2 xs)
  then show ?case by (auto simp: list_ex_iff list_all_iff)
qed auto

lemma mask_mask: "mask_value (mask_value v) = mask_value v"
  by (induction v rule: mask_value.induct) auto

lemma fold_update_if_ok:
  "logval_ok (LDict p) \<Longrightarrow> list_all (\<lambda>q. logval_ok (snd q)) ctx \<Longrightarrow>
     logval_ok (LDict (fold (\<lambda>(k, v) p. if P k v then AList.update k v p else p) ctx p))"
proof (induction ctx arbitrary: p)
  case (Cons q ctx)
  obtain k v where q: "q = (k, v)" by fastforce
  have "set (AList.update k v p) \<subseteq> insert (k, v) (set p)" by (induction p) auto
  then have "logval_ok (LDict (AList.update k v p))"
    using Cons.prems by (fastforce simp: q list_all_iff distinct_update)
  then show ?case using Cons by (simp add: q)
qed simp

lemma fold_update_if_tuples:
  "tuple_free (LDict p) \<Longrightarrow> list_all (\<lambda>q. tuple_free (snd q)) ctx \<Longrightarrow>
     tuple_free (LDict (fold (\<lambda>(k, v) p. if P k v then AList.update k v p else p) ctx p))"
proof (induction ctx arbitrary: p)
  case (Cons q ctx)
  obtain k v where q: "q = (k, v)" by fastforce
  have "set (AList.update k v p) \<subseteq> insert (k, v) (set p)" by (induction p) auto
  then have "tuple_free (LDict (AList.update k v p))"
    using Cons.prems by (fastforce simp: q list_all_iff)
  then show ?case using Cons by (simp add: q)
qed simp

lemma map_of_fold_update_if:
  "dict_ok ctx \<Longrightarrow> map_of (fold (\<lambda>(k, v) p. if P k v then AList.update k v p else p) ctx p) x =
     (case map_of ctx x of Some v \<Rightarrow> if P x v then Some v else map_of p x | None \<Rightarrow> map_of p x)"
proof (induction ctx arbitrary: p)
  case (Cons q ctx)
  obtain k v where q: "q = (k, v)" by fastforce
  have "map_of ctx k = None" using Cons.prems by (simp add: q dict_ok_def map_of_eq_None_iff)
  then show ?case using Cons by (auto simp: q dict_ok_def split: option.split)
qed simp

subsection \<open>Properties\<close>

lemma base_payload_ok: "logval_ok (LDict (base_payload f ts r))" "tuple_free (LDict (base_payload f ts r))"
  by (simp_all add: base_payload_def)

lemma full_payload_ok:
  assumes "list_all (\<lambda>q. logval_ok (snd q)) (business_fields r)"
  shows "logval_ok (LDict (full_payload f ts r))"
proof -
  have p: "logval_ok (LDict (merge_ctx (business_fields r) (base_payload f ts r)))"
    unfolding merge_ctx_def by (rule fold_update_if_ok [OF base_payload_ok(1) assms])
  have "logval_ok (LDict (fold (\<lambda>(k, v) p. if True then AList.update k v p else p) [(''exc_info'', LStr e)]
      (merge_ctx (business_fields r) (base_payload f ts r))))" for e
    by (rule fold_update_if_ok [OF p]) simp
  then show ?thesis using p by (simp add: full_payload_def Let_def split: option.split)
qed

lemma full_payload_tuples:
  assumes "list_all (\<lambda>q. tuple_free (snd q)) (business_fields r)"
  shows "tuple_free (LDict (full_payload f ts r))"
proof -
  have p: "tuple_free (LDict (merge_ctx (business_fields r) (base_payload f ts r)))"
    unfolding merge_ctx_def by (rule fold_update_if_tuples [OF base_payload_ok(2) assms])
  have "tuple_free (LDict (fold (\<lambda>(k, v) p. if True then AList.update k v p else p) [(''exc_info'', LStr e)]
      (merge_ctx (business_fields r) (base_payload f ts r))))" for e
    by (rule fold_update_if_tuples [OF p]) simp
  then show ?thesis using p by (simp add: full_payload_def Let_def split: option.split)
qed

lemma format_record_json:
  assumes "list_all (\<lambda>q. logval_ok (snd q)) (business_fields r)" "jf_mask_secrets f"
  shows "json_loads (format_record f ts r) = Some (to_json (mask_value (LDict (full_payload f ts r))))"
  using to_json_ok [OF mask_ok [OF full_payload_ok [OF assms(1)]], of f ts] assms(2)
  by (simp add: format_record_def)

text \<open>C23: Whatever fields a log call passes, as long as they hold no tuples, the line it writes is one JSON object
  in which no sensitive key, at any depth, has a value other than the mask.\<close>

theorem logged_secrets_are_masked:
  assumes "jf_mask_secrets f" "list_all (\<lambda>q. logval_ok (snd q) \<and> tuple_free (snd q)) (business_fields r)"
  shows "\<exists>d. json_loads (format_record f ts r) = Some (JObj d) \<and> \<not> exposes (JObj d)"
proof -
  have ok: "list_all (\<lambda>q. logval_ok (snd q)) (business_fields r)" "list_all (\<lambda>q. tuple_free (snd q)) (business_fields r)"
    using assms(2) by (auto simp: list_all_iff)
  show ?thesis
    using format_record_json [OF ok(1) assms(1), of ts] mask_hides [OF full_payload_tuples [OF ok(2)], of f ts]
    by simp
qed

definition login_record :: log_record where
  "login_record = \<lparr>lr_level = ''INFO'', lr_name = ''app'', lr_message = ''login'',
     lr_ctx = Some (LDict [(''user'', LDict [(''name'', LStr ''bob''), (''Password'', LStr ''hunter2'')])]), lr_exc = None\<rparr>"

definition sample_formatter :: json_formatter where
  "sample_formatter = \<lparr>jf_service_name = ''users'', jf_app_env = ''production'', jf_mask_secrets = True\<rparr>"

lemma logged_secrets_are_masked_witness:
  "\<exists>d. json_loads (format_record sample_formatter ''2026-08-04T00:00:00+00:00'' login_record) = Some (JObj d) \<and> \<not> exposes (JObj d)"
  by (rule logged_secrets_are_masked) (simp_all add: sample_formatter_def login_record_def business_fields_def)

text \<open>A tuple is not searched: a secret in a dictionary inside a tuple is written in clear.\<close>

lemma tuples_leak:
  "exposes (to_json (mask_value (LDict [(''rows'', LTuple [LDict [(''password'', LStr ''hunter2'')]])])))"
proof -
  have "sensitive ''password''" "\<not> sensitive ''rows''" by code_simp+
  then show ?thesis by simp
qed

lemma builtin_not_sensitive: "k \<in> set BUILTIN_CTX_KEYS \<Longrightarrow> \<not> sensitive k"
proof -
  have "list_all (\<lambda>k. \<not> sensitive k) BUILTIN_CTX_KEYS" by code_simp
  then show "k \<in> set BUILTIN_CTX_KEYS \<Longrightarrow> ?thesis" by (simp add: list_all_iff)
qed

lemma builtin_not_base: "k \<in> set BUILTIN_CTX_KEYS \<Longrightarrow> map_of (base_payload f ts r) k = None \<and> k \<noteq> ''exc_info''"
  by (auto simp: BUILTIN_CTX_KEYS_def base_payload_def)

lemma filtered_fields:
  assumes "dict_ok (business_fields r)"
  shows "dict_ok (business_fields (context_filter c r)) \<and>
    map_of (business_fields (context_filter c r)) k =
      (if k \<in> set BUILTIN_CTX_KEYS then map_of (builtin_ctx c) k else map_of (business_fields r) k)"
proof -
  let ?f = "fold (\<lambda>(k, v) ctx. if k \<notin> set BUILTIN_CTX_KEYS then AList.update k v ctx else ctx) (business_fields r) (builtin_ctx c)"
  have "dict_ok (fold (\<lambda>(k, v) ctx. if k \<notin> set BUILTIN_CTX_KEYS then AList.update k v ctx else ctx) d p)"
    if "dict_ok p" for d p
    using that by (induction d arbitrary: p) (auto simp: dict_ok_update)
  moreover have "dict_ok (builtin_ctx c)" by (simp add: builtin_ctx_def dict_ok_def)
  ultimately have "dict_ok ?f" by blast
  moreover have "map_of ?f k = (if k \<in> set BUILTIN_CTX_KEYS then map_of (builtin_ctx c) k else map_of (business_fields r) k)"
  proof -
    have "map_of (builtin_ctx c) k = None" if "k \<notin> set BUILTIN_CTX_KEYS"
      using that by (auto simp: builtin_ctx_def BUILTIN_CTX_KEYS_def)
    then show ?thesis using map_of_fold_update_if [OF assms, of "\<lambda>k v. k \<notin> set BUILTIN_CTX_KEYS" "builtin_ctx c" k]
      by (auto split: option.split)
  qed
  ultimately show ?thesis by (simp add: context_filter_def business_fields_def)
qed

lemma map_of_map_values: "map_of (map (\<lambda>(k, v). (k, f k v)) d) x = map_option (f x) (map_of d x)"
  by (induction d) auto

lemma map_of_full_payload:
  assumes "dict_ok (business_fields r)" "k \<noteq> ''exc_info''"
  shows "map_of (full_payload f ts r) k =
    (case map_of (business_fields r) k of
       Some v \<Rightarrow> if v \<noteq> LNone \<and> v \<noteq> LStr [] then Some v else map_of (base_payload f ts r) k
     | None \<Rightarrow> map_of (base_payload f ts r) k)"
proof -
  have "map_of (full_payload f ts r) k = map_of (merge_ctx (business_fields r) (base_payload f ts r)) k"
    using assms(2) by (simp add: full_payload_def Let_def split: option.split)
  also have "\<dots> = (case map_of (business_fields r) k of
       Some v \<Rightarrow> if v \<noteq> LNone \<and> v \<noteq> LStr [] then Some v else map_of (base_payload f ts r) k
     | None \<Rightarrow> map_of (base_payload f ts r) k)"
    unfolding merge_ctx_def
    by (rule map_of_fold_update_if [OF assms(1), where P = "\<lambda>k v. v \<noteq> LNone \<and> v \<noteq> LStr []"])
  finally show ?thesis .
qed

lemma logged_field:
  assumes "list_all (\<lambda>q. logval_ok (snd q)) (business_fields r)" "jf_mask_secrets f" "\<not> sensitive k"
  shows "\<exists>d. json_loads (format_record f ts r) = Some (JObj d) \<and>
    map_of d k = map_option (\<lambda>v. to_json (mask_value v)) (map_of (full_payload f ts r) k)"
proof -
  have "map_of (map (\<lambda>(k, v). (k, to_json v)) (map (\<lambda>(k, v). (k, if sensitive k then LStr ''***'' else mask_value v)) d)) k
      = map_option (\<lambda>v. to_json (mask_value v)) (map_of d k)" for d
    using assms(3) by (simp only: map_of_map_values option.map_comp comp_def if_False)
  then show ?thesis using format_record_json [OF assms(1,2), of ts]
    by (simp only: mask_value.simps to_json.simps) blast
qed

lemma filtered_ok:
  assumes "logval_ok (LDict (business_fields r))"
  shows "logval_ok (LDict (business_fields (context_filter c r)))"
proof -
  have "logval_ok (LDict (builtin_ctx c))"
    by (auto simp: builtin_ctx_def opt_str_def split: option.split)
  moreover have "list_all (\<lambda>q. logval_ok (snd q)) (business_fields r)" using assms by simp
  ultimately have "logval_ok (LDict (fold (\<lambda>(k, v) ctx. if k \<notin> set BUILTIN_CTX_KEYS then AList.update k v ctx else ctx)
      (business_fields r) (builtin_ctx c)))"
    by (rule fold_update_if_ok)
  then show ?thesis by (simp add: context_filter_def business_fields_def [of "r\<lparr>lr_ctx := x\<rparr>" for x])
qed

text \<open>The context of a log line cannot be forged: its request id, trace id, span id, user and tenant are those
  of the request that logs, and absent when these are empty, whatever fields the call passes.\<close>

theorem log_context_is_authentic:
  assumes mask: "jf_mask_secrets f" and k: "k \<in> set BUILTIN_CTX_KEYS"
    and ok: "logval_ok (LDict (business_fields r))"
  shows "\<exists>d. json_loads (format_record f ts (context_filter c r)) = Some (JObj d) \<and>
    map_of d k = (case map_of (builtin_ctx c) k of
                    Some (LStr s) \<Rightarrow> if s = [] then None else Some (JStr s) | _ \<Rightarrow> None)"
proof -
  let ?r = "context_filter c r"
  have dict: "dict_ok (business_fields r)" using ok by (simp add: dict_ok_def)
  note fields = filtered_fields [OF dict, of c]
  have "logval_ok (LDict (business_fields ?r))" by (rule filtered_ok [OF ok])
  then have "list_all (\<lambda>q. logval_ok (snd q)) (business_fields ?r)" by simp
  from logged_field [OF this mask builtin_not_sensitive [OF k], of ts]
  obtain d where d: "json_loads (format_record f ts ?r) = Some (JObj d)"
    "map_of d k = map_option (\<lambda>v. to_json (mask_value v)) (map_of (full_payload f ts ?r) k)" by blast
  have "map_of (full_payload f ts ?r) k =
      (case map_of (builtin_ctx c) k of Some v \<Rightarrow> if v \<noteq> LNone \<and> v \<noteq> LStr [] then Some v else None | None \<Rightarrow> None)"
    using map_of_full_payload [of ?r k f ts] fields [of k] builtin_not_base [OF k, of f ts ?r] k
    by (auto split: option.split)
  moreover have "\<exists>v. map_of (builtin_ctx c) k = Some v \<and> (v = LNone \<or> (\<exists>s. v = LStr s))"
    using k by (auto simp: builtin_ctx_def BUILTIN_CTX_KEYS_def opt_str_def split: option.split)
  ultimately show ?thesis using d by auto
qed

lemma log_context_is_authentic_witness:
  "\<exists>d. json_loads (format_record sample_formatter ''now''
      (context_filter (set_request_context ''r-1'' [] [] default_ctx)
        (login_record\<lparr>lr_ctx := Some (LDict [(''request_id'', LStr ''forged'')])\<rparr>))) = Some (JObj d)
    \<and> map_of d ''request_id'' = Some (JStr ''r-1'')"
proof -
  have "jf_mask_secrets sample_formatter" "''request_id'' \<in> set BUILTIN_CTX_KEYS"
    "logval_ok (LDict (business_fields (login_record\<lparr>lr_ctx := Some (LDict [(''request_id'', LStr ''forged'')])\<rparr>)))"
    by (simp_all add: sample_formatter_def BUILTIN_CTX_KEYS_def business_fields_def)
  from log_context_is_authentic [OF this, of "''now''" "set_request_context ''r-1'' [] [] default_ctx"]
  show ?thesis by (simp add: builtin_ctx_def)
qed

text \<open>The other fields of a line can be forged: a call that passes a field named like one of the formatter's
  own (level, message, service, logger, env, ts) replaces it.\<close>

theorem log_fields_can_be_replaced:
  assumes mask: "jf_mask_secrets f" and ok: "logval_ok (LDict (business_fields r))"
    and field: "k \<in> {''ts'', ''level'', ''logger'', ''service'', ''env'', ''message''}"
    and forged: "map_of (business_fields r) k = Some (LStr s)" "s \<noteq> []"
  shows "\<exists>d. json_loads (format_record f ts (context_filter c r)) = Some (JObj d) \<and> map_of d k = Some (JStr s)"
proof -
  let ?r = "context_filter c r"
  have dict: "dict_ok (business_fields r)" using ok by (simp add: dict_ok_def)
  have "list_all (\<lambda>k. \<not> sensitive k) [''ts'', ''level'', ''logger'', ''service'', ''env'', ''message'']" by code_simp
  then have ns: "\<not> sensitive k" using field by auto
  have nk: "k \<notin> set BUILTIN_CTX_KEYS" "k \<noteq> ''exc_info''" using field by (auto simp: BUILTIN_CTX_KEYS_def)
  have "list_all (\<lambda>q. logval_ok (snd q)) (business_fields ?r)" using filtered_ok [OF ok] by simp
  from logged_field [OF this mask ns, of ts]
  obtain d where d: "json_loads (format_record f ts ?r) = Some (JObj d)"
    "map_of d k = map_option (\<lambda>v. to_json (mask_value v)) (map_of (full_payload f ts ?r) k)" by blast
  have "map_of (full_payload f ts ?r) k = Some (LStr s)"
    using map_of_full_payload [of ?r k f ts] filtered_fields [OF dict, of c k] nk forged by simp
  then show ?thesis using d by simp
qed

lemma log_fields_can_be_replaced_witness:
  "\<exists>d. json_loads (format_record sample_formatter ''now'' (context_filter default_ctx
      (login_record\<lparr>lr_level := ''ERROR'', lr_ctx := Some (LDict [(''level'', LStr ''DEBUG'')])\<rparr>))) = Some (JObj d)
    \<and> map_of d ''level'' = Some (JStr ''DEBUG'')"
  by (rule log_fields_can_be_replaced) (simp_all add: sample_formatter_def business_fields_def)

end
