(* ===== verification/App.thy ===== *)
theory App
  imports Gateway Users Logging
begin

section \<open>Assembly: kernel/app.py, kernel/telemetry.py, app/main.py, app/config.py\<close>

text \<open>
  What the application factories build from their settings: the layers of the middleware stack in the
  order in which they are added, the stores, the router of the databases, the background tasks; and the
  user service as an application on requests, so that a request can be followed from the gateway through
  the pool to the service.
\<close>

subsection \<open>The kernel's factory\<close>

datatype store_choice = RedisStore string int | MemoryStore

text \<open>\<open>accepts\<close>: the client of Redis can be built for the address.\<close>

definition build_idempotency_store :: "(string \<Rightarrow> bool) \<Rightarrow> string option \<Rightarrow> int \<Rightarrow> store_choice" where
  "build_idempotency_store accepts url ttl =
     (if truthy url \<and> accepts (the url) then RedisStore (the url) ttl else MemoryStore)"

datatype layer =
    IdentityLayer bool
  | RequestContextLayer
  | IdempotencyLayer string int
  | AccessLogLayer
  | MetricsLayer string

text \<open>The calls of \<open>app.add_middleware\<close>, in order.\<close>

definition kernel_layers :: "'z settings_scheme \<Rightarrow> layer list" where
  "kernel_layers st =
     [IdentityLayer (trust_proxy_headers st), RequestContextLayer,
      IdempotencyLayer (service_name st) (idempotency_ttl_seconds st)]
     @ (if log_access st then [AccessLogLayer] else [])
     @ [MetricsLayer (service_name st)]"

fun wrap :: "(http_response \<Rightarrow> message list) \<Rightarrow> 's store_ops \<Rightarrow> layer \<Rightarrow> ('s, 'a) app \<Rightarrow> ('s, 'a) app" where
  "wrap emit ops (IdentityLayer trust) inner = identity_middleware trust inner"
| "wrap emit ops RequestContextLayer inner = request_context_middleware inner"
| "wrap emit ops (IdempotencyLayer service ttl) inner = idempotency_middleware emit ops service ttl inner"
| "wrap emit ops AccessLogLayer inner = access_log_middleware inner"
| "wrap emit ops (MetricsLayer service) inner = metrics_middleware service inner"

definition app_title :: "string option \<Rightarrow> 'z settings_scheme \<Rightarrow> string" where
  "app_title title st = or_else title (app_name st @ '' '' @ service_name st)"

record kernel_app =
  ka_title :: string
  ka_layers :: "layer list"
  ka_store :: "store_choice option"
  ka_routes :: "string list"

text \<open>\<open>store\<close>: whether the caller gives a store of its own (then no choice is made). The routes in the order
  in which they are included.\<close>

definition kernel_create_app ::
  "(string \<Rightarrow> bool) \<Rightarrow> 'z settings_scheme \<Rightarrow> string option \<Rightarrow> string list \<Rightarrow> bool \<Rightarrow> kernel_app" where
  "kernel_create_app accepts st title routers own_store =
     \<lparr>ka_title = app_title title st, ka_layers = kernel_layers st,
      ka_store = (if own_store then None
                  else Some (build_idempotency_store accepts (redis_url st) (idempotency_ttl_seconds st))),
      ka_routes = [''/metrics'', ''/health/live'', ''/health/ready'', ''/errors''] @ routers\<rparr>"

subsection \<open>Telemetry\<close>

record tracer_provider =
  tp_service_name :: string
  tp_endpoint :: string

text \<open>\<open>available\<close>: the exporter can be imported and built. \<open>None\<close> leaves the no-op tracer.\<close>

definition setup_telemetry :: "bool \<Rightarrow> 'z settings_scheme \<Rightarrow> tracer_provider option" where
  "setup_telemetry available st =
     (if truthy (otel_exporter_otlp_endpoint st) \<and> available
      then Some \<lparr>tp_service_name = or_else (otel_service_name st) (service_name st),
                 tp_endpoint = rstrip_char CHR ''/'' (the (otel_exporter_otlp_endpoint st)) @ ''/v1/traces''\<rparr>
      else None)"

subsection \<open>The user service's factory\<close>

record service_settings = settings +
  default_page_size :: int

definition default_service :: service_settings where
  "default_service =
     settings.extend (default_settings\<lparr>service_name := ''service-template'', port := 8100\<rparr>)
       (service_settings.fields 20)"

definition replica_database_url_list :: "service_settings \<Rightarrow> string list" where
  "replica_database_url_list s = comma_list (replica_database_urls s)"

definition service_database_url :: "service_settings \<Rightarrow> string" where
  "service_database_url s = or_else (database_url s) ''sqlite+aiosqlite:///:memory:''"

definition service_router :: "service_settings \<Rightarrow> router" where
  "service_router s =
     build_database_router (service_database_url s) (replica_database_url s) (replica_database_url_list s)"

definition on_sqlite :: "service_settings \<Rightarrow> bool" where
  "on_sqlite s = starts_with ''sqlite'' (service_database_url s)"

definition service_store :: "(string \<Rightarrow> bool) \<Rightarrow> service_settings \<Rightarrow> store_choice" where
  "service_store accepts s =
     (if truthy (redis_url s) then build_idempotency_store accepts (redis_url s) (idempotency_ttl_seconds s) else MemoryStore)"

definition instance_id :: "service_settings \<Rightarrow> string \<Rightarrow> string \<Rightarrow> string" where
  "instance_id s hostname hex = service_name s @ ''-'' @ hostname @ ''-'' @ take 8 hex"

definition instance_address :: "service_settings \<Rightarrow> string" where
  "instance_address s =
     (if instance_url s \<noteq> [] then instance_url s else ''http://'' @ service_name s @ '':'' @ show_int (port s))"

text \<open>The lifespan: whether the tables are created at the start, the relay's configuration (its batch size is
  the constructor's default), the heartbeat's registration, and what leaving it does to the registry.\<close>

definition creates_tables :: "service_settings \<Rightarrow> bool" where
  "creates_tables s \<longleftrightarrow> is_development s \<and> on_sqlite s"

definition service_relay :: "service_settings \<Rightarrow> relay_config" where
  "service_relay s = default_relay\<lparr>rl_use_skip_locked := \<not> on_sqlite s\<rparr>"

definition service_heartbeat :: "service_settings \<Rightarrow> string \<Rightarrow> (real \<times> bool) list \<Rightarrow> local_registry \<Rightarrow> local_registry" where
  "service_heartbeat s iid rounds =
     run_heartbeat local_register (service_name s) iid (instance_address s) (of_int (service_registry_ttl_seconds s)) rounds"

definition service_shutdown :: "service_settings \<Rightarrow> string \<Rightarrow> local_registry \<Rightarrow> local_registry" where
  "service_shutdown s iid = local_deregister (service_name s) iid"

definition service_checks :: "(engine \<Rightarrow> bool) \<Rightarrow> router \<Rightarrow> (string \<times> bool option) list" where
  "service_checks engine_ok r = [(''db_write'', Some (check_write engine_ok r)), (''db_read'', Some (check_read engine_ok r))]"

subsection \<open>The user service on requests\<close>

text \<open>
  An exception with a handler of its own becomes a response, any other leaves the stack. \<open>others\<close> is the
  rest of the application. An empty body is \<open>None\<close> for FastAPI, a body that is no JSON a validation error
  before anything else runs.
\<close>

definition service_respond ::
  "(http_response \<Rightarrow> message list) \<Rightarrow> registry \<Rightarrow> ctxvars \<Rightarrow> scope \<Rightarrow> exn + int \<times> json \<Rightarrow> reply" where
  "service_respond emit reg ctx sc res =
     (case res of
        Inr (status, content) \<Rightarrow>
          \<lparr>sent = emit \<lparr>resp_status = status, resp_media_type = ''application/json'', resp_headers = [],
             resp_content = content\<rparr>, raised = None\<rparr>
      | Inl x \<Rightarrow>
          (case x of
             AppExc a \<Rightarrow> \<lparr>sent = emit (fst (handle_app_error reg ctx (scope_path sc) a)), raised = None\<rparr>
           | HTTPExc n d \<Rightarrow> \<lparr>sent = emit (handle_http_error ctx (scope_path sc) n d), raised = None\<rparr>
           | ValidationExc v \<Rightarrow>
               (case handle_validation_error reg ctx (scope_path sc) v of
                  Some r \<Rightarrow> \<lparr>sent = emit r, raised = None\<rparr>
                | None \<Rightarrow> \<lparr>sent = [], raised = Some x\<rparr>)
           | _ \<Rightarrow> \<lparr>sent = [], raised = Some x\<rparr>))"

definition service_routes ::
  "(http_response \<Rightarrow> message list) \<Rightarrow> registry \<Rightarrow> (real \<Rightarrow> string) \<Rightarrow> (json \<Rightarrow> int option) \<Rightarrow> (json \<Rightarrow> json)
    \<Rightarrow> defaults \<Rightarrow> ('s, service_state) app \<Rightarrow> ('s, service_state) app" where
  "service_routes emit reg show_time lax_int describe df others e sc w =
     (let answer = (\<lambda>(res, s'). (service_respond emit reg (w_ctx w) sc res, w\<lparr>w_app := s'\<rparr>)) in
      if sc_type sc \<noteq> ''http'' then others e sc w
      else if scope_method sc = ''POST'' \<and> match_path ''/v1/users'' (scope_path sc) then
        (case (if sc_body sc = [] then Some JNull else json_loads (sc_body sc)) of
           None \<Rightarrow> answer (Inl (ValidationExc (describe JNull)), w_app w)
         | Some payload \<Rightarrow> answer (create_user_route reg show_time lax_int describe (w_ctx w) df payload (w_app w)))
      else if scope_method sc = ''GET'' \<and> match_path ''/v1/users/{user_id}'' (scope_path sc) then
        answer (get_user_route reg show_time (w_ctx w) (removeprefix ''/v1/users/'' (scope_path sc)) (w_app w))
      else others e sc w)"

subsection \<open>Properties\<close>

text \<open>The stack the factory builds call by call, each layer around the ones before, is the composition of
  the middlewares: metrics outermost, then the access log if enabled, then idempotency, request context
  and identity.\<close>

theorem layers_compose:
  "fold (wrap emit ops) (ka_layers (kernel_create_app accepts st title routers own)) inner = kernel_stack emit ops st inner"
  by (simp add: kernel_create_app_def kernel_layers_def kernel_stack_def Let_def)

lemma any_ok_iff: "any_ok engine_ok es \<longleftrightarrow> (\<exists>e \<in> set es. engine_ok e)"
  by (induction es) auto

text \<open>The service is ready exactly while its primary and at least one of its read engines answer; one replica
  that is down does not make it unready.\<close>

theorem service_readiness:
  "fst (ready_response (service_checks engine_ok (service_router s))) =
     (if engine_ok (write_factory (service_router s)) \<and> (\<exists>e \<in> set (rt_reads (service_router s)). engine_ok e)
      then 200 else 503)"
proof -
  obtain results all_ok where r: "run_checks (service_checks engine_ok (service_router s)) ([], True) = (results, all_ok)"
    by fastforce
  have "all_ok = list_all (\<lambda>(n, a). a = Some True) (service_checks engine_ok (service_router s))"
    using run_checks_spec [of "service_checks engine_ok (service_router s)" "[]" True] r by simp
  moreover have "fst (ready_response (service_checks engine_ok (service_router s))) = (if all_ok then 200 else 503)"
    by (simp only: ready_response_def r prod.case fst_conv)
  ultimately show ?thesis
    by (simp add: service_checks_def check_write_def check_read_def any_ok_iff write_factory_def)
qed

text \<open>An instance lives in the registry from its first heartbeat to its shutdown: with heartbeats no further
  apart than the time to live it is listed, and after leaving the lifespan it is not.\<close>

theorem instance_lifecycle:
  assumes ok: "local_ok d" and beat: "beats rounds \<noteq> []"
    and fresh: "\<forall>i. i \<noteq> iid \<longrightarrow> local_live d (service_name s) i = None"
  defines "d' \<equiv> service_heartbeat s iid rounds d"
  shows "(now \<le> last (beats rounds) + of_int (service_registry_ttl_seconds s) \<longrightarrow>
      instance_address s \<in> set (fst (local_list now (service_name s) d'))) \<and>
    fst (local_list now (service_name s) (service_shutdown s iid d')) = []"
proof
  let ?ttl = "of_int (service_registry_ttl_seconds s) :: real"
  have ok': "local_ok d'" using local.beats_live [OF ok TrueI TrueI] unfolding d'_def service_heartbeat_def by blast
  show "now \<le> last (beats rounds) + ?ttl \<longrightarrow> instance_address s \<in> set (fst (local_list now (service_name s) d'))"
    using local.heartbeat_keeps_listed [OF ok TrueI TrueI beat] unfolding d'_def service_heartbeat_def by blast
  have "local_live d' (service_name s) i = None" if "i \<noteq> iid" for i
    using local.beats_others [OF ok TrueI TrueI that] fresh that unfolding d'_def service_heartbeat_def by metis
  then have "local_live (service_shutdown s iid d') (service_name s) i = None" for i
    using local.deregister_live [OF ok' TrueI TrueI, where svc = "service_name s" and svc' = "service_name s" and iid = iid and iid' = i]
    by (cases "i = iid") (simp_all add: service_shutdown_def)
  moreover have "local_ok (service_shutdown s iid d')"
    using local.deregister_live [OF ok' TrueI TrueI, where svc = "service_name s" and iid = iid] by (simp add: service_shutdown_def)
  ultimately have "set (fst (local_list now (service_name s) (service_shutdown s iid d'))) = {}"
    using local.list_live [OF _ TrueI, where s = "service_shutdown s iid d'" and svc = "service_name s" and now = now] by simp
  then show "fst (local_list now (service_name s) (service_shutdown s iid d')) = []" by simp
qed

lemma instance_lifecycle_witness:
  "fst (local_list 12 ''service-template'' (service_shutdown default_service ''i-1''
      (service_heartbeat default_service ''i-1'' [(0, True), (10, True)] []))) = []"
proof -
  have "local_ok []" "beats [(0, True), (10, True)] \<noteq> []"
    "\<forall>i. i \<noteq> ''i-1'' \<longrightarrow> local_live [] (service_name default_service) i = None"
    by (simp_all add: local_ok_def local_live_def dict_get_def)
  from instance_lifecycle [OF this, of 12]
  show ?thesis by (simp add: default_service_def default_settings_def settings.defs service_settings.defs)
qed

text \<open>The batch size a deployment configures never reaches the relay.\<close>

lemma outbox_batch_size_ignored:
  "service_relay (s\<lparr>outbox_batch_size := n\<rparr>) = service_relay s \<and> rl_batch_size (service_relay s) = 100"
  by (simp add: service_relay_def default_relay_def on_sqlite_def service_database_url_def)


definition user_world :: "(memory_store, service_state) world" where
  "user_world = \<lparr>w_ctx = default_ctx, w_store = [], w_access = [], w_metrics = no_metrics,
     w_app = primary_only \<lparr>db_users = [new_user sample_defaults alice], db_outbox = []\<rparr>\<rparr>"

definition not_found_app :: "(memory_store, service_state) app" where
  "not_found_app ev sc w = (\<lparr>sent = plain_emit (handle_http_error (w_ctx w) (scope_path sc) 404 ''Not Found''), raised = None\<rparr>, w)"


end
