(* ===== verification/Lifecycle.thy ===== *)
theory Lifecycle
  imports App Relay
begin

section \<open>The life of a service process: the lifespan of app/main.py\<close>

text \<open>
  A process of the user service from its start to its end, as a step relation: the lifespan starts the heartbeat
  and the relay as tasks; while they run they meet requests that stage events, other instances that register and
  the passing of time; at the end the lifespan cancels both, waits for them, takes the instance off the registry
  and closes the registry. A cancelled batch of the relay is rolled back after what it has published, as is one that
  fails. The process may be killed at any time.
\<close>

subsection \<open>Phases\<close>

datatype phase = Starting | Serving | Stopping | Deregistered | Closed | Aborted | Killed

definition phase_rank :: "phase \<Rightarrow> nat" where
  "phase_rank p = (case p of Starting \<Rightarrow> 0 | Serving \<Rightarrow> 1 | Stopping \<Rightarrow> 2 | Deregistered \<Rightarrow> 3 | Closed \<Rightarrow> 4 | Aborted \<Rightarrow> 5 | Killed \<Rightarrow> 6)"

instantiation phase :: linorder
begin

definition less_eq_phase :: "phase \<Rightarrow> phase \<Rightarrow> bool" where
  "less_eq_phase p q \<longleftrightarrow> phase_rank p \<le> phase_rank q"

definition less_phase :: "phase \<Rightarrow> phase \<Rightarrow> bool" where
  "less_phase p q \<longleftrightarrow> phase_rank p < phase_rank q"

instance
proof
  show "p \<le> q \<Longrightarrow> q \<le> p \<Longrightarrow> p = q" for p q :: phase
    by (cases p; cases q) (simp_all add: less_eq_phase_def phase_rank_def)
qed (auto simp: less_eq_phase_def less_phase_def)

end

lemmas phase_less = less_eq_phase_def less_phase_def phase_rank_def

subsection \<open>The process\<close>

text \<open>The registry's operations, the tasks that are alive, and the state the process shares: the registry, the
  table of the outbox and the bus.\<close>

record 's registry_ops =
  rp_register :: "real \<Rightarrow> string \<Rightarrow> string \<Rightarrow> string \<Rightarrow> real \<Rightarrow> 's \<Rightarrow> 's"
  rp_deregister :: "string \<Rightarrow> string \<Rightarrow> 's \<Rightarrow> 's"
  rp_close :: "'s \<Rightarrow> 's"

record ('s, 'w) process =
  pr_phase :: phase
  pr_heartbeat :: bool
  pr_relay :: bool
  pr_now :: real
  pr_registry :: 's
  pr_outbox :: "outbox_message list"
  pr_bus :: 'w

definition ttl_of :: "service_settings \<Rightarrow> real" where
  "ttl_of s = of_int (service_registry_ttl_seconds s)"

inductive life ::
  "'s registry_ops \<Rightarrow> service_settings \<Rightarrow> string \<Rightarrow> 'w handler \<Rightarrow> ('w \<Rightarrow> real) \<Rightarrow> ('s, 'w) process \<Rightarrow> ('s, 'w) process \<Rightarrow> bool"
  for ops s iid publish clock where
  start: "pr_phase a = Starting \<Longrightarrow>
    life ops s iid publish clock a (a\<lparr>pr_phase := Serving, pr_heartbeat := True, pr_relay := True\<rparr>)"
| start_fails: "pr_phase a = Starting \<Longrightarrow> creates_tables s \<Longrightarrow> life ops s iid publish clock a (a\<lparr>pr_phase := Aborted\<rparr>)"
| beat: "pr_heartbeat a \<Longrightarrow>
    life ops s iid publish clock a
      (a\<lparr>pr_registry := rp_register ops (pr_now a) (service_name s) iid (instance_address s) (ttl_of s) (pr_registry a)\<rparr>)"
| batch: "pr_relay a \<Longrightarrow> run_once (service_relay s) publish clock (pr_now a) locked (pr_outbox a) (pr_bus a) = (res, w) \<Longrightarrow>
    life ops s iid publish clock a (a\<lparr>pr_outbox := rr_table res, pr_bus := w\<rparr>)"
| batch_rolled_back: "pr_relay a \<Longrightarrow>
    deliver publish clock (pr_now a)
      (take k (select_batch (rl_use_skip_locked (service_relay s)) locked (rl_batch_size (service_relay s)) (pr_now a) (pr_outbox a)))
      (pr_bus a) = (rows, n, w) \<Longrightarrow>
    life ops s iid publish clock a (a\<lparr>pr_bus := w\<rparr>)"
| request: "pr_phase a = Serving \<Longrightarrow> i \<notin> ob_id ` set (pr_outbox a) \<Longrightarrow>
    life ops s iid publish clock a (a\<lparr>pr_outbox := snd (stage_outbox i t e (pr_outbox a))\<rparr>)"
| stop: "pr_phase a = Serving \<Longrightarrow> life ops s iid publish clock a (a\<lparr>pr_phase := Stopping\<rparr>)"
| heartbeat_ends: "pr_phase a = Stopping \<Longrightarrow> life ops s iid publish clock a (a\<lparr>pr_heartbeat := False\<rparr>)"
| relay_ends: "pr_phase a = Stopping \<Longrightarrow> life ops s iid publish clock a (a\<lparr>pr_relay := False\<rparr>)"
| deregister: "pr_phase a = Stopping \<Longrightarrow> \<not> pr_heartbeat a \<Longrightarrow> \<not> pr_relay a \<Longrightarrow>
    life ops s iid publish clock a
      (a\<lparr>pr_phase := Deregistered, pr_registry := rp_deregister ops (service_name s) iid (pr_registry a)\<rparr>)"
| deregister_fails: "pr_phase a = Stopping \<Longrightarrow> \<not> pr_heartbeat a \<Longrightarrow> \<not> pr_relay a \<Longrightarrow>
    life ops s iid publish clock a (a\<lparr>pr_phase := Aborted\<rparr>)"
| close: "pr_phase a = Deregistered \<Longrightarrow>
    life ops s iid publish clock a (a\<lparr>pr_phase := Closed, pr_registry := rp_close ops (pr_registry a)\<rparr>)"
| kill: "pr_phase a < Closed \<Longrightarrow>
    life ops s iid publish clock a (a\<lparr>pr_phase := Killed, pr_heartbeat := False, pr_relay := False\<rparr>)"
| other_registers: "i \<noteq> iid \<Longrightarrow> url \<noteq> [] \<Longrightarrow> life ops s iid publish clock a
      (a\<lparr>pr_registry := rp_register ops (pr_now a) (service_name s) i url (ttl_of s) (pr_registry a)\<rparr>)"
| other_leaves: "i \<noteq> iid \<Longrightarrow> life ops s iid publish clock a
      (a\<lparr>pr_registry := rp_deregister ops (service_name s) i (pr_registry a)\<rparr>)"
| time: "0 \<le> d \<Longrightarrow> life ops s iid publish clock a (a\<lparr>pr_now := pr_now a + d\<rparr>)"

inductive_cases lifeE: "life ops s iid publish clock a b"

text \<open>A process only goes forward, and its tasks run only between the start and the end of the lifespan.\<close>

lemma life_forward: "life ops s iid publish clock a b \<Longrightarrow> pr_phase a \<le> pr_phase b \<and> pr_now a \<le> pr_now b"
  by (induction rule: life.induct) (auto simp: phase_less split: phase.splits)

lemma lives_forward: "(life ops s iid publish clock)\<^sup>*\<^sup>* a b \<Longrightarrow> pr_phase a \<le> pr_phase b \<and> pr_now a \<le> pr_now b"
  by (induction rule: rtranclp_induct) (auto dest!: life_forward)

definition tasks_ok :: "('s, 'w) process \<Rightarrow> bool" where
  "tasks_ok a \<longleftrightarrow> (pr_heartbeat a \<or> pr_relay a \<longrightarrow> pr_phase a = Serving \<or> pr_phase a = Stopping)"

lemma life_tasks: "life ops s iid publish clock a b \<Longrightarrow> tasks_ok a \<Longrightarrow> tasks_ok b"
  by (induction rule: life.induct) (auto simp: tasks_ok_def)


text \<open>A process that has left its lifespan publishes nothing and leaves the outbox alone.\<close>

lemma ended_is_quiet:
  "life ops s iid publish clock a b \<Longrightarrow> tasks_ok a \<Longrightarrow> Deregistered \<le> pr_phase a \<Longrightarrow>
     pr_outbox b = pr_outbox a \<and> pr_bus b = pr_bus a"
  by (elim lifeE) (auto simp: tasks_ok_def phase_less)

subsection \<open>The registration\<close>

context closing_registry
begin

text \<open>A registration of the instance holds for at most the time to live; before the start and after the
  deregistration there is none.\<close>

definition registration :: "service_settings \<Rightarrow> string \<Rightarrow> ('s, 'w) process \<Rightarrow> bool" where
  "registration s iid a \<longleftrightarrow> ok (pr_registry a) \<and> tasks_ok a \<and>
     (\<forall>u t. live (pr_registry a) (service_name s) iid = Some (u, t) \<longrightarrow> t \<le> pr_now a + ttl_of s) \<and>
     (pr_phase a \<in> {Starting, Deregistered, Closed} \<longrightarrow> live (pr_registry a) (service_name s) iid = None)"

lemma life_registration:
  assumes step: "life \<lparr>rp_register = register, rp_deregister = deregister, rp_close = close_registry\<rparr> s iid publish clock a b"
    and svc: "named (service_name s)" and fits: "\<And>url. url \<noteq> [] \<Longrightarrow> fits url (ttl_of s)" and addr: "instance_address s \<noteq> []"
    and inv: "registration s iid a"
  shows "registration s iid b"
  using step inv
proof (induction rule: life.induct)
  case (beat a)
  then show ?case
    using register_live [OF _ svc svc fits [OF addr], of "pr_registry a" "pr_now a" iid iid]
    by (auto simp: registration_def tasks_ok_def)
next
  case (deregister a)
  then show ?case using deregister_live [OF _ svc svc, of "pr_registry a" iid iid]
    by (auto simp: registration_def tasks_ok_def)
next
  case (close a)
  then show ?case using close_live [of "pr_registry a" "service_name s" iid]
    by (auto simp: registration_def tasks_ok_def)
next
  case (other_registers i url a)
  then show ?case
    using register_live [OF _ svc svc fits, of "pr_registry a" url "pr_now a" i iid]
    by (auto simp: registration_def tasks_ok_def)
next
  case (other_leaves i a)
  then show ?case using deregister_live [OF _ svc svc, of "pr_registry a" i iid]
    by (auto simp: registration_def tasks_ok_def)
next
  case (time d a)
  then show ?case by (auto simp: registration_def tasks_ok_def)
qed (auto simp: registration_def tasks_ok_def)

lemma life_keeps_out:
  assumes step: "life \<lparr>rp_register = register, rp_deregister = deregister, rp_close = close_registry\<rparr> s iid publish clock a b"
    and svc: "named (service_name s)" and fits: "\<And>url. url \<noteq> [] \<Longrightarrow> fits url (ttl_of s)"
    and inv: "registration s iid a" and out: "Deregistered \<le> pr_phase a"
  shows "live (pr_registry b) (service_name s) iid = live (pr_registry a) (service_name s) iid
    \<or> live (pr_registry b) (service_name s) iid = None"
  using step inv out
proof (induction rule: life.induct)
  case (close a)
  then show ?case using close_live [of "pr_registry a" "service_name s" iid] by (auto simp: registration_def)
next
  case (other_registers i url a)
  then show ?case using register_live [OF _ svc svc fits, of "pr_registry a" url "pr_now a" i iid]
    by (auto simp: registration_def)
next
  case (other_leaves i a)
  then show ?case using deregister_live [OF _ svc svc, of "pr_registry a" i iid] by (auto simp: registration_def)
qed (auto simp: registration_def tasks_ok_def phase_less)

text \<open>Runs.\<close>

lemma lives_registration:
  assumes "(life \<lparr>rp_register = register, rp_deregister = deregister, rp_close = close_registry\<rparr> s iid publish clock)\<^sup>*\<^sup>* a b"
    and "named (service_name s)" "\<And>url. url \<noteq> [] \<Longrightarrow> fits url (ttl_of s)" "instance_address s \<noteq> []" "registration s iid a"
  shows "registration s iid b"
  using assms(1,5) by (induction rule: rtranclp_induct) (auto intro: life_registration [OF _ assms(2-4)])

lemma lives_keep_out:
  assumes "(life \<lparr>rp_register = register, rp_deregister = deregister, rp_close = close_registry\<rparr> s iid publish clock)\<^sup>*\<^sup>* a b"
    and "named (service_name s)" "\<And>url. url \<noteq> [] \<Longrightarrow> fits url (ttl_of s)" "instance_address s \<noteq> []" "registration s iid a"
    and "Deregistered \<le> pr_phase a"
  shows "live (pr_registry b) (service_name s) iid = live (pr_registry a) (service_name s) iid
    \<or> live (pr_registry b) (service_name s) iid = None"
  using assms(1)
proof (induction rule: rtranclp_induct)
  case base
  then show ?case by simp
next
  case (step b c)
  have "Deregistered \<le> pr_phase b" using lives_forward [OF step.hyps(1)] assms(6) by auto
  moreover have "registration s iid b" using lives_registration [OF step.hyps(1) assms(2-5)] .
  ultimately show ?case using life_keeps_out [OF step.hyps(2) assms(2,3)] step.IH by auto
qed

text \<open>An instance that has left its lifespan, or was killed longer ago than the time to live, is not listed.\<close>

lemma left_or_expired:
  assumes run: "(life \<lparr>rp_register = register, rp_deregister = deregister, rp_close = close_registry\<rparr> s iid publish clock)\<^sup>*\<^sup>* a b"
    and rest: "named (service_name s)" "\<And>url. url \<noteq> [] \<Longrightarrow> fits url (ttl_of s)" "instance_address s \<noteq> []" "registration s iid a"
    and gone: "pr_phase a \<in> {Deregistered, Closed} \<or> pr_phase a \<in> {Aborted, Killed} \<and> pr_now a + ttl_of s < pr_now b"
    and listed: "url \<in> set (fst (list_urls (pr_now b) (service_name s) (pr_registry b)))"
  shows "\<exists>i t. i \<noteq> iid \<and> live (pr_registry b) (service_name s) i = Some (url, t) \<and> pr_now b \<le> t"
proof -
  have "Deregistered \<le> pr_phase a" using gone by (auto simp: phase_less)
  note keep = lives_keep_out [OF run rest this]
  have "\<not> (\<exists>u t. live (pr_registry b) (service_name s) iid = Some (u, t) \<and> pr_now b \<le> t)"
  proof (rule notI, elim exE conjE)
    fix u t assume "live (pr_registry b) (service_name s) iid = Some (u, t)" and t: "pr_now b \<le> t"
    then have "live (pr_registry a) (service_name s) iid = Some (u, t)" using keep by simp
    then have "t \<le> pr_now a + ttl_of s" "pr_phase a \<notin> {Deregistered, Closed}" using rest(4) by (auto simp: registration_def)
    then show False using gone t by auto
  qed
  note out = this
  have ok': "ok (pr_registry b)" using lives_registration [OF run rest] by (simp add: registration_def)
  obtain i t where i: "live (pr_registry b) (service_name s) i = Some (url, t)" "pr_now b \<le> t"
    using listed unfolding list_live [OF ok' rest(1)] mem_Collect_eq by (elim exE conjE)
  then have "i \<noteq> iid" using out by (intro notI) simp
  then show ?thesis using i by (intro exI conjI)
qed

end

subsection \<open>The outbox\<close>

lemma stage_ok:
  "outbox_ok table \<Longrightarrow> i \<notin> ob_id ` set table \<Longrightarrow> outbox_ok (snd (stage_outbox i t e table))"
  by (simp add: stage_outbox_def outbox_ok_def keys_ok_def row_ok_def MAX_ATTEMPTS_def Let_def)

context event_publisher
begin

definition outbox_safe :: "('s, 'w) process \<Rightarrow> bool" where
  "outbox_safe a \<longleftrightarrow> outbox_ok (pr_outbox a) \<and> sent_accepted (pr_outbox a) (pr_bus a)"

lemma life_outbox:
  "life ops s iid publish clock a b \<Longrightarrow> outbox_safe a \<Longrightarrow>
     outbox_safe b \<and> (\<exists>more. map ob_id (pr_outbox b) = map ob_id (pr_outbox a) @ more)"
proof (induction rule: life.induct)
  case (batch a locked res w)
  then have ok: "outbox_ok (pr_outbox a)" "sent_accepted (pr_outbox a) (pr_bus a)" by (simp_all add: outbox_safe_def)
  from relay_keeps_outbox_for [OF ok(1) batch(2)] run_once_accepted [OF batch(2) ok(2)] run_once_keys [OF batch(2)]
  show ?case by (simp add: outbox_safe_def)
next
  case (batch_rolled_back a k locked rows n w)
  then have ok: "outbox_ok (pr_outbox a)" "sent_accepted (pr_outbox a) (pr_bus a)" by (simp_all add: outbox_safe_def)
  then have "sent_accepted (take k (select_batch (rl_use_skip_locked (service_relay s)) locked
      (rl_batch_size (service_relay s)) (pr_now a) (pr_outbox a))) (pr_bus a)"
    by (auto simp: sent_accepted_def dest!: in_set_takeD select_batch_in)
  from deliver_accepted [OF batch_rolled_back(2) this] ok sent_accepted_mono [OF ok(2)]
  show ?case by (simp add: outbox_safe_def)
next
  case (request a i t e)
  then show ?case using stage_ok [of "pr_outbox a" i t e]
    by (auto simp: outbox_safe_def sent_accepted_def stage_outbox_def Let_def)
qed (simp_all add: outbox_safe_def)

lemma lives_outbox:
  "(life ops s iid publish clock)\<^sup>*\<^sup>* a b \<Longrightarrow> outbox_safe a \<Longrightarrow>
     outbox_safe b \<and> (\<exists>more. map ob_id (pr_outbox b) = map ob_id (pr_outbox a) @ more)"
proof (induction rule: rtranclp_induct)
  case (step b c)
  then show ?case using life_outbox [OF step.hyps(2)] by fastforce
qed simp

end

subsection \<open>Properties\<close>

text \<open>The production process: the registry is Redis, the bus RabbitMQ.\<close>

definition redis_registry_ops :: "'r registry_client \<Rightarrow> 'r registry_ops" where
  "redis_registry_ops c = \<lparr>rp_register = redis_register c, rp_deregister = redis_deregister c, rp_close = redis_close\<rparr>"

definition local_registry_ops :: "local_registry registry_ops" where
  "local_registry_ops = \<lparr>rp_register = local_register, rp_deregister = local_deregister, rp_close = local_close\<rparr>"

lemma instance_address_nonempty: "instance_address s \<noteq> []"
  by (simp add: instance_address_def)

text \<open>The process before its start: nothing is running and the instance is not registered.\<close>

definition fresh_process :: "('r \<Rightarrow> string \<Rightarrow> (string \<times> real) option) \<Rightarrow> service_settings \<Rightarrow> string \<Rightarrow> ('r, 'w) process \<Rightarrow> bool" where
  "fresh_process entries s iid a \<longleftrightarrow>
     pr_phase a = Starting \<and> \<not> pr_heartbeat a \<and> \<not> pr_relay a \<and>
     redis_ok entries (pr_registry a) \<and> entries (pr_registry a) (registry_key (service_name s) iid) = None"

context registry_redis
begin

lemma ended_is_unlisted:
  assumes svc: "redis_named (service_name s)" and ttl: "0 < service_registry_ttl_seconds s"
    and fresh: "fresh_process entries s iid a0"
    and before: "(life (redis_registry_ops client) s iid publish clock)\<^sup>*\<^sup>* a0 a"
    and ended: "pr_phase a \<in> {Deregistered, Closed} \<or> pr_phase a \<in> {Aborted, Killed} \<and> pr_now a + ttl_of s < pr_now b"
    and after: "(life (redis_registry_ops client) s iid publish clock)\<^sup>*\<^sup>* a b"
    and url: "url \<in> set (redis_list client (pr_now b) (service_name s) (pr_registry b))"
  shows "\<exists>i t. i \<noteq> iid \<and> entries (pr_registry b) (registry_key (service_name s) i) = Some (url, t) \<and> pr_now b \<le> t"
proof -
  have fits: "u \<noteq> [] \<Longrightarrow> u \<noteq> [] \<and> 0 < ttl_of s" for u :: string using ttl by (simp add: ttl_of_def)
  have "shared.registration s iid a0"
    using fresh by (auto simp: fresh_process_def shared.registration_def tasks_ok_def)
  note start = shared.lives_registration [OF before [unfolded redis_registry_ops_def] svc fits instance_address_nonempty this]
  show ?thesis
    using shared.left_or_expired [OF after [unfolded redis_registry_ops_def] svc fits instance_address_nonempty start ended] url
    by simp
qed

end

text \<open>C6: An instance that ended leaves the gateway's pool. However its steps interleave with requests, batches, failures
  and other instances: once it has deregistered, or longer than the time to live after it was killed or aborted, the
  next discovery round drops its address from the pool, unless another instance is listed with the same address or
  no instance is listed any more, when the pool stays as it is.\<close>

theorem ended_instance_leaves_the_pool:
  assumes redis: "registry_redis c entries" and svc: "redis_named (service_name s)" and ttl: "0 < service_registry_ttl_seconds s"
    and fresh: "fresh_process entries s iid a0"
    and before: "(life (redis_registry_ops c) s iid publish clock)\<^sup>*\<^sup>* a0 a"
    and ended: "pr_phase a \<in> {Deregistered, Closed} \<or> pr_phase a \<in> {Aborted, Killed} \<and> pr_now a + ttl_of s < pr_now b"
    and after: "(life (redis_registry_ops c) s iid publish clock)\<^sup>*\<^sup>* a b"
    and alone: "\<forall>i t. i \<noteq> iid \<longrightarrow> entries (pr_registry b) (registry_key (service_name s) i) \<noteq> Some (instance_address s, t)"
    and bal: "bal_inv bal"
  defines "listed \<equiv> redis_list c (pr_now b) (service_name s) (pr_registry b)"
  shows "instance_address s \<notin> set listed \<and>
    (if listed = [] then discovery_step (Some listed) bal = bal
     else instance_address s \<notin> set (b_urls (discovery_step (Some listed) bal)))"
proof -
  have out: "instance_address s \<notin> set listed"
    using registry_redis.ended_is_unlisted [OF redis svc ttl fresh before ended after, of "instance_address s"] alone
    unfolding listed_def by blast
  show ?thesis
  proof (cases "listed = []")
    case True
    then show ?thesis by (simp add: discovery_step_def)
  next
    case False
    have "set (b_urls (discovery_step (Some listed) bal)) = set listed"
      using discovery_follows_registry [OF bal, of "Some listed"] False by simp
    then show ?thesis using out False by simp
  qed
qed

text \<open>The other way: a heartbeat that reached the registry brings the instance into the pool with the next discovery round
  within the time to live, and a new instance is available at once.\<close>

context registry_redis
begin

lemma beat_is_listed:
  assumes "redis_ok entries r" "redis_named (service_name s)" "0 < service_registry_ttl_seconds s" "now \<le> now0 + ttl_of s"
  shows "instance_address s \<in> set (redis_list client now (service_name s)
    (redis_register client now0 (service_name s) iid (instance_address s) (ttl_of s) r))"
  using shared.listed_after_register [OF assms(1,2) _ assms(4), of "instance_address s" iid] assms(3) instance_address_nonempty
  by (simp add: ttl_of_def)

end

theorem beating_instance_joins_the_pool:
  assumes redis: "registry_redis c entries" and ok: "redis_ok entries (pr_registry a)" and svc: "redis_named (service_name s)"
    and ttl: "0 < service_registry_ttl_seconds s" and now: "now \<le> pr_now a + ttl_of s" and bal: "bal_inv bal"
    and beat: "r = rp_register (redis_registry_ops c) (pr_now a) (service_name s) iid (instance_address s) (ttl_of s) (pr_registry a)"
    and listed: "listed = redis_list c now (service_name s) r"
  shows "instance_address s \<in> set (b_urls (discovery_step (Some listed) bal)) \<and>
    (instance_address s \<notin> set (b_urls bal) \<longrightarrow> is_available t (discovery_step (Some listed) bal) (instance_address s) = Some True)"
proof -
  have url: "instance_address s \<in> set listed"
    using registry_redis.beat_is_listed [OF redis ok svc ttl now] by (simp add: listed beat redis_registry_ops_def)
  then have ne: "listed \<noteq> []" by auto
  have step: "discovery_step (Some listed) bal = refresh listed bal" using ne by (simp add: discovery_step_def)
  have "instance_address s \<notin> set (b_urls bal) \<Longrightarrow> map_of (b_states bal) (instance_address s) = None"
    using inv_known [OF bal, of "instance_address s"] by (cases "map_of (b_states bal) (instance_address s)") auto
  then show ?thesis using url ne
    by (auto simp: step refresh_urls is_available_def refresh_states dict_get_def fresh_state_def)
qed

text \<open>A process that serves, hears of a second instance, and stops.\<close>

definition sample_process :: "((string, string \<times> real) pydict, nat) process" where
  "sample_process = \<lparr>pr_phase = Starting, pr_heartbeat = False, pr_relay = False, pr_now = 0, pr_registry = [], pr_outbox = [], pr_bus = 0\<rparr>"

definition both_listed :: "(string, string \<times> real) pydict" where
  "both_listed = redis_register map_registry 0 ''service-template'' ''i-2'' ''http://b'' 30
     (redis_register map_registry 0 ''service-template'' ''i-1'' (instance_address default_service) 30 [])"

lemma default_service_values:
  "service_name default_service = ''service-template''" "service_registry_ttl_seconds default_service = 30" "ttl_of default_service = 30"
  by (simp_all add: ttl_of_def default_service_def default_settings_def settings.defs service_settings.defs)

lemma beating_instance_joins_the_pool_witness:
  "instance_address default_service \<in> set (b_urls (discovery_step
     (Some (redis_list map_registry 20 (service_name default_service)
        (rp_register (redis_registry_ops map_registry) 0 (service_name default_service) ''i-1'' (instance_address default_service) 30 [])))
     two_hosts))"
proof -
  have a: "redis_ok map_of (pr_registry sample_process)" "redis_named (service_name default_service)"
    "0 < service_registry_ttl_seconds default_service" "20 \<le> pr_now sample_process + ttl_of default_service"
    by (simp_all add: sample_process_def redis_ok_def default_service_values redis_named_def glob_special_def)
  show ?thesis
    using beating_instance_joins_the_pool [OF map_registry.registry_redis_axioms a two_hosts_inv refl refl]
    by (simp add: default_service_values sample_process_def)
qed

lemma sample_life:
  "(life (redis_registry_ops map_registry) default_service ''i-1'' accepting (\<lambda>w. 0))\<^sup>*\<^sup>* sample_process
     (sample_process\<lparr>pr_phase := Deregistered,
        pr_registry := redis_deregister map_registry ''service-template'' ''i-1'' both_listed\<rparr>)"
proof -
  let ?L = "life (redis_registry_ops map_registry) default_service ''i-1'' accepting (\<lambda>w. 0)"
  define p1 where "p1 = sample_process\<lparr>pr_phase := Serving, pr_heartbeat := True, pr_relay := True\<rparr>"
  define p2 where "p2 = p1\<lparr>pr_registry := redis_register map_registry 0 ''service-template'' ''i-1'' (instance_address default_service) 30 []\<rparr>"
  define p3 where "p3 = p2\<lparr>pr_registry := both_listed\<rparr>"
  define p4 where "p4 = p3\<lparr>pr_phase := Stopping\<rparr>"
  define p5 where "p5 = p4\<lparr>pr_heartbeat := False\<rparr>"
  define p6 where "p6 = p5\<lparr>pr_relay := False\<rparr>"
  note ps = p1_def p2_def p3_def p4_def p5_def p6_def sample_process_def redis_registry_ops_def default_service_values both_listed_def
  have "?L sample_process p1" using life.start [of sample_process] by (simp add: ps)
  moreover have "?L p1 p2" using life.beat [of p1 "redis_registry_ops map_registry" default_service "''i-1''" accepting "\<lambda>w. 0"]
    by (simp add: ps)
  moreover have "?L p2 p3"
    using life.other_registers [of "''i-2''" "''i-1''" "''http://b''" "redis_registry_ops map_registry" default_service accepting "\<lambda>w. 0" p2]
    by (simp add: ps)
  moreover have "?L p3 p4" using life.stop [of p3] by (simp add: ps)
  moreover have "?L p4 p5" using life.heartbeat_ends [of p4] by (simp add: ps)
  moreover have "?L p5 p6" using life.relay_ends [of p5] by (simp add: ps)
  moreover have "?L p6 (sample_process\<lparr>pr_phase := Deregistered,
        pr_registry := redis_deregister map_registry ''service-template'' ''i-1'' both_listed\<rparr>)"
    using life.deregister [of p6 "redis_registry_ops map_registry" default_service "''i-1''" accepting "\<lambda>w. 0"] by (simp add: ps)
  ultimately show ?thesis by (meson rtranclp.rtrancl_refl rtranclp.rtrancl_into_rtrancl)
qed

lemma ended_instance_leaves_the_pool_witness:
  "instance_address default_service \<notin>
     set (b_urls (discovery_step (Some [''http://b'']) (balancer_init [instance_address default_service, ''http://b''] 3 30)))"
proof -
  let ?b = "sample_process\<lparr>pr_phase := Deregistered,
        pr_registry := redis_deregister map_registry ''service-template'' ''i-1'' both_listed\<rparr>"
  have svc: "redis_named (service_name default_service)" by (simp add: default_service_values redis_named_def glob_special_def)
  have ttl: "0 < service_registry_ttl_seconds default_service" by (simp add: default_service_values)
  have fresh: "fresh_process map_of default_service ''i-1'' sample_process"
    by (simp add: fresh_process_def sample_process_def redis_ok_def)
  have ended: "pr_phase ?b \<in> {Deregistered, Closed} \<or> pr_phase ?b \<in> {Aborted, Killed} \<and> pr_now ?b + ttl_of default_service < pr_now ?b"
    by simp
  have reg: "pr_registry ?b = [(registry_key ''service-template'' ''i-2'', (''http://b'', 30))]"
    by (simp add: both_listed_def redis_deregister_def redis_register_def map_registry_def registry_key_def)
  have addr: "instance_address default_service \<noteq> ''http://b''"
    by (simp add: instance_address_def default_service_def default_settings_def settings.defs service_settings.defs)
  have alone: "\<forall>i t. i \<noteq> ''i-1'' \<longrightarrow> map_of (pr_registry ?b) (registry_key (service_name default_service) i) \<noteq> Some (instance_address default_service, t)"
    using addr unfolding reg by auto
  have bal: "bal_inv (balancer_init [instance_address default_service, ''http://b''] 3 30)" by (rule inv_init) simp
  have listed: "redis_list map_registry (pr_now ?b) (service_name default_service) (pr_registry ?b) = [''http://b'']"
    unfolding reg by (simp add: redis_list_def map_registry_def sample_process_def default_service_values registry_key_def)
  show ?thesis
    using ended_instance_leaves_the_pool [OF map_registry.registry_redis_axioms svc ttl fresh sample_life ended rtranclp.rtrancl_refl alone bal]
    unfolding listed by simp
qed

lemma row_on_broker:
  "to_envelope r \<in> on_broker show_time bn \<longleftrightarrow>
     (ob_event_name r, rabbit_message show_time (to_envelope r)) \<in> set (br_published (fst bn))"
  by (simp add: on_broker_def) (simp add: to_envelope_def)

text \<open>C8: No event is lost or forged when a process ends. However a process stops, fails or is killed, its outbox stays well
  formed, has every row it had before, and the broker has the message of every row that is marked as sent; so the
  next process continues where this one ended.\<close>

theorem outbox_survives_the_process:
  assumes run: "(life ops s iid (rabbit_bus net show_time) clock)\<^sup>*\<^sup>* a b"
    and ok: "outbox_ok (pr_outbox a)"
    and before: "\<forall>r \<in> set (pr_outbox a). ob_status r = SENT \<longrightarrow>
      (ob_event_name r, rabbit_message show_time (to_envelope r)) \<in> set (br_published (fst (pr_bus a)))"
  shows "outbox_ok (pr_outbox b) \<and> (\<exists>more. map ob_id (pr_outbox b) = map ob_id (pr_outbox a) @ more) \<and>
    (\<forall>r \<in> set (pr_outbox b). ob_status r = SENT \<longrightarrow>
      (ob_event_name r, rabbit_message show_time (to_envelope r)) \<in> set (br_published (fst (pr_bus b))))"
proof -
  have "rabbit.outbox_safe show_time a" using ok before by (auto simp: rabbit.outbox_safe_def rabbit.sent_accepted_def row_on_broker)
  from rabbit.lives_outbox [OF run this] show ?thesis
    by (auto simp: rabbit.outbox_safe_def rabbit.sent_accepted_def row_on_broker)
qed

lemma outbox_survives_the_process_witness:
  "\<exists>p r. (life local_registry_ops default_service ''i-1'' (rabbit_bus (\<lambda>k. (None, Confirmed)) (\<lambda>t. ''0'')) (\<lambda>w. 1))\<^sup>*\<^sup>*
      \<lparr>pr_phase = Starting, pr_heartbeat = False, pr_relay = False, pr_now = 0, pr_registry = [], pr_outbox = sample_table,
       pr_bus = (no_broker, 0)\<rparr> p
    \<and> pr_phase p = Killed \<and> pr_outbox p = [r] \<and> ob_status r = SENT
    \<and> (ob_event_name r, rabbit_message (\<lambda>t. ''0'') (to_envelope r)) \<in> set (br_published (fst (pr_bus p)))"
proof -
  let ?bus = "rabbit_bus (\<lambda>k. (None, Confirmed)) (\<lambda>t. ''0'')"
  let ?L = "life local_registry_ops default_service ''i-1'' ?bus (\<lambda>w. 1)"
  define p0 :: "(local_registry, nat broker \<times> nat) process" where
    "p0 = \<lparr>pr_phase = Starting, pr_heartbeat = False, pr_relay = False, pr_now = 0, pr_registry = [], pr_outbox = sample_table,
       pr_bus = (no_broker, 0)\<rparr>"
  let ?run = "run_once (service_relay default_service) ?bus (\<lambda>w. 1) 0 {} sample_table (no_broker, 0)"
  define res where "res = fst ?run"
  define w where "w = snd ?run"
  have run: "?run = (res, w)" by (simp add: res_def w_def)
  have "\<exists>r. rr_table res = [r] \<and> ob_status r = SENT"
    by (simp add: res_def sample_table_def stage_outbox_def run_once_def select_batch_def due_def service_relay_def default_relay_def
        rabbit_bus_def rabbit_publish_def rabbit_connect_def no_broker_def new_bus_def mark_sent_def write_back_def Let_def)
  then obtain r where r: "rr_table res = [r]" "ob_status r = SENT" by blast
  define p1 where "p1 = p0\<lparr>pr_phase := Serving, pr_heartbeat := True, pr_relay := True\<rparr>"
  define p2 where "p2 = p1\<lparr>pr_outbox := rr_table res, pr_bus := w\<rparr>"
  define p3 where "p3 = p2\<lparr>pr_phase := Killed, pr_heartbeat := False, pr_relay := False\<rparr>"
  have "?L p0 p1" unfolding p1_def by (rule life.start) (simp add: p0_def)
  moreover have "?L p1 p2" unfolding p2_def by (rule life.batch [where locked = "{}"]) (simp_all add: p1_def p0_def run)
  moreover have "?L p2 p3" unfolding p3_def by (rule life.kill) (simp add: p2_def p1_def phase_less)
  ultimately have life: "?L\<^sup>*\<^sup>* p0 p3" by (meson rtranclp.rtrancl_refl rtranclp.rtrancl_into_rtrancl)
  have "outbox_ok (pr_outbox p0)" using sample_table_ok by (simp add: p0_def)
  moreover have "\<forall>r \<in> set (pr_outbox p0). ob_status r = SENT \<longrightarrow>
      (ob_event_name r, rabbit_message (\<lambda>t. ''0'') (to_envelope r)) \<in> set (br_published (fst (pr_bus p0)))"
    by (simp add: p0_def sample_table_def stage_outbox_def Let_def)
  moreover have p3: "pr_phase p3 = Killed" "pr_outbox p3 = [r]" using r by (simp_all add: p3_def p2_def)
  ultimately have "(ob_event_name r, rabbit_message (\<lambda>t. ''0'') (to_envelope r)) \<in> set (br_published (fst (pr_bus p3)))"
    using outbox_survives_the_process [OF life] r(2) by simp
  then show ?thesis using life p3 r(2) unfolding p0_def by blast
qed

text \<open>A serving process can always end in order.\<close>

lemma shutdown_possible:
  assumes "pr_phase a = Serving"
  shows "\<exists>b. (life ops s iid publish clock)\<^sup>*\<^sup>* a b \<and> pr_phase b = Closed"
proof -
  let ?L = "life ops s iid publish clock"
  define a1 where "a1 = a\<lparr>pr_phase := Stopping\<rparr>"
  define a2 where "a2 = a1\<lparr>pr_heartbeat := False\<rparr>"
  define a3 where "a3 = a2\<lparr>pr_relay := False\<rparr>"
  define a4 where "a4 = a3\<lparr>pr_phase := Deregistered, pr_registry := rp_deregister ops (service_name s) iid (pr_registry a3)\<rparr>"
  have "?L a a1" unfolding a1_def using assms by (rule life.stop)
  moreover have "?L a1 a2" unfolding a2_def by (rule life.heartbeat_ends) (simp add: a1_def)
  moreover have "?L a2 a3" unfolding a3_def by (rule life.relay_ends) (simp add: a2_def a1_def)
  moreover have "?L a3 a4" unfolding a4_def by (rule life.deregister) (simp_all add: a3_def a2_def a1_def)
  moreover have "?L a4 (a4\<lparr>pr_phase := Closed, pr_registry := rp_close ops (pr_registry a4)\<rparr>)"
    by (rule life.close) (simp add: a4_def)
  ultimately have "?L\<^sup>*\<^sup>* a (a4\<lparr>pr_phase := Closed, pr_registry := rp_close ops (pr_registry a4)\<rparr>)"
    by (meson rtranclp.rtrancl_refl rtranclp.rtrancl_into_rtrancl)
  then show ?thesis by (intro exI conjI) (assumption, simp)
qed

end
