(* ===== verification/Service.thy ===== *)
theory Service
  imports App Autoscaler
begin

section \<open>The assembled service: app/main.py, kernel/app.py and the kernel's own routes\<close>

text \<open>
  What \<open>create_app\<close> of the user service and of the autoscaler put together, and the service as one application: the
  kernel's routes (metrics, health, error codes) in front of the service's, inside the middleware stack, inside
  the handler for unexpected exceptions, which Starlette runs outermost and which lets the exception go on to the
  server after the response.
\<close>

subsection \<open>The factories\<close>

record service_app =
  sa_router :: router
  sa_listeners :: "(nat, listeners) pydict"
  sa_bus :: bus_choice
  sa_store :: "store_choice option"
  sa_registry :: registry_choice
  sa_instance_id :: string
  sa_instance_url :: string
  sa_relay :: relay_config
  sa_creates_tables :: bool
  sa_registry_ttl :: int
  sa_kernel :: kernel_app
  sa_checks :: "string list"
  sa_write_engine :: engine
  sa_read_engine :: engine

text \<open>\<open>own_store\<close>: the caller gave a store. The relay's session factory is the write factory.\<close>

definition create_service :: "(string \<Rightarrow> bool) \<Rightarrow> service_settings \<Rightarrow> bool \<Rightarrow> string \<Rightarrow> string \<Rightarrow> service_app" where
  "create_service accepts s own_store hostname hex =
     (let db = service_router s in
      \<lparr>sa_router = db,
       sa_listeners = install_slow_logging (log_slow_query_ms s) db,
       sa_bus = build_event_bus (amqp_url s),
       sa_store = (if own_store then None else Some (service_store accepts s)),
       sa_registry = build_registry accepts (registry_url s),
       sa_instance_id = instance_id s hostname hex,
       sa_instance_url = instance_address s,
       sa_relay = service_relay s,
       sa_creates_tables = creates_tables s,
       sa_registry_ttl = service_registry_ttl_seconds s,
       sa_kernel = kernel_create_app accepts s (Some ''Service Template API'') [''/v1/users'', ''/v1/users/{user_id}''] True,
       sa_checks = [''db_write'', ''db_read''],
       sa_write_engine = write_factory db,
       sa_read_engine = (case rt_reads db of e # es \<Rightarrow> e | [] \<Rightarrow> write_factory db)\<rparr>)"

text \<open>The autoscaler: its controller, what its scaler does, the loop's interval, and its kernel application, which
  builds an idempotency store from the settings and has no routes of its own. The time limit of its client is in
  seconds.\<close>

record 'k autoscaler_app =
  aa_controller :: controller
  aa_scaler :: "'k scaler"
  aa_interval :: real
  aa_client_timeout :: real
  aa_kernel :: kernel_app

definition create_autoscaler ::
  "(string list \<Rightarrow> string \<Rightarrow> 'k \<Rightarrow> (int \<times> string) \<times> 'k) \<Rightarrow> (string \<Rightarrow> bool) \<Rightarrow> autoscaler_settings \<Rightarrow> 'k autoscaler_app" where
  "create_autoscaler run accepts s =
     \<lparr>aa_controller = controller_init s, aa_scaler = choose_scaler run s, aa_interval = interval_seconds s,
      aa_client_timeout = 5, aa_kernel = kernel_create_app accepts s (Some ''Dynamic Autoscaler'') [] False\<rparr>"

subsection \<open>The kernel's routes\<close>

text \<open>\<open>expose\<close> renders the metrics in the text format of the Prometheus client; \<open>checks\<close> runs the readiness
  checks on the state of the service; \<open>others\<close> are the routes included after the kernel's.\<close>

definition json_reply :: "(http_response \<Rightarrow> message list) \<Rightarrow> int \<Rightarrow> json \<Rightarrow> reply" where
  "json_reply emit status content =
     \<lparr>sent = emit \<lparr>resp_status = status, resp_media_type = ''application/json'', resp_headers = [], resp_content = content\<rparr>,
      raised = None\<rparr>"

definition kernel_routes ::
  "(http_response \<Rightarrow> message list) \<Rightarrow> (metrics \<Rightarrow> message list) \<Rightarrow> registry \<Rightarrow> ('a \<Rightarrow> (string \<times> bool option) list)
    \<Rightarrow> ('s, 'a) app \<Rightarrow> ('s, 'a) app" where
  "kernel_routes emit expose reg checks others e sc w =
     (if sc_type sc \<noteq> ''http'' \<or> scope_method sc \<noteq> ''GET'' then others e sc w
      else if match_path ''/metrics'' (scope_path sc) then (\<lparr>sent = expose (w_metrics w), raised = None\<rparr>, w)
      else if match_path ''/health/live'' (scope_path sc) then (json_reply emit 200 live, w)
      else if match_path ''/health/ready'' (scope_path sc) then
        (case ready_response (checks (w_app w)) of (status, content) \<Rightarrow> (json_reply emit status content, w))
      else if match_path ''/errors'' (scope_path sc) then (json_reply emit 200 (list_error_codes reg), w)
      else others e sc w)"

subsection \<open>The handler for unexpected exceptions\<close>

text \<open>It answers only if no response has started, and the exception still reaches the server.\<close>

definition error_boundary :: "(http_response \<Rightarrow> message list) \<Rightarrow> registry \<Rightarrow> ('s, 'a) app \<Rightarrow> ('s, 'a) app" where
  "error_boundary emit reg inner e sc w =
     (case inner e sc w of
        (rp, w') \<Rightarrow>
          if sc_type sc \<noteq> ''http'' \<or> raised rp = None \<or> list_ex is_start (sent rp) then (rp, w')
          else
            (case fst (handle_unexpected reg (w_ctx w') (scope_method sc) (scope_path sc)) of
               None \<Rightarrow> (rp, w')
             | Some r \<Rightarrow> (rp\<lparr>sent := sent rp @ emit r\<rparr>, w')))"

text \<open>The whole user service. \<open>others\<close> answers what no route fits (404, 405).\<close>

definition service_application ::
  "(http_response \<Rightarrow> message list) \<Rightarrow> (metrics \<Rightarrow> message list) \<Rightarrow> registry \<Rightarrow> (engine \<Rightarrow> bool) \<Rightarrow> (real \<Rightarrow> string)
    \<Rightarrow> (json \<Rightarrow> int option) \<Rightarrow> (json \<Rightarrow> json) \<Rightarrow> defaults \<Rightarrow> 's store_ops \<Rightarrow> service_settings
    \<Rightarrow> ('s, service_state) app \<Rightarrow> ('s, service_state) app" where
  "service_application emit expose reg engine_ok show_time lax_int describe df ops s others =
     error_boundary emit reg
       (kernel_stack emit ops s
          (kernel_routes emit expose reg (\<lambda>sv. service_checks engine_ok (sv_router sv))
             (service_routes emit reg show_time lax_int describe df others)))"

subsection \<open>Every request is answered\<close>

text \<open>A complete response is a start message, any number of body parts and the last one. An application answers if
  every HTTP request ends with a complete response or with an exception before anything is sent.\<close>

definition complete :: "message list \<Rightarrow> bool" where
  "complete ms \<longleftrightarrow> (\<exists>status hs bs b. ms = chunked status hs bs b)"

definition answering :: "('s, 'a) app \<Rightarrow> bool" where
  "answering app \<longleftrightarrow> (\<forall>e sc w. sc_type sc = ''http'' \<longrightarrow>
     (raised (fst (app e sc w)) = None \<and> complete (sent (fst (app e sc w)))) \<or>
     (raised (fst (app e sc w)) \<noteq> None \<and> sent (fst (app e sc w)) = []))"

definition good_reply :: "reply \<Rightarrow> bool" where
  "good_reply rp \<longleftrightarrow> raised rp = None \<and> complete (sent rp) \<or> raised rp \<noteq> None \<and> sent rp = []"

lemma answeringI: "(\<And>e sc w. sc_type sc = ''http'' \<Longrightarrow> good_reply (fst (app e sc w))) \<Longrightarrow> answering app"
  by (simp add: answering_def good_reply_def)

lemma answeringD: "answering app \<Longrightarrow> sc_type sc = ''http'' \<Longrightarrow> good_reply (fst (app e sc w))"
  by (simp add: answering_def good_reply_def)

lemma answering_pair: "answering app \<Longrightarrow> app e sc w = (rp, w') \<Longrightarrow> sc_type sc = ''http'' \<Longrightarrow> good_reply rp"
  using answeringD [of app sc e w] by simp

lemma complete_emit: "emits emit \<Longrightarrow> complete (emit r)"
proof -
  assume "emits emit"
  then obtain hs where "emit r = [ResponseStart (resp_status r) hs, ResponseBody (json_compact (resp_content r)) False]"
    unfolding emits_def by blast
  then have "emit r = chunked (resp_status r) hs [] (json_compact (resp_content r))" by (simp add: chunked_def)
  then show ?thesis unfolding complete_def by blast
qed

lemma complete_start: "complete ms \<Longrightarrow> list_ex is_start ms"
  by (auto simp: complete_def chunked_def is_start_def)

lemma good_json_reply: "emits emit \<Longrightarrow> good_reply (json_reply emit status content)"
  by (simp add: good_reply_def json_reply_def complete_emit)

lemma unfinished: "\<not> complete (ResponseStart status hs # body_parts bs)"
proof
  assume "complete (ResponseStart status hs # body_parts bs)"
  then obtain st' hs' bs' b where "body_parts bs = map (\<lambda>c. ResponseBody c True) bs' @ [ResponseBody b False]"
    by (auto simp: complete_def chunked_def)
  then have "ResponseBody b False \<in> set (body_parts bs)" by simp
  then show False by (auto simp: body_parts_def)
qed

lemma header_chunked: "map (add_header k v) (chunked status hs bs b) = chunked status (hs @ [(k, v)]) bs b"
  by (simp add: chunked_def add_header_def comp_def)

lemma good_stamp: "good_reply rp \<Longrightarrow> good_reply (stamp rid rp)"
proof (cases "raised rp")
  case (Some x)
  assume "good_reply rp"
  then show ?thesis using Some by (auto simp: good_reply_def stamp_def split: option.split)
next
  case None
  assume "good_reply rp"
  then obtain status hs bs b where s: "sent rp = chunked status hs bs b" using None by (auto simp: good_reply_def complete_def)
  show ?thesis
  proof (cases "latin1_encode rid")
    case None
    then show ?thesis using s by (simp add: stamp_def good_reply_def chunked_def is_start_def)
  next
    case (Some v)
    then have "sent (stamp rid rp) = chunked status (hs @ [(''x-request-id'', v)]) bs b" by (simp add: stamp_def s header_chunked)
    then show ?thesis using None Some unfolding good_reply_def complete_def by (auto simp: stamp_def)
  qed
qed

lemma good_replay: "emits emit \<Longrightarrow> good_reply (replay emit cached)"
  by (auto simp: replay_def good_reply_def complete_emit split: option.split json.split)

lemma identity_answering: "answering inner \<Longrightarrow> answering (identity_middleware trust inner)"
  by (rule answeringI) (simp add: identity_middleware_def answeringD Let_def)

lemma request_context_answering: "answering inner \<Longrightarrow> answering (request_context_middleware inner)"
  by (rule answeringI)
    (auto simp: request_context_middleware_def Let_def split: prod.split intro!: good_stamp elim: answering_pair)

text \<open>A store whose \<open>put\<close> never raises, as the in-process store is; its \<open>get\<close> may raise.\<close>

definition putting :: "'s store_ops \<Rightarrow> bool" where
  "putting ops \<longleftrightarrow> (\<forall>k v ttl s. fst (st_put ops k v ttl s) = None)"

lemma mem_putting: "putting mem_ops"
  by (simp add: putting_def mem_ops_def)

lemma capture_putting: "putting ops \<Longrightarrow> fst (capture ops key ttl h ms s) = ms \<and> fst (snd (capture ops key ttl h ms s)) = None"
proof (induction ops key ttl h ms s rule: capture.induct)
  case (3 ops key ttl h body more_body ms s)
  then show ?case by (auto simp: Let_def putting_def split: prod.splits option.splits if_splits) (metis fst_conv option.distinct(1))+
qed (auto split: prod.splits)

lemma captured_putting: "putting ops \<Longrightarrow> fst (captured ops key ttl rw) = fst rw"
  using capture_putting [of ops key ttl empty_holder "sent (fst rw)" "w_store (snd rw)"]
  by (auto simp: captured_def split: prod.splits)

lemma idempotency_answering:
  assumes "emits emit" "answering inner" "putting ops"
  shows "answering (idempotency_middleware emit ops service ttl inner)"
proof (rule answeringI)
  fix e w and sc :: scope assume http: "sc_type sc = ''http''"
  show "good_reply (fst (idempotency_middleware emit ops service ttl inner e sc w))"
    using answeringD [OF assms(2) http, of e w] good_replay [OF assms(1)]
    by (simp add: idempotency_middleware_def captured_putting [OF assms(3)] split: option.split sum.split)
      (simp add: good_reply_def)
qed

lemma access_log_answering: "answering inner \<Longrightarrow> answering (access_log_middleware inner)"
  by (rule answeringI) (auto simp: access_log_middleware_def Let_def split: prod.split elim: answering_pair)

lemma metrics_answering: "answering inner \<Longrightarrow> answering (metrics_middleware service inner)"
  by (rule answeringI) (auto simp: metrics_middleware_def Let_def split: prod.split elim: answering_pair)

lemmas layers_answering = identity_answering request_context_answering idempotency_answering access_log_answering metrics_answering

lemma stack_answering: "emits emit \<Longrightarrow> putting ops \<Longrightarrow> answering inner \<Longrightarrow> answering (kernel_stack emit ops st inner)"
  by (simp add: kernel_stack_def Let_def layers_answering)

lemma good_respond: "emits emit \<Longrightarrow> good_reply (service_respond emit reg ctx sc res)"
  by (auto simp: service_respond_def good_reply_def complete_emit split: sum.split exn.split option.split)

lemma service_routes_answering:
  "emits emit \<Longrightarrow> answering others \<Longrightarrow> answering (service_routes emit reg show_time lax_int describe df others)"
  by (rule answeringI)
    (auto simp: service_routes_def Let_def good_respond answeringD split: prod.split option.split)

lemma kernel_routes_answering:
  "emits emit \<Longrightarrow> (\<And>m. complete (expose m)) \<Longrightarrow> answering others \<Longrightarrow> answering (kernel_routes emit expose reg checks others)"
  by (rule answeringI)
    (auto simp: kernel_routes_def good_json_reply answeringD split: prod.split, simp add: good_reply_def)

lemma good_raise: "good_reply \<lparr>sent = [], raised = Some x\<rparr>"
  by (simp add: good_reply_def)

lemma good_send: "complete ms \<Longrightarrow> good_reply \<lparr>sent = ms, raised = None\<rparr>"
  by (simp add: good_reply_def)

lemma good_gateway_respond: "emits emit \<Longrightarrow> (\<And>r. complete (emit_raw r)) \<Longrightarrow> good_reply (respond emit emit_raw reg ctx sc res)"
  by (simp add: respond_def good_raise good_send complete_emit split: sum.split exn.split)

lemma gateway_routes_answering:
  "emits emit \<Longrightarrow> (\<And>r. complete (emit_raw r)) \<Longrightarrow> answering others \<Longrightarrow>
     answering (gateway_routes emit emit_raw reg tx now inject s others)"
  by (rule answeringI) (simp add: gateway_routes_def Let_def good_gateway_respond answeringD split: prod.split)

lemma whitelist_answering: "emits emit \<Longrightarrow> answering inner \<Longrightarrow> answering (whitelist_middleware emit reg s inner)"
  by (rule answeringI)
    (simp add: whitelist_middleware_def good_raise good_send complete_emit answeringD split: sum.split exn.split)

text \<open>Inside the handler for unexpected exceptions every answering application sends a complete response.\<close>

lemma unexpected_response:
  assumes "extends_builtin reg"
  shows "\<exists>r. fst (handle_unexpected reg ctx meth path) = Some r \<and> resp_status r = 500 \<and> resp_headers r = [(''X-Error-Code'', ''INTERNAL_ERROR'')]"
  using builtin_lookup [OF assms, of INTERNAL_ERROR]
  by (simp add: handle_unexpected_def builtin_codes_def problem_response_def INTERNAL_ERROR_def)

lemma boundary_completes:
  assumes emit: "emits emit" and reg: "extends_builtin reg" and inner: "answering inner" and http: "sc_type sc = ''http''"
    and rp: "rp = fst (error_boundary emit reg inner e sc w)"
  shows "complete (sent rp) \<and> (raised rp \<noteq> None \<longrightarrow> (\<exists>hs body. sent rp = [ResponseStart 500 hs, body]))"
proof -
  obtain rp0 w0 where run: "inner e sc w = (rp0, w0)" by fastforce
  have good: "good_reply rp0" using answering_pair [OF inner run http] .
  obtain r where r: "fst (handle_unexpected reg (w_ctx w0) (scope_method sc) (scope_path sc)) = Some r" "resp_status r = 500"
    using unexpected_response [OF reg] by blast
  show ?thesis
  proof (cases "raised rp0")
    case None
    then show ?thesis using run good by (simp add: rp error_boundary_def good_reply_def)
  next
    case (Some x)
    then have "rp = rp0\<lparr>sent := emit r\<rparr>" using run good r http by (simp add: rp error_boundary_def good_reply_def)
    moreover obtain hs where "emit r = [ResponseStart 500 hs, ResponseBody (json_compact (resp_content r)) False]"
      using emit r(2) unfolding emits_def by metis
    ultimately show ?thesis using complete_emit [OF emit, of r] by simp
  qed
qed

text \<open>C9: Every request gets exactly one complete response: whatever the request, the state and the routes do, and over every
  store whose \<open>put\<close> does not raise, the assembled user service sends one start message, body parts and a last one; if
  an exception left the application, the response is a 500.\<close>

theorem every_request_is_answered:
  assumes emit: "emits emit" and expose: "\<And>m. complete (expose m)" and reg: "extends_builtin reg"
    and store: "putting ops" and others: "answering others" and http: "sc_type sc = ''http''"
    and rp: "rp = fst (service_application emit expose reg engine_ok show_time lax_int describe df ops s others e sc w)"
  shows "complete (sent rp) \<and> (raised rp \<noteq> None \<longrightarrow> (\<exists>hs body. sent rp = [ResponseStart 500 hs, body]))"
proof -
  have "answering (kernel_stack emit ops s (kernel_routes emit expose reg (\<lambda>sv. service_checks engine_ok (sv_router sv))
      (service_routes emit reg show_time lax_int describe df others)))"
    by (intro stack_answering kernel_routes_answering service_routes_answering emit store expose others)
  from boundary_completes [OF emit reg this http] show ?thesis by (simp add: rp service_application_def)
qed

definition not_found :: "('s, 'a) app" where
  "not_found e sc w = (\<lparr>sent = plain_emit (handle_http_error (w_ctx w) (scope_path sc) 404 ''Not Found''), raised = None\<rparr>, w)"

lemma not_found_answering: "answering not_found"
  by (rule answeringI) (simp add: not_found_def good_reply_def complete_emit [OF plain_emits])

definition plain_metrics :: "metrics \<Rightarrow> message list" where
  "plain_metrics m = chunked 200 [(''content-type'', ''text/plain'')] [] []"

lemma every_request_is_answered_witness:
  "complete (sent (fst (service_application plain_emit plain_metrics builtin_registry (\<lambda>e. False) year (\<lambda>j. None) id sample_defaults
      mem_ops default_service not_found sample_env (sample_scope\<lparr>sc_body := ''[1''\<rparr>)
      \<lparr>w_ctx = default_ctx, w_store = [], w_access = [], w_metrics = no_metrics, w_app = primary_only no_database\<rparr>)))"
proof -
  have expose: "complete (plain_metrics m)" for m unfolding complete_def plain_metrics_def by blast
  have http: "sc_type (sample_scope\<lparr>sc_body := ''[1''\<rparr>) = ''http''" by (simp add: sample_scope_def)
  show ?thesis
    using every_request_is_answered [where expose = plain_metrics, OF plain_emits expose builtin_extends mem_putting not_found_answering http refl] by blast
qed

text \<open>The same for the gateway, whose permission check answers or refuses before the stack.\<close>

theorem gateway_answers_every_request:
  assumes emit: "emits emit" and raw: "\<And>r. complete (emit_raw r)" and reg: "extends_builtin reg"
    and store: "putting ops" and others: "answering others" and http: "sc_type sc = ''http''"
  shows "complete (sent (fst (error_boundary emit reg (gateway_app emit emit_raw reg tx now inject ops s others) e sc w)))"
proof -
  have "answering (gateway_app emit emit_raw reg tx now inject ops s others)" unfolding gateway_app_def
    by (rule whitelist_answering [OF emit stack_answering [OF emit store gateway_routes_answering [OF emit raw others]]])
  from boundary_completes [OF emit reg this http refl] show ?thesis by blast
qed

subsection \<open>A store that fails after the service has run\<close>

text \<open>A service that answers with one response and works on its own state.\<close>

definition serves :: "('s, 'a) app \<Rightarrow> message list \<Rightarrow> ('a \<Rightarrow> 'a) \<Rightarrow> bool" where
  "serves app ms f \<longleftrightarrow> (\<forall>e sc w. app e sc w = (\<lparr>sent = ms, raised = None\<rparr>, w\<lparr>w_app := f (w_app w)\<rparr>))"

lemma truncated_stack:
  fixes inner :: "('s, 'a) app"
  assumes run: "serves inner (chunked status hs bs b) f" and http: "sc_type sc = ''http''"
    and key: "request_key (service_name st) sc = Some k"
    and rid: "latin1_encode (or_else (map_of (header_dict sc) ''x-request-id'') (env_uuid e)) = Some v"
    and get: "st_get ops k (w_store w) = Inr None"
    and down: "\<And>r. st_put ops k r (idempotency_ttl_seconds st) (w_store w) = (Some x, w_store w)"
  shows "\<exists>w'. kernel_stack emit ops st inner e sc w =
      (\<lparr>sent = ResponseStart status (hs @ [(''x-request-id'', v)]) # body_parts bs, raised = Some x\<rparr>, w')
    \<and> w_app w' = f (w_app w) \<and> w_store w' = w_store w"
proof -
  let ?in = "request_context_middleware (identity_middleware (trust_proxy_headers st) inner)"
  have stack: "\<exists>w2. ?in e sc w1 = (\<lparr>sent = chunked status (hs @ [(''x-request-id'', v)]) bs b, raised = None\<rparr>, w2)
      \<and> w_app w2 = f (w_app w1) \<and> w_store w2 = w_store w1" for w1
    using run http rid
    by (simp add: serves_def request_context_middleware_def identity_middleware_def Let_def stamp_def header_chunked split: prod.split)
  have "\<exists>w3. idempotency_middleware emit ops (service_name st) (idempotency_ttl_seconds st) ?in e sc w1 =
        (\<lparr>sent = ResponseStart status (hs @ [(''x-request-id'', v)]) # body_parts bs, raised = Some x\<rparr>, w3)
      \<and> w_app w3 = f (w_app w) \<and> w_store w3 = w_store w" if "w_store w1 = w_store w" "w_app w1 = w_app w" for w1
  proof -
    obtain w2 where w2: "?in e sc w1 = (\<lparr>sent = chunked status (hs @ [(''x-request-id'', v)]) bs b, raised = None\<rparr>, w2)"
      "w_app w2 = f (w_app w1)" "w_store w2 = w_store w1"
      using stack by blast
    from truncated_request [where emit = emit and ops = ops and w = w1 and cached = None and x = x
        and ttl = "idempotency_ttl_seconds st" and inner = ?in and e = e, OF key _ _ w2(1), of "w_store w"] get down that w2(2,3)
    show ?thesis by simp
  qed
  from this [of "w\<lparr>w_metrics := in_flight_add (service_name st) 1 (w_metrics w)\<rparr>"]
  show ?thesis using http
    by (auto simp: kernel_stack_def Let_def metrics_middleware_def access_log_middleware_def)
qed

text \<open>C40: A store that cannot be written spoils the response of a request that carries an idempotency key, after the
  service has done its work: the status and all but the last part of the body have been sent when the exception leaves
  the application, so the client sees a response that never ends, and the handler for unexpected exceptions adds
  nothing to it. Nothing was recorded: the client that tries again makes the service do its work twice.\<close>

theorem store_failure_truncates_response:
  fixes inner :: "('s, 'a) app"
  assumes run: "serves inner (chunked status hs bs b) f" and http: "sc_type sc = ''http''"
    and key: "request_key (service_name st) sc = Some k"
    and rid: "latin1_encode (or_else (map_of (header_dict sc) ''x-request-id'') (env_uuid e)) = Some v"
    and get: "st_get ops k (w_store w) = Inr None"
    and down: "\<And>r. st_put ops k r (idempotency_ttl_seconds st) (w_store w) = (Some x, w_store w)"
    and app: "app = error_boundary emit reg (kernel_stack emit ops st inner)"
  shows "sent (fst (app e sc w)) = ResponseStart status (hs @ [(''x-request-id'', v)]) # body_parts bs
    \<and> raised (fst (app e sc w)) = Some x \<and> \<not> complete (sent (fst (app e sc w)))
    \<and> w_app (snd (app e sc w)) = f (w_app w)
    \<and> w_app (snd (app e sc (snd (app e sc w)))) = f (f (w_app w))"
proof -
  have one: "\<exists>w'. app e sc w1 = (\<lparr>sent = ResponseStart status (hs @ [(''x-request-id'', v)]) # body_parts bs, raised = Some x\<rparr>, w')
      \<and> w_app w' = f (w_app w1) \<and> w_store w' = w_store w" if "w_store w1 = w_store w" for w1
    using truncated_stack [where emit = emit and ops = ops and w = w1 and x = x, OF run http key rid] get down that
    by (auto simp: app error_boundary_def is_start_def)
  obtain w1 where w1: "app e sc w = (\<lparr>sent = ResponseStart status (hs @ [(''x-request-id'', v)]) # body_parts bs, raised = Some x\<rparr>, w1)"
    "w_app w1 = f (w_app w)" "w_store w1 = w_store w"
    using one [OF refl] by blast
  have "\<not> complete (ResponseStart status (hs @ [(''x-request-id'', v)]) # body_parts bs)"
    by (rule unfinished)
  then show ?thesis using w1 one [OF w1(3)] by auto
qed

text \<open>The in-process store, read-only.\<close>

definition unwritable :: "memory_store store_ops" where
  "unwritable = mem_ops\<lparr>st_put := \<lambda>k v ttl s. (Some (RuntimeError ''store down''), s)\<rparr>"

definition counting_up :: "(memory_store, nat) app" where
  "counting_up e sc w = (\<lparr>sent = chunked 201 [] [] ''{}'', raised = None\<rparr>, w\<lparr>w_app := Suc (w_app w)\<rparr>)"

lemma store_failure_truncates_response_witness:
  "let app = error_boundary plain_emit builtin_registry (kernel_stack plain_emit unwritable (default_settings\<lparr>service_name := ''users''\<rparr>) counting_up)
   in sent (fst (app sample_env sample_scope sample_world)) = [ResponseStart 201 [(''x-request-id'', ''r1'')]]
    \<and> w_app (snd (app sample_env sample_scope (snd (app sample_env sample_scope sample_world)))) = 2"
proof -
  have run: "serves counting_up (chunked 201 [] [] ''{}'') Suc" by (simp add: serves_def counting_up_def)
  have key: "request_key (service_name (default_settings\<lparr>service_name := ''users''\<rparr>)) sample_scope = Some ''idem:users:POST:/v1/users:k1''"
    by (simp add: sample_key)
  have http: "sc_type sample_scope = ''http''" by (simp add: sample_scope_def)
  have rid: "latin1_encode (or_else (map_of (header_dict sample_scope) ''x-request-id'') (env_uuid sample_env)) = Some ''r1''"
    by code_simp
  have get: "st_get unwritable ''idem:users:POST:/v1/users:k1'' (w_store sample_world) = Inr None"
    by (simp add: unwritable_def mem_ops_def sample_world_def mem_get_def)
  have down: "st_put unwritable ''idem:users:POST:/v1/users:k1'' r (idempotency_ttl_seconds (default_settings\<lparr>service_name := ''users''\<rparr>))
      (w_store sample_world) = (Some (RuntimeError ''store down''), w_store sample_world)" for r
    by (simp add: unwritable_def)
  show ?thesis
    using store_failure_truncates_response [where emit = plain_emit and reg = builtin_registry, OF run http key rid get down refl]
    by (simp add: Let_def body_parts_def sample_world_def)
qed

subsection \<open>Responses without a request id\<close>

definition request_id_of :: "message list \<Rightarrow> string option" where
  "request_id_of ms = (case ms of ResponseStart st hs # rest \<Rightarrow> header_value ''x-request-id'' hs | _ \<Rightarrow> None)"

lemma request_id_plain:
  "list_all (\<lambda>(k, v). py_lower (py_lower k) \<noteq> ''x-request-id'') (resp_headers r) \<Longrightarrow> request_id_of (plain_emit r) = None"
proof -
  assume a: "list_all (\<lambda>(k, v). py_lower (py_lower k) \<noteq> ''x-request-id'') (resp_headers r)"
  have "map_of (map (\<lambda>(n, v). (py_lower n, v)) (map (\<lambda>(k, v). (py_lower k, v)) (filter P hs))) ''x-request-id'' = None"
    if "list_all (\<lambda>(k, v). py_lower (py_lower k) \<noteq> ''x-request-id'') hs" for hs :: headers and P
    using that by (induction hs) auto
  from this [OF a] show ?thesis
    by (simp add: request_id_of_def plain_emit_def header_value_def Let_def map_add_def) (simp add: py_lower_def lower_char_def)
qed

text \<open>The request id is written by a layer inside the handler for unexpected exceptions, so the 500 of an exception that
  no other handler takes comes without it; as does a replayed response, which the idempotency layer sends.\<close>

theorem unexpected_errors_lack_request_id:
  assumes reg: "extends_builtin reg" and http: "sc_type sc = ''http''"
    and raises: "kernel_stack plain_emit ops st inner e sc w = (\<lparr>sent = [], raised = Some x\<rparr>, w')"
  shows "\<exists>r. sent (fst (error_boundary plain_emit reg (kernel_stack plain_emit ops st inner) e sc w)) = plain_emit r
    \<and> resp_status r = 500 \<and> request_id_of (plain_emit r) = None"
proof -
  obtain r where r: "fst (handle_unexpected reg (w_ctx w') (scope_method sc) (scope_path sc)) = Some r"
    "resp_status r = 500" "resp_headers r = [(''X-Error-Code'', ''INTERNAL_ERROR'')]"
    using unexpected_response [OF reg] by blast
  have "request_id_of (plain_emit r) = None"
    by (rule request_id_plain) (simp add: r(3) py_lower_def lower_char_def)
  then show ?thesis using raises http r by (intro exI [of _ r]) (simp add: error_boundary_def)
qed

definition crashing :: "(memory_store, nat) app" where
  "crashing e sc w = (\<lparr>sent = [], raised = Some (RuntimeError ''boom'')\<rparr>, w)"

lemma unexpected_errors_lack_request_id_witness:
  "\<exists>r. sent (fst (error_boundary plain_emit builtin_registry (kernel_stack plain_emit mem_ops default_settings crashing)
      sample_env (sample_scope\<lparr>sc_method := Some ''GET''\<rparr>) sample_world)) = plain_emit r \<and> resp_status r = 500"
proof -
  let ?sc = "sample_scope\<lparr>sc_method := Some ''GET''\<rparr>"
  have http: "sc_type ?sc = ''http''" by (simp add: sample_scope_def)
  have "fst (kernel_stack plain_emit mem_ops default_settings crashing sample_env ?sc sample_world) = \<lparr>sent = [], raised = Some (RuntimeError ''boom'')\<rparr>"
    by (simp add: kernel_stack_def Let_def metrics_middleware_def access_log_middleware_def idempotency_middleware_def request_key_def
        request_context_middleware_def identity_middleware_def crashing_def stamp_def scope_method_def sample_scope_def
        split: prod.split option.split)
  then obtain w' where "kernel_stack plain_emit mem_ops default_settings crashing sample_env ?sc sample_world
      = (\<lparr>sent = [], raised = Some (RuntimeError ''boom'')\<rparr>, w')"
    by (metis prod.collapse)
  from unexpected_errors_lack_request_id [OF builtin_extends http this] show ?thesis by blast
qed

end
