(* ===== verification/Migrations.thy ===== *)
theory Migrations
  imports Prelude Settings
begin

section \<open>The schema of the user service: alembic/versions and the table models\<close>

text \<open>
  The operations of the two migrations on a schema, a database's tables and indexes, and the schema that
  the model classes describe (what \<open>create_all\<close> builds in development and tests). An operation that the
  database refuses is \<open>None\<close>. Rows matter only through the columns an \<open>INSERT\<close> has to give.
\<close>

datatype column_type = VarChar nat | Integer | Timestamp | JsonColumn

record column =
  co_name :: string
  co_type :: column_type
  co_primary :: bool
  co_default :: "string option"
  co_nullable :: bool

definition col :: "string \<Rightarrow> column_type \<Rightarrow> string option \<Rightarrow> bool \<Rightarrow> column" where
  "col n t d nl = \<lparr>co_name = n, co_type = t, co_primary = False, co_default = d, co_nullable = nl\<rparr>"

definition key_col :: "string \<Rightarrow> column_type \<Rightarrow> column" where
  "key_col n t = \<lparr>co_name = n, co_type = t, co_primary = True, co_default = None, co_nullable = False\<rparr>"

record index =
  ix_name :: string
  ix_table :: string
  ix_columns :: "string list"
  ix_unique :: bool

record schema =
  sm_tables :: "(string, column list) pydict"
  sm_indexes :: "index list"

definition empty_schema :: schema where
  "empty_schema = \<lparr>sm_tables = [], sm_indexes = []\<rparr>"

datatype operation =
    CreateTable string "column list"
  | DropTable string
  | CreateIndex string string "string list" bool
  | DropIndex string string
  | AddColumn string column
  | DropColumn string string

fun apply_op :: "operation \<Rightarrow> schema \<Rightarrow> schema option" where
  "apply_op (CreateTable t cs) s =
     (if map_of (sm_tables s) t \<noteq> None then None else Some (s\<lparr>sm_tables := sm_tables s @ [(t, cs)]\<rparr>))"
| "apply_op (DropTable t) s =
     (if map_of (sm_tables s) t = None then None
      else Some (s\<lparr>sm_tables := AList.delete t (sm_tables s), sm_indexes := filter (\<lambda>i. ix_table i \<noteq> t) (sm_indexes s)\<rparr>))"
| "apply_op (CreateIndex n t cs u) s =
     (case map_of (sm_tables s) t of
        None \<Rightarrow> None
      | Some cols \<Rightarrow>
          if n \<in> ix_name ` set (sm_indexes s) \<or> \<not> set cs \<subseteq> co_name ` set cols then None
          else Some (s\<lparr>sm_indexes := sm_indexes s @ [\<lparr>ix_name = n, ix_table = t, ix_columns = cs, ix_unique = u\<rparr>]\<rparr>))"
| "apply_op (DropIndex n t) s =
     (if n \<notin> ix_name ` set (sm_indexes s) then None
      else Some (s\<lparr>sm_indexes := filter (\<lambda>i. ix_name i \<noteq> n) (sm_indexes s)\<rparr>))"
| "apply_op (AddColumn t c) s =
     (case map_of (sm_tables s) t of
        None \<Rightarrow> None
      | Some cols \<Rightarrow>
          if co_name c \<in> co_name ` set cols then None
          else Some (s\<lparr>sm_tables := AList.update t (cols @ [c]) (sm_tables s)\<rparr>))"
| "apply_op (DropColumn t n) s =
     (case map_of (sm_tables s) t of
        None \<Rightarrow> None
      | Some cols \<Rightarrow>
          if n \<notin> co_name ` set cols then None
          else Some (s\<lparr>sm_tables := AList.update t (filter (\<lambda>c. co_name c \<noteq> n) cols) (sm_tables s)\<rparr>))"

fun apply_ops :: "operation list \<Rightarrow> schema \<Rightarrow> schema option" where
  "apply_ops [] s = Some s"
| "apply_ops (p # ps) s = (case apply_op p s of None \<Rightarrow> None | Some s' \<Rightarrow> apply_ops ps s')"

subsection \<open>The migrations\<close>

definition users_columns :: "column list" where
  "users_columns =
     [key_col ''id'' (VarChar 36),
      col ''email'' (VarChar 255) None False,
      col ''display_name'' (VarChar 64) None False,
      col ''status'' (VarChar 16) (Some ''active'') False,
      col ''created_at'' Timestamp (Some ''now()'') False,
      col ''vip_level'' Integer (Some ''0'') False]"

definition outbox_columns :: "column list" where
  "outbox_columns =
     [key_col ''id'' (VarChar 36),
      col ''event_name'' (VarChar 128) None False,
      col ''aggregate_type'' (VarChar 64) None False,
      col ''aggregate_id'' (VarChar 64) None False,
      col ''payload'' JsonColumn None False,
      col ''headers'' JsonColumn None False,
      col ''status'' (VarChar 16) (Some ''pending'') False,
      col ''attempts'' Integer (Some ''0'') False,
      col ''next_attempt_at'' Timestamp None True,
      col ''created_at'' Timestamp (Some ''now()'') False,
      col ''sent_at'' Timestamp None True]"

definition upgrade_0001 :: "operation list" where
  "upgrade_0001 =
     [CreateTable ''users'' users_columns,
      CreateIndex ''ix_users_email'' ''users'' [''email''] True,
      CreateTable ''outbox_messages'' outbox_columns,
      CreateIndex ''ix_outbox_messages_event_name'' ''outbox_messages'' [''event_name''] False,
      CreateIndex ''ix_outbox_messages_aggregate_id'' ''outbox_messages'' [''aggregate_id''] False,
      CreateIndex ''ix_outbox_messages_status'' ''outbox_messages'' [''status''] False]"

definition downgrade_0001 :: "operation list" where
  "downgrade_0001 =
     [DropIndex ''ix_outbox_messages_status'' ''outbox_messages'',
      DropIndex ''ix_outbox_messages_aggregate_id'' ''outbox_messages'',
      DropIndex ''ix_outbox_messages_event_name'' ''outbox_messages'',
      DropTable ''outbox_messages'',
      DropIndex ''ix_users_email'' ''users'',
      DropTable ''users'']"

definition updated_at_column :: column where
  "updated_at_column = col ''updated_at'' Timestamp (Some ''CURRENT_TIMESTAMP'') False"

definition upgrade_0002 :: "operation list" where
  "upgrade_0002 = [AddColumn ''users'' updated_at_column]"

definition downgrade_0002 :: "operation list" where
  "downgrade_0002 = [DropColumn ''users'' ''updated_at'']"

subsection \<open>The models\<close>

text \<open>\<open>Mapped[T]\<close> is \<open>NOT NULL\<close> unless \<open>T\<close> is optional; \<open>index=True\<close> names the index after table and column.
  Only \<open>server_default\<close>s are part of the schema.\<close>

definition model_index :: "string \<Rightarrow> string \<Rightarrow> bool \<Rightarrow> index" where
  "model_index t c u = \<lparr>ix_name = ''ix_'' @ t @ ''_'' @ c, ix_table = t, ix_columns = [c], ix_unique = u\<rparr>"

definition user_model :: "column list" where
  "user_model =
     [key_col ''id'' (VarChar 36),
      col ''email'' (VarChar 255) None False,
      col ''display_name'' (VarChar 64) None False,
      col ''status'' (VarChar 16) (Some ''active'') False,
      col ''created_at'' Timestamp None False,
      col ''vip_level'' Integer (Some ''0'') False,
      col ''updated_at'' Timestamp (Some ''CURRENT_TIMESTAMP'') False]"

definition outbox_model :: "column list" where
  "outbox_model =
     [key_col ''id'' (VarChar 36),
      col ''event_name'' (VarChar 128) None False,
      col ''aggregate_type'' (VarChar 64) None False,
      col ''aggregate_id'' (VarChar 64) None False,
      col ''payload'' JsonColumn None False,
      col ''headers'' JsonColumn None False,
      col ''status'' (VarChar 16) None False,
      col ''attempts'' Integer None False,
      col ''next_attempt_at'' Timestamp None True,
      col ''created_at'' Timestamp None False,
      col ''sent_at'' Timestamp None True]"

definition model_schema :: schema where
  "model_schema =
     \<lparr>sm_tables = [(''users'', user_model), (''outbox_messages'', outbox_model)],
      sm_indexes = [model_index ''users'' ''email'' True,
                    model_index ''outbox_messages'' ''event_name'' False,
                    model_index ''outbox_messages'' ''aggregate_id'' False,
                    model_index ''outbox_messages'' ''status'' False]\<rparr>"

definition without_default :: "column \<Rightarrow> column" where
  "without_default c = c\<lparr>co_default := None\<rparr>"

definition shape :: "schema \<Rightarrow> schema" where
  "shape s = s\<lparr>sm_tables := map (\<lambda>(t, cs). (t, map without_default cs)) (sm_tables s)\<rparr>"

text \<open>An \<open>INSERT\<close> that gives the columns \<open>names\<close> (none of them null).\<close>

definition insert_ok :: "schema \<Rightarrow> string \<Rightarrow> string list \<Rightarrow> bool" where
  "insert_ok s t names \<longleftrightarrow>
     (case map_of (sm_tables s) t of
        None \<Rightarrow> False
      | Some cols \<Rightarrow>
          set names \<subseteq> co_name ` set cols \<and>
          list_all (\<lambda>c. co_name c \<in> set names \<or> co_nullable c \<or> co_default c \<noteq> None) cols)"

subsection \<open>Properties\<close>

definition free_of_service :: "schema \<Rightarrow> bool" where
  "free_of_service s \<longleftrightarrow>
     map_of (sm_tables s) ''users'' = None \<and> map_of (sm_tables s) ''outbox_messages'' = None \<and>
     (\<forall>i \<in> set (sm_indexes s). ix_table i \<noteq> ''users'' \<and> ix_table i \<noteq> ''outbox_messages'' \<and>
        ix_name i \<notin> {''ix_users_email'', ''ix_outbox_messages_event_name'', ''ix_outbox_messages_aggregate_id'',
          ''ix_outbox_messages_status''})"

definition migrated :: "schema \<Rightarrow> column list \<Rightarrow> schema" where
  "migrated s users = s\<lparr>sm_tables := sm_tables s @ [(''users'', users), (''outbox_messages'', outbox_columns)],
     sm_indexes := sm_indexes s @
       [\<lparr>ix_name = ''ix_users_email'', ix_table = ''users'', ix_columns = [''email''], ix_unique = True\<rparr>,
        \<lparr>ix_name = ''ix_outbox_messages_event_name'', ix_table = ''outbox_messages'', ix_columns = [''event_name''], ix_unique = False\<rparr>,
        \<lparr>ix_name = ''ix_outbox_messages_aggregate_id'', ix_table = ''outbox_messages'', ix_columns = [''aggregate_id''], ix_unique = False\<rparr>,
        \<lparr>ix_name = ''ix_outbox_messages_status'', ix_table = ''outbox_messages'', ix_columns = [''status''], ix_unique = False\<rparr>]\<rparr>"

lemma update_middle: "map_of xs k = None \<Longrightarrow> AList.update k v (xs @ (k, w) # ys) = xs @ (k, v) # ys"
  by (induction xs) (auto split: if_splits)

lemma delete_absent: "map_of xs k = None \<Longrightarrow> AList.delete k xs = xs"
  by (simp add: map_of_None_fst)

lemma delete_append: "AList.delete k (xs @ ys) = AList.delete k xs @ AList.delete k ys"
  by (simp add: AList.delete_eq)

lemma filter_all: "\<forall>x \<in> set xs. P x \<Longrightarrow> filter P xs = xs"
  by (simp add: filter_id_conv)

lemma free_facts:
  assumes "free_of_service s"
  shows "map_of (sm_tables s) ''users'' = None" "map_of (sm_tables s) ''outbox_messages'' = None"
    and "filter (\<lambda>i. ix_table i \<noteq> ''users'') (sm_indexes s) = sm_indexes s"
    and "filter (\<lambda>i. ix_table i \<noteq> ''outbox_messages'') (sm_indexes s) = sm_indexes s"
    and "n \<in> {''ix_users_email'', ''ix_outbox_messages_event_name'', ''ix_outbox_messages_aggregate_id'',
          ''ix_outbox_messages_status''} \<Longrightarrow>
        n \<notin> ix_name ` set (sm_indexes s) \<and> filter (\<lambda>i. ix_name i \<noteq> n) (sm_indexes s) = sm_indexes s"
proof -
  show "map_of (sm_tables s) ''users'' = None" "map_of (sm_tables s) ''outbox_messages'' = None"
    "filter (\<lambda>i. ix_table i \<noteq> ''users'') (sm_indexes s) = sm_indexes s"
    "filter (\<lambda>i. ix_table i \<noteq> ''outbox_messages'') (sm_indexes s) = sm_indexes s"
    using assms unfolding free_of_service_def by (blast intro: filter_all)+
  assume n: "n \<in> {''ix_users_email'', ''ix_outbox_messages_event_name'', ''ix_outbox_messages_aggregate_id'',
    ''ix_outbox_messages_status''}"
  then have "\<forall>i \<in> set (sm_indexes s). ix_name i \<noteq> n" using assms unfolding free_of_service_def by blast
  then show "n \<notin> ix_name ` set (sm_indexes s) \<and> filter (\<lambda>i. ix_name i \<noteq> n) (sm_indexes s) = sm_indexes s"
    by (auto intro: filter_all)
qed

lemma upgrade_0001_eq: "free_of_service s \<Longrightarrow> apply_ops upgrade_0001 s = Some (migrated s users_columns)"
  by (simp add: upgrade_0001_def migrated_def free_facts map_add_def)
    (simp add: users_columns_def outbox_columns_def col_def key_col_def)

lemma downgrade_0001_eq: "free_of_service s \<Longrightarrow> apply_ops downgrade_0001 (migrated s users) = Some s"
  by (simp add: downgrade_0001_def migrated_def free_facts map_add_def delete_append delete_absent)

lemma upgrade_0002_eq:
  "free_of_service s \<Longrightarrow> apply_ops upgrade_0002 (migrated s users_columns) = Some (migrated s (users_columns @ [updated_at_column]))"
  by (simp add: upgrade_0002_def migrated_def free_facts map_add_def update_middle)
    (simp add: users_columns_def updated_at_column_def col_def key_col_def)

lemma downgrade_0002_eq:
  "free_of_service s \<Longrightarrow> apply_ops downgrade_0002 (migrated s (users_columns @ [updated_at_column])) = Some (migrated s users_columns)"
  by (simp add: downgrade_0002_def migrated_def free_facts map_add_def update_middle)
    (simp add: users_columns_def updated_at_column_def col_def key_col_def)

lemma apply_ops_append:
  "apply_ops (ps @ qs) s = (case apply_ops ps s of None \<Rightarrow> None | Some s' \<Rightarrow> apply_ops qs s')"
  by (induction ps arbitrary: s) (auto split: option.split)

text \<open>Migrations are reversible: on any schema without the service's tables and index names the two upgrades
  succeed, and each downgrade restores exactly the schema before its upgrade.\<close>

theorem migrations_are_reversible:
  assumes "free_of_service s"
  shows "\<exists>s1 s2. apply_ops upgrade_0001 s = Some s1 \<and> apply_ops upgrade_0002 s1 = Some s2 \<and>
    apply_ops downgrade_0002 s2 = Some s1 \<and> apply_ops downgrade_0001 s1 = Some s \<and>
    apply_ops (downgrade_0002 @ downgrade_0001) s2 = Some s"
  using assms by (simp add: upgrade_0001_eq upgrade_0002_eq downgrade_0002_eq downgrade_0001_eq apply_ops_append)

lemma migrations_are_reversible_witness:
  "\<exists>s1. apply_ops upgrade_0001 empty_schema = Some s1 \<and> apply_ops downgrade_0001 s1 = Some empty_schema"
  using migrations_are_reversible [of empty_schema] by (auto simp: empty_schema_def free_of_service_def)

text \<open>Adding a column keeps every \<open>INSERT\<close> of the old code if the column has a default or may be null.\<close>

lemma add_column_keeps_inserts:
  assumes "apply_op (AddColumn t c) s = Some s'" "co_default c \<noteq> None \<or> co_nullable c" "insert_ok s t' names"
  shows "insert_ok s' t' names"
  using assms by (auto simp: insert_ok_def subset_iff split: option.splits if_splits)

lemma add_column_breaks_inserts:
  assumes "apply_op (AddColumn t c) s = Some s'" "co_default c = None" "\<not> co_nullable c" "co_name c \<notin> set names"
  shows "\<not> insert_ok s' t names"
  using assms by (auto simp: insert_ok_def split: option.splits if_splits)

text \<open>The expansion is compatible: after migration 0002 every \<open>INSERT\<close> that the code of before could run, on any
  table of any schema, is still accepted.\<close>

theorem expansion_keeps_old_inserts:
  assumes "apply_ops upgrade_0002 s = Some s'" "insert_ok s t names"
  shows "insert_ok s' t names"
  using assms add_column_keeps_inserts [of "''users''" updated_at_column s s' t names]
  by (simp add: upgrade_0002_def updated_at_column_def col_def split: option.splits)

lemma expansion_keeps_old_inserts_witness:
  "insert_ok (migrated empty_schema (users_columns @ [updated_at_column])) ''users'' [''id'', ''email'', ''display_name'']"
proof (rule expansion_keeps_old_inserts)
  show "apply_ops upgrade_0002 (migrated empty_schema users_columns) = Some (migrated empty_schema (users_columns @ [updated_at_column]))"
    by (rule upgrade_0002_eq) (simp add: empty_schema_def free_of_service_def)
  show "insert_ok (migrated empty_schema users_columns) ''users'' [''id'', ''email'', ''display_name'']"
    by (simp add: insert_ok_def migrated_def empty_schema_def users_columns_def col_def key_col_def)
qed

text \<open>C36: Models and migrations agree: the migrated schema has the tables, columns, types, keys, nullability and
  indexes of the model classes, and accepts every \<open>INSERT\<close> that the schema built from the classes
  accepts; the two differ in server defaults only.\<close>

theorem migrations_match_models:
  "\<exists>s. apply_ops (upgrade_0001 @ upgrade_0002) empty_schema = Some s \<and> shape s = shape model_schema \<and>
    (\<forall>t names. insert_ok model_schema t names \<longrightarrow> insert_ok s t names)"
proof -
  let ?s = "migrated empty_schema (users_columns @ [updated_at_column])"
  have "free_of_service empty_schema" by (simp add: empty_schema_def free_of_service_def)
  then have "apply_ops (upgrade_0001 @ upgrade_0002) empty_schema = Some ?s"
    by (simp add: apply_ops_append upgrade_0001_eq upgrade_0002_eq)
  moreover have "shape ?s = shape model_schema"
    by (simp add: shape_def migrated_def empty_schema_def model_schema_def model_index_def user_model_def outbox_model_def
        users_columns_def outbox_columns_def updated_at_column_def without_default_def col_def key_col_def)
  moreover have "insert_ok ?s t names" if "insert_ok model_schema t names" for t names
    using that by (auto simp: insert_ok_def migrated_def empty_schema_def model_schema_def user_model_def outbox_model_def
        users_columns_def outbox_columns_def updated_at_column_def col_def key_col_def split: if_splits)
  ultimately show ?thesis by blast
qed

lemma migrations_match_models_witness:
  "\<exists>s. apply_ops (upgrade_0001 @ upgrade_0002) empty_schema = Some s \<and>
    insert_ok s ''users'' [''id'', ''email'', ''display_name'', ''created_at'']"
proof -
  have "insert_ok model_schema ''users'' [''id'', ''email'', ''display_name'', ''created_at'']"
    by (simp add: insert_ok_def model_schema_def user_model_def col_def key_col_def)
  with migrations_match_models show ?thesis by blast
qed

text \<open>The schema built from the classes refuses rows that the migrated one accepts: there \<open>created_at\<close> has no default.\<close>

lemma model_schema_is_stricter:
  "insert_ok (migrated empty_schema users_columns) ''users'' [''id'', ''email'', ''display_name''] \<and>
   \<not> insert_ok model_schema ''users'' [''id'', ''email'', ''display_name'']"
  by (simp add: insert_ok_def migrated_def empty_schema_def model_schema_def user_model_def users_columns_def col_def key_col_def)

subsection \<open>Creating the tables at the start: \<open>init_db\<close>\<close>

text \<open>The metadata: each declared table with its columns and indexes. A class is declared when its module is
  imported; the service imports \<open>kernel.outbox\<close>, the migration environment only \<open>app.models.user\<close>.\<close>

type_synonym metadata = "(string \<times> column list \<times> index list) list"

definition user_table :: "string \<times> column list \<times> index list" where
  "user_table = (''users'', user_model, [model_index ''users'' ''email'' True])"

definition outbox_table :: "string \<times> column list \<times> index list" where
  "outbox_table = (''outbox_messages'', outbox_model,
     [model_index ''outbox_messages'' ''event_name'' False, model_index ''outbox_messages'' ''aggregate_id'' False,
      model_index ''outbox_messages'' ''status'' False])"

definition service_metadata :: metadata where
  "service_metadata = [user_table, outbox_table]"

definition target_metadata :: metadata where
  "target_metadata = [user_table]"

text \<open>\<open>create_all\<close> creates the tables that are missing, each with its indexes.\<close>

definition create_table :: "string \<times> column list \<times> index list \<Rightarrow> schema \<Rightarrow> schema" where
  "create_table tb s =
     (case tb of
        (name, cols, ixs) \<Rightarrow>
          if map_of (sm_tables s) name \<noteq> None then s
          else s\<lparr>sm_tables := sm_tables s @ [(name, cols)], sm_indexes := sm_indexes s @ ixs\<rparr>)"

definition init_db :: "metadata \<Rightarrow> schema \<Rightarrow> schema" where
  "init_db md s = fold create_table md s"

lemma create_table_has: "map_of (sm_tables (create_table tb s)) (fst tb) \<noteq> None"
  by (auto simp: create_table_def map_add_def split: prod.split option.split)

lemma create_table_keeps:
  "map_of (sm_tables s) n = Some cs \<Longrightarrow> map_of (sm_tables (create_table tb s)) n = Some cs"
  by (auto simp: create_table_def split: prod.split)

lemma init_db_keeps: "map_of (sm_tables s) n = Some cs \<Longrightarrow> map_of (sm_tables (init_db md s)) n = Some cs"
  by (induction md arbitrary: s) (auto simp: init_db_def create_table_keeps)

lemma init_db_has: "tb \<in> set md \<Longrightarrow> map_of (sm_tables (init_db md s)) (fst tb) \<noteq> None"
proof (induction md arbitrary: s)
  case (Cons x md)
  show ?case
  proof (cases "tb = x")
    case True
    obtain cs where "map_of (sm_tables (create_table tb s)) (fst tb) = Some cs" using create_table_has by blast
    from init_db_keeps [OF this] True show ?thesis by (simp add: init_db_def)
  next
    case False
    then show ?thesis using Cons by (simp add: init_db_def)
  qed
qed simp

lemma init_db_present: "\<forall>tb \<in> set md. map_of (sm_tables s) (fst tb) \<noteq> None \<Longrightarrow> init_db md s = s"
  by (induction md) (auto simp: init_db_def create_table_def split: prod.split)

text \<open>Starting twice is starting once: on an empty database the start builds the models' schema, and on a database that
  has the tables, migrated or not, it changes nothing.\<close>

theorem init_db_once:
  "init_db service_metadata empty_schema = model_schema \<and> init_db md (init_db md s) = init_db md s"
proof
  show "init_db service_metadata empty_schema = model_schema"
    by (simp add: init_db_def service_metadata_def user_table_def outbox_table_def create_table_def empty_schema_def model_schema_def)
  show "init_db md (init_db md s) = init_db md s"
    by (rule init_db_present) (use init_db_has in blast)
qed

end
