(* ===== verification/Environment.thy ===== *)
theory Environment
  imports Migrations Errors
begin

section \<open>The migration environment: alembic/env.py\<close>

text \<open>
  The module that Alembic runs: it writes the address of the database into Alembic's configuration and runs the
  pending revisions in one transaction, online on that database or offline as a script. The configuration is a
  \<open>ConfigParser\<close>, which interpolates its values: the address that is read back is not always the one that was
  written, and some cannot be written.
\<close>

subsection \<open>The option in the configuration\<close>

text \<open>
  \<open>ConfigParser.set\<close> checks a value (\<open>before_set\<close>): it drops each doubled percent sign, then each reference
  \<open>%(name)s\<close>, and refuses what still holds a percent sign.
\<close>

fun drop_doubled :: "string \<Rightarrow> string" where
  "drop_doubled (a # b # s) =
     (if a = CHR ''%'' \<and> b = CHR ''%'' then drop_doubled s else a # drop_doubled (b # s))"
| "drop_doubled s = s"

text \<open>A reference at the start of a text: its name and what follows.\<close>

definition reference :: "string \<Rightarrow> (string \<times> string) option" where
  "reference s =
     (case s of
        p # q # r \<Rightarrow>
          (let name = takeWhile (\<lambda>c. c \<noteq> CHR '')'') r; after = dropWhile (\<lambda>c. c \<noteq> CHR '')'') r in
           if p = CHR ''%'' \<and> q = CHR ''('' \<and> name \<noteq> [] \<and> take 2 after = '')s'' then Some (name, drop 2 after) else None)
      | _ \<Rightarrow> None)"

lemma reference_shorter: "reference s = Some (n, r) \<Longrightarrow> length r < length s"
proof -
  assume "reference s = Some (n, r)"
  then obtain p q u where "s = p # q # u" "r = drop 2 (dropWhile (\<lambda>c. c \<noteq> CHR '')'') u)"
    by (auto simp: reference_def Let_def split: list.splits if_splits)
  then show ?thesis using length_dropWhile_le [of "\<lambda>c. c \<noteq> CHR '')''" u] by simp
qed

function drop_references :: "string \<Rightarrow> string" where
  "drop_references s =
     (case reference s of
        Some (n, r) \<Rightarrow> drop_references r
      | None \<Rightarrow> (case s of [] \<Rightarrow> [] | c # cs \<Rightarrow> c # drop_references cs))"
  by pat_completeness auto
termination
  by (relation "measure length") (auto dest: reference_shorter)

declare drop_references.simps [simp del]

definition option_accepted :: "string \<Rightarrow> bool" where
  "option_accepted v \<longleftrightarrow> CHR ''%'' \<notin> set (drop_references (drop_doubled v))"

text \<open>\<open>ConfigParser.get\<close>: a doubled percent sign is one, a reference the value of the option (\<open>options\<close>); anything else after
  a percent sign, and a reference to no option, raises (\<open>KeyError\<close> stands for the parser's exception for a missing option).\<close>

function interpolate :: "(string \<Rightarrow> string option) \<Rightarrow> string \<Rightarrow> exn + string" where
  "interpolate options s =
     (case s of
        [] \<Rightarrow> Inr []
      | c # cs \<Rightarrow>
          if c \<noteq> CHR ''%'' then map_sum id (Cons c) (interpolate options cs)
          else
            (case cs of
               [] \<Rightarrow> Inl (ValueError s)
             | d # ds \<Rightarrow>
                 if d = CHR ''%'' then map_sum id (Cons c) (interpolate options ds)
                 else
                   (case reference s of
                      None \<Rightarrow> Inl (ValueError s)
                    | Some (n, r) \<Rightarrow>
                        (case options n of
                           None \<Rightarrow> Inl (KeyError n)
                         | Some v \<Rightarrow> map_sum id (append v) (interpolate options r)))))"
  by pat_completeness auto
termination
  by (relation "measure (\<lambda>(options, s). length s)") (auto dest: reference_shorter)

declare interpolate.simps [simp del]

lemma interpolate_steps [simp]:
  "interpolate options [] = Inr []"
  "c \<noteq> CHR ''%'' \<Longrightarrow> interpolate options (c # s) = map_sum id (Cons c) (interpolate options s)"
  "interpolate options (CHR ''%'' # CHR ''%'' # s) = map_sum id (Cons CHR ''%'') (interpolate options s)"
  by (subst interpolate.simps, simp)+

subsection \<open>The module\<close>

text \<open>\<open>run_migrations\<close> is Alembic's: from the schema to the one after the pending revisions, or \<open>None\<close> if it raises.\<close>

datatype migration_run = Offline string | Online string

definition migration_url :: "'z settings_scheme \<Rightarrow> string" where
  "migration_url st = or_else (database_url st) []"

text \<open>What the module does with the settings: the address it takes back out of the configuration, or the exception.\<close>

definition choose_migration_run :: "(string \<Rightarrow> string option) \<Rightarrow> bool \<Rightarrow> 'z settings_scheme \<Rightarrow> exn + migration_run" where
  "choose_migration_run options is_offline st =
     (if \<not> option_accepted (migration_url st) then Inl (ValueError (migration_url st))
      else map_sum id (if is_offline then Offline else Online) (interpolate options (migration_url st)))"

definition do_run_migrations :: "(schema \<Rightarrow> schema option) \<Rightarrow> schema \<Rightarrow> bool \<times> schema" where
  "do_run_migrations run_migrations s =
     (case run_migrations s of None \<Rightarrow> (False, s) | Some s' \<Rightarrow> (True, s'))"

text \<open>\<open>connect\<close>: what making the engine and connecting to an address raises; \<open>failed\<close>: what a migration that fails raises. The
  second component says whether the engine is disposed of: after an exception it is not.\<close>

definition run_async_migrations ::
  "(string \<Rightarrow> exn option) \<Rightarrow> exn \<Rightarrow> (schema \<Rightarrow> schema option) \<Rightarrow> string \<Rightarrow> schema \<Rightarrow> exn option \<times> bool \<times> schema" where
  "run_async_migrations connect failed run_migrations url s =
     (case connect url of
        Some x \<Rightarrow> (Some x, False, s)
      | None \<Rightarrow>
          (case do_run_migrations run_migrations s of
             (True, s') \<Rightarrow> (None, True, s')
           | (False, s') \<Rightarrow> (Some failed, False, s')))"

text \<open>The whole module on the database's schema; the offline run writes a script and leaves the database alone.\<close>

definition migration_env ::
  "(string \<Rightarrow> string option) \<Rightarrow> (string \<Rightarrow> exn option) \<Rightarrow> exn \<Rightarrow> (schema \<Rightarrow> schema option) \<Rightarrow> bool \<Rightarrow> 'z settings_scheme
    \<Rightarrow> schema \<Rightarrow> exn option \<times> schema" where
  "migration_env options connect failed run_migrations is_offline st s =
     (case choose_migration_run options is_offline st of
        Inl x \<Rightarrow> (Some x, s)
      | Inr (Offline url) \<Rightarrow> (None, s)
      | Inr (Online url) \<Rightarrow>
          (case run_async_migrations connect failed run_migrations url s of (x, disposed, s') \<Rightarrow> (x, s')))"

subsection \<open>Addresses without and with percent signs\<close>

lemma drop_doubled_plain: "CHR ''%'' \<notin> set s \<Longrightarrow> drop_doubled s = s"
  by (induction s rule: drop_doubled.induct) auto

lemma drop_references_subset: "set (drop_references s) \<subseteq> set s"
proof (induction s rule: drop_references.induct)
  case (1 s)
  show ?case
  proof (cases "reference s")
    case None
    show ?thesis
    proof (cases s)
      case (Cons c cs)
      then show ?thesis using 1(1) [OF None Cons] None by (subst drop_references.simps) auto
    qed (simp add: drop_references.simps reference_def)
  next
    case (Some nr)
    obtain n r where nr: "nr = (n, r)" by fastforce
    have "set r \<subseteq> set s" using Some nr
      by (auto simp: reference_def Let_def split: list.splits if_splits dest!: in_set_dropD set_dropWhileD)
    then show ?thesis using 1(2) [OF Some, of n r] Some nr by (subst drop_references.simps) auto
  qed
qed

lemma plain_accepted: "CHR ''%'' \<notin> set url \<Longrightarrow> option_accepted url"
  using drop_references_subset [of url] by (auto simp: option_accepted_def drop_doubled_plain)

lemma interpolate_plain: "CHR ''%'' \<notin> set url \<Longrightarrow> interpolate options url = Inr url"
  by (induction url) auto

lemma drop_doubled_before: "CHR ''%'' \<notin> set a \<Longrightarrow> drop_doubled (a @ s) = a @ drop_doubled s"
proof (induction a)
  case (Cons c a)
  then show ?case by (cases "a @ s") auto
qed simp

lemma drop_references_before: "CHR ''%'' \<notin> set a \<Longrightarrow> drop_references (a @ s) = a @ drop_references s"
proof (induction a)
  case (Cons c a)
  then have "reference ((c # a) @ s) = None" by (auto simp: reference_def Let_def split: list.split)
  then show ?case using Cons by (subst drop_references.simps) simp
qed simp

text \<open>A percent sign with another character than a second one or a parenthesis behind it, as in every percent-encoded
  character, has the address refused.\<close>

lemma encoded_refused:
  assumes a: "CHR ''%'' \<notin> set a" and c: "c \<noteq> CHR ''%''" "c \<noteq> CHR ''(''"
  shows "\<not> option_accepted (a @ CHR ''%'' # c # b)"
proof -
  obtain u where u: "drop_doubled (c # b) = c # u"
    using c by (cases b) auto
  have "reference (CHR ''%'' # c # u) = None" using c by (simp add: reference_def Let_def)
  then have "CHR ''%'' \<in> set (drop_references (CHR ''%'' # c # u))" by (subst drop_references.simps) simp
  then show ?thesis using c by (simp add: option_accepted_def drop_doubled_before [OF a] u drop_references_before [OF a])
qed

lemma apply_migrations:
  "apply_ops (upgrade_0001 @ upgrade_0002) empty_schema = Some (migrated empty_schema (users_columns @ [updated_at_column]))"
proof -
  have "free_of_service empty_schema" by (simp add: empty_schema_def free_of_service_def)
  then show ?thesis by (simp add: apply_ops_append upgrade_0001_eq upgrade_0002_eq)
qed

text \<open>An address without percent signs reaches the engine as it is in the settings, and the run migrates the
  database or leaves it as it was.\<close>

theorem environment_migrates:
  assumes "CHR ''%'' \<notin> set (migration_url st)"
  shows "migration_env options connect failed run False st s =
    (case connect (migration_url st) of
       Some x \<Rightarrow> (Some x, s)
     | None \<Rightarrow> (case run s of None \<Rightarrow> (Some failed, s) | Some s' \<Rightarrow> (None, s')))"
  using assms
  by (simp add: migration_env_def choose_migration_run_def plain_accepted interpolate_plain run_async_migrations_def
      do_run_migrations_def split: option.split)

lemma environment_migrates_witness:
  "\<exists>s. migration_env (\<lambda>n. None) (\<lambda>url. None) (RuntimeError ''failed'') (apply_ops (upgrade_0001 @ upgrade_0002)) False
      (default_settings\<lparr>database_url := Some ''postgresql+asyncpg://app@db/app''\<rparr>) empty_schema = (None, s)"
proof -
  let ?st = "default_settings\<lparr>database_url := Some ''postgresql+asyncpg://app@db/app''\<rparr>"
  have "CHR ''%'' \<notin> set (migration_url ?st)" by (simp add: migration_url_def or_else_def)
  from environment_migrates [OF this] show ?thesis using apply_migrations by simp
qed

text \<open>A password in the address that holds a percent-encoded character, which SQLAlchemy asks for, stops the migrations
  before they begin: the service runs with this address, its schema cannot be migrated. Doubling the percent signs, which
  the environment does not do, would carry every address through the configuration.\<close>

theorem encoded_address_stops_migrations:
  assumes "database_url st = Some (a @ CHR ''%'' # c # b)" "CHR ''%'' \<notin> set a" "c \<noteq> CHR ''%''" "c \<noteq> CHR ''(''"
  shows "migration_env options connect failed run is_offline st s = (Some (ValueError (a @ CHR ''%'' # c # b)), s)"
  using encoded_refused [OF assms(2-4), of b] assms(1)
  by (simp add: migration_env_def choose_migration_run_def migration_url_def or_else_def)

fun doubled :: "string \<Rightarrow> string" where
  "doubled [] = []"
| "doubled (c # s) = (if c = CHR ''%'' then c # c # doubled s else c # doubled s)"

theorem doubling_carries_every_address:
  "option_accepted (doubled url) \<and> interpolate options (doubled url) = Inr url"
proof
  have "drop_doubled (doubled url) = filter (\<lambda>c. c \<noteq> CHR ''%'') url"
  proof (induction url)
    case (Cons c url)
    show ?case
    proof (cases "doubled url")
      case Nil
      then have "url = []" by (cases url) (auto split: if_splits)
      then show ?thesis by simp
    next
      case (Cons b r)
      then show ?thesis using Cons.IH by simp
    qed
  qed simp
  then show "option_accepted (doubled url)"
    using drop_references_subset [of "filter (\<lambda>c. c \<noteq> CHR ''%'') url"] by (auto simp: option_accepted_def)
  show "interpolate options (doubled url) = Inr url"
    by (induction url) simp_all
qed

subsection \<open>The metadata\<close>

text \<open>The tables of a database that the metadata does not declare.\<close>

definition undeclared :: "metadata \<Rightarrow> schema \<Rightarrow> string list" where
  "undeclared md s = filter (\<lambda>t. t \<notin> fst ` set md) (map fst (sm_tables s))"

text \<open>The metadata that the environment gives Alembic to compare lacks a table of the service: after the migrations
  the database has \<open>outbox_messages\<close>, the metadata does not.\<close>

theorem environment_misses_outbox:
  "\<exists>s. do_run_migrations (apply_ops (upgrade_0001 @ upgrade_0002)) empty_schema = (True, s) \<and>
     undeclared target_metadata s = [''outbox_messages''] \<and> undeclared service_metadata s = []"
  using apply_migrations
  by (simp add: do_run_migrations_def undeclared_def target_metadata_def service_metadata_def user_table_def outbox_table_def
      migrated_def empty_schema_def)

end
