(* ===== verification/Spec2Isabelle.thy ===== *)
theory Spec2Isabelle
  imports Gateway_Process Probes Flow Sampling Convergence Lifecycle Service Environment
begin

text \<open>
  A model of the \<open>ai-big-project\<close> backend: a gateway in front of services built on one kernel library, an
  outbox that publishes their events, a registry through which they are found, and an autoscaler.

  Sources, under \<open>src/\<close>: \<open>packages/kernel/kernel\<close> (below \<open>kernel\<close>), \<open>packages/contract-sdk/contract_sdk\<close>,
  \<open>services/gateway/gateway_app\<close>, \<open>services/service-template\<close> and \<open>services/autoscaler/autoscaler\<close>.

  How the parts interact. A client calls the gateway, whose outermost layer admits only listed requests with
  a valid token (\<open>Gateway\<close>); the route hands the request to the balancer, which picks an instance and fails
  over (\<open>Balancer\<close>, \<open>Pool\<close>, \<open>Probes\<close>); the discovery task refreshes the pool from the registry that the instances keep
  alive by heartbeats (\<open>Registry\<close>, \<open>Lifecycle\<close>). A service (\<open>App\<close>, \<open>Service\<close>) runs the request through the kernel's layers: metrics,
  access log, idempotency, request context, identity (\<open>Middleware\<close>, \<open>Idempotency\<close>), then its route and its
  domain service (\<open>Users\<close>) on the routed engines (\<open>Database\<close>). A write stages its event in the same
  transaction; the relay publishes it (\<open>Outbox\<close>) on the bus, whose consumers remember what they handled
  (\<open>Events\<close>). Errors of every layer become problem documents (\<open>Errors\<close>, \<open>Problem\<close>); log lines carry the
  request context and are masked (\<open>Context\<close>, \<open>Logging\<close>). The autoscaler reads the metrics (\<open>Autoscaler\<close>, \<open>Sampling\<close>).
\<close>

section \<open>Theories and sources\<close>

text \<open>
  \<^item> \<open>Prelude\<close>: association lists as Python dicts (\<open>dict_ok\<close>, \<open>dict_get\<close>), the string methods of Python that the
    code calls (\<open>strip\<close>, \<open>split\<close>, \<open>removeprefix\<close>, latin-1 and UTF-8), rotation of an index, lemmas on lists.
  \<^item> \<open>Json\<close>: JSON texts and values, printer and parser with the round trip that the stores and the bus use.
  \<^item> \<open>Settings\<close>: \<open>kernel/config.py\<close>. A subclass of \<open>Settings\<close> is an extension of the record.
  \<^item> \<open>Errors\<close>, \<open>Problem\<close>: \<open>kernel/error_codes.py\<close>, \<open>errors.py\<close>, \<open>problem.py\<close>, \<open>auth.py\<close>. The registry is a
    dict, an exception a value; handlers are functions to responses.
  \<^item> \<open>Context\<close>: \<open>kernel/context.py\<close>, \<open>contract_sdk/events.py\<close> (\<open>TraceContext\<close>). The context variables of one
    request are a record.
  \<^item> \<open>Asgi\<close>: the interface of the layers. An \<open>app\<close> takes a scope and a world (context, log lines, metrics,
    store, state of the service) to the messages it sends, the exception it ends with and the new world.
  \<^item> \<open>Idempotency\<close>: \<open>kernel/idempotency.py\<close>; every operation of a store may raise. The locale \<open>idempotency_store\<close> states
    what the middleware and the consumer rely on; the in-memory store interprets it, the Redis store does as a sublocale of
    \<open>redis_kv\<close>, the documented laws of a client that reaches its server. What a store out of reach does to requests and
    events is shown without these laws.
  \<^item> \<open>Middleware\<close>: \<open>kernel/middleware.py\<close>, \<open>metrics.py\<close>, and the order of the layers in \<open>app.py\<close>.
  \<^item> \<open>Balancer\<close>: \<open>gateway_app/balancer.py\<close>, one task at a time; \<open>Pool\<close>: the same code with requests, probes and
    refreshes interleaved at each \<open>await\<close>; \<open>Probes\<close>: the background probe loop by its rounds. The client answers, raises
    \<open>HTTPError\<close>, which the code handles, or raises anything else (\<open>Uncaught\<close>), which it does not.
  \<^item> \<open>Events\<close>: \<open>contract_sdk/events.py\<close>, \<open>kernel/events.py\<close>; \<open>Outbox\<close>: \<open>kernel/outbox.py\<close>, a batch at a time;
    \<open>Relay\<close>: its endless loop. The locale \<open>event_publisher\<close> states what the relay relies on; the RabbitMQ bus over
    an unreliable network and the in-process bus are its interpretations. The bus object has its three handles, which a
    connection attempt that fails may leave set in part (\<open>stage\<close>).
  \<^item> \<open>Flow\<close>: the composition of \<open>Users\<close>, \<open>Relay\<close> and \<open>Events\<close>, from a created user to the consumer of its event.
  \<^item> \<open>Autoscaler\<close>: \<open>config.py\<close>, \<open>metrics.py\<close>, \<open>policy.py\<close>, \<open>scaler.py\<close>, \<open>main.py\<close> of the autoscaler;
    \<open>Convergence\<close>: its loop under a lasting overload.
  \<^item> \<open>Sampling\<close>: from the counters of \<open>kernel/metrics.py\<close> to the sample of \<open>autoscaler/metrics.py\<close>, through the
    text format of the Prometheus client.
  \<^item> \<open>Registry\<close>: \<open>kernel/registry.py\<close> and the discovery task of \<open>gateway_app/main.py\<close>; the heartbeat's
    guarantees are proved in the locale \<open>service_registry\<close>, which \<open>closing_registry\<close> extends. The in-process registry
    interprets both; the Redis registry does as a sublocale of \<open>registry_redis\<close>, the documented laws of the server.
  \<^item> \<open>Database\<close>: \<open>kernel/db.py\<close> and \<open>health.py\<close>, the slow-query listeners included.
  \<^item> \<open>Logging\<close>: \<open>kernel/logging.py\<close>.
  \<^item> \<open>Gateway\<close>: \<open>config.py\<close>, \<open>auth.py\<close>, \<open>routes.py\<close>, \<open>middleware.py\<close>, \<open>proxy.py\<close>, \<open>main.py\<close> of the gateway.
  \<^item> \<open>Users\<close>: \<open>app/domain/user_service.py\<close>, \<open>app/models/user.py\<close>, \<open>app/error_codes.py\<close>,
    \<open>app/api/routes/users.py\<close> of the service, and the schemas of \<open>contract_sdk\<close>.
  \<^item> \<open>App\<close>: \<open>kernel/app.py\<close>, \<open>telemetry.py\<close> and \<open>app/main.py\<close>, \<open>app/config.py\<close> of the service.
  \<^item> \<open>Service\<close>: what \<open>create_app\<close> of the service and of the autoscaler build, and the service as one application: the
    kernel's routes and the service's inside the layers, inside the handler for unexpected exceptions.
  \<^item> \<open>Lifecycle\<close>: the lifespan of \<open>app/main.py\<close> as a step relation \<open>life\<close> on a process (phase, tasks, clock, registry,
    outbox, bus), with its failures, the kill, requests and other instances.
  \<^item> \<open>Gateway_Process\<close>: the lifespan of \<open>gateway_app/main.py\<close> as a step relation \<open>gateway_step\<close> around the pool: probe
    and discovery loops, requests, the registry under other processes, cancellation and closing. Its runs refine those of \<open>Pool\<close>.
  \<^item> \<open>Migrations\<close>: the two revisions under \<open>alembic/versions\<close> as operations on a schema, the models, and \<open>init_db\<close> of
    \<open>kernel/db.py\<close>; \<open>Environment\<close>: \<open>alembic/env.py\<close>, with the interpolation that Alembic's configuration, a
    \<open>ConfigParser\<close>, applies to the address of the database.
\<close>

section \<open>Properties\<close>

text \<open>
  \<^item> Requests: a proxied request succeeds whenever some available instance can serve it; the breaker opens and
    half-opens at its bounds; probes bring instances back; every interleaving keeps the pool's invariant and every
    task ends; the interleaved model refines the sequential one. The gateway calls only addresses it was configured with or
    that were registered, and keeps its configured pool over a registry of its own. The assembled service sends one
    complete response to every request, as long as its idempotency store can be written.
  \<^item> Access: the gateway denies by default; identities reach the service as verified, and only from a trusted
    proxy; the service returns a user to its owner and to administrators only; the guards deny by default.
  \<^item> Data: users and their events stay together in every interleaving; the relay keeps the outbox well formed,
    gives up on schedule, leaves no message waiting and marks as sent only what the broker has; a created user is
    announced to the other services; events arrive as published and conform to their contract; migrations are
    reversible, compatible with the code of before, and agree with the models, but do not start for an address of the
    database with a percent-encoded character.
  \<^item> Idempotency: a retry is answered from the record; a consumer runs once per event. The limits are properties
    too: overlapping requests both run, an event whose consumer fails once is lost, two overlapping
    creations of one address end with a 500, a replayed response is sent to whoever has the key, a store that cannot be
    written cuts responses off and makes retries run again, one out of reach loses the events of the consumers.
  \<^item> Operation: replicas stay within bounds and act exactly when the load persists, no closer than the cooldown;
    a lasting overload leads to the maximum; an instance joins the gateway's pool with its heartbeat and
    leaves it when it ended, and its outbox survives it;
    the autoscaler samples what the services count, unless a line break in a path stops it; reads and writes are split; each request is counted once;
    log lines mask secrets and carry the authentic context.
\<close>

section \<open>Conventions and bounds\<close>

text \<open>
  Python integers are \<open>int\<close> or, where they only count up, \<open>nat\<close>; floats (times, rates) are \<open>real\<close>, so rounding is
  not modelled. Strings are lists of characters, the bytes of their UTF-8 encoding. A dict is an association list
  in insertion order with distinct keys. Exceptions are values of \<open>exn\<close>. Clocks, random identifiers, the HTTP
  client, the Redis client, the broker's answers and the scaler's commands are arguments; the laws the code
  relies on for them are named hypotheses or locale assumptions; so are which addresses the Redis clients can be built for
  (\<open>accepts\<close>), on which the fallbacks depend, and where a connection to the broker fails. The outbox's database is the list of its rows, the
  service's database the committed rows of each engine; a transaction that fails leaves them as they were.

  Loops are structural or carry the bound of the code: the failover loop runs \<open>length (b_urls b)\<close> rounds, the
  range of the source; its selection loop the same number. Endless background loops (relay, heartbeat,
  discovery, probes, autoscaler) are runs over a list of the rounds that happened, so that the statements hold
  after every finite number of rounds. Recursions that are not structural have termination proofs.
\<close>

section \<open>Not modelled\<close>

text \<open>
  Input and output, and what the sources only call: FastAPI's and Starlette's dispatch beyond the routes given,
  SQLAlchemy's SQL, drivers, sessions and connection pools (\<open>build_session_factory\<close>,
  \<open>get_session_dependency\<close>), Alembic's runtime, the OpenTelemetry exporter
  and propagator, the Prometheus client beyond its text format for counters, the Redis and RabbitMQ protocols,
  \<open>docker compose\<close>. Column sizes are not modelled; the relay and the registry treat what their clients raise as a round that failed.
  Time stamps of log lines and the rendering of objects that are no JSON are arguments. Package files, tests,
  scripts and deployment files hold no logic of the running system. The coercions of pydantic are modelled for
  the types the schemas use.
\<close>

end
